(* ===== verification/Prelude.thy ===== *)
theory Prelude
  imports Main "HOL-Library.Char_ord"
begin

text \<open>
  What every component of the model shares.
  \<^item> Errors: a Go \<open>error\<close> built with \<open>fmt.Errorf\<close> is a \<open>gerr\<close>: the format literal of the
    source and its arguments, with \<open>Wrap\<close> for the \<open>%w\<close> chains. Fallible functions return
    \<open>'a res\<close>, with \<open>Inl\<close> for the error.
  \<^item> Strings: a Go string is a sequence of bytes, so it is a HOL \<open>string\<close> (a list of 8-bit
    \<open>char\<close>s). The functions of package \<open>strings\<close> the program calls are defined here.
    \<open>to_lower\<close> and \<open>equal_fold\<close> follow the ASCII rules. The program compares with
    \<open>EqualFold\<close> only against ASCII header names and tokens, and the two non-ASCII letters whose
    simple folding is an ASCII letter (the Kelvin sign and the long s) are folded too.
  \<^item> Integers: \<open>i64\<close> is the two's complement wrap-around of a 64-bit Go integer.
  \<^item> \<open>gomap\<close>: a Go map that the program iterates over, as an association list in some
    iteration order.
\<close>

named_theorems go_res "computation of fallible results"
named_theorems char_eval "characters from their codes"
named_theorems go_str "rewriting of Go string operations"

section \<open>Errors\<close>

datatype garg = N int | S string

datatype gerr = Err string "garg list" | Wrap string "garg list" gerr

type_synonym 'a res = "gerr + 'a"

definition rbind :: "('e + 'a) \<Rightarrow> ('a \<Rightarrow> 'e + 'b) \<Rightarrow> 'e + 'b" where
  "rbind r f = (case r of Inl e \<Rightarrow> Inl e | Inr a \<Rightarrow> f a)"

definition wrap_err :: "string \<Rightarrow> garg list \<Rightarrow> 'a res \<Rightarrow> 'a res" where
  "wrap_err s args r = (case r of Inl e \<Rightarrow> Inl (Wrap s args e) | Inr a \<Rightarrow> Inr a)"

text \<open>A guard of the source: \<open>if bad { return fmt.Errorf(...) }\<close>.\<close>

definition guard :: "bool \<Rightarrow> gerr \<Rightarrow> unit res" where
  "guard bad e = (if bad then Inl e else Inr ())"

definition is_ok :: "('e + 'a) \<Rightarrow> bool" where
  "is_ok r = (case r of Inl _ \<Rightarrow> False | Inr _ \<Rightarrow> True)"

lemma rbind_simps [simp, go_res]:
  "rbind (Inl e) f = Inl e"
  "rbind (Inr a) f = f a"
  by (simp_all add: rbind_def)

lemma rbind_Inr_iff [go_res]: "rbind r f = Inr b \<longleftrightarrow> (\<exists>a. r = Inr a \<and> f a = Inr b)"
  by (cases r) auto

lemma wrap_err_simps [simp, go_res]:
  "wrap_err s args (Inl e) = Inl (Wrap s args e)"
  "wrap_err s args (Inr a) = Inr a"
  by (simp_all add: wrap_err_def)

lemma wrap_err_Inr_iff [simp, go_res]: "wrap_err s args r = Inr a \<longleftrightarrow> r = Inr a"
  by (cases r) auto

lemma guard_Inr_iff [simp, go_res]: "guard bad e = Inr u \<longleftrightarrow> \<not> bad"
  by (simp add: guard_def)

lemma is_ok_simps [simp]: "is_ok (Inr a)" "\<not> is_ok (Inl e)"
  by (simp_all add: is_ok_def)

lemma is_ok_iff: "is_ok r \<longleftrightarrow> (\<exists>a. r = Inr a)"
  by (cases r) auto

text \<open>A loop that checks every item in order and stops at the first error.\<close>

fun check_all :: "(nat \<Rightarrow> 'a \<Rightarrow> unit res) \<Rightarrow> nat \<Rightarrow> 'a list \<Rightarrow> unit res" where
  "check_all f i [] = Inr ()"
| "check_all f i (x # xs) = rbind (f i x) (\<lambda>_. check_all f (Suc i) xs)"

lemma check_all_Inr_iff [go_res]:
  "check_all f i xs = Inr u \<longleftrightarrow> (\<forall>k < length xs. f (i + k) (xs ! k) = Inr ())"
proof (induction xs arbitrary: i)
  case Nil
  then show ?case by simp
next
  case (Cons x xs)
  have "(\<forall>k < Suc (length xs). f (i + k) ((x # xs) ! k) = Inr ()) \<longleftrightarrow>
      f i x = Inr () \<and> (\<forall>k < length xs. f (Suc i + k) (xs ! k) = Inr ())"
    by (auto simp: less_Suc_eq_0_disj nth_Cons split: nat.splits)
  with Cons show ?case by (auto simp: rbind_Inr_iff)
qed

section \<open>Signed 64-bit integers\<close>

definition i64 :: "int \<Rightarrow> int" where
  "i64 x = (x + 2 ^ 63) mod 2 ^ 64 - 2 ^ 63"

definition in_i64 :: "int \<Rightarrow> bool" where
  "in_i64 x \<longleftrightarrow> - (2 ^ 63) \<le> x \<and> x < 2 ^ 63"

lemma i64_id: "in_i64 x \<Longrightarrow> i64 x = x"
  by (simp add: i64_def in_i64_def mod_pos_pos_trivial)

lemma i64_range: "in_i64 (i64 x)"
proof -
  have "0 \<le> (x + 2 ^ 63) mod (2 ^ 64 :: int)" "(x + 2 ^ 63) mod (2 ^ 64 :: int) < 2 ^ 64"
    by simp_all
  then show ?thesis by (simp add: i64_def in_i64_def)
qed

section \<open>Characters\<close>

definition is_digit :: "char \<Rightarrow> bool" where
  "is_digit c \<longleftrightarrow> CHR ''0'' \<le> c \<and> c \<le> CHR ''9''"

definition is_lower :: "char \<Rightarrow> bool" where
  "is_lower c \<longleftrightarrow> CHR ''a'' \<le> c \<and> c \<le> CHR ''z''"

definition is_upper :: "char \<Rightarrow> bool" where
  "is_upper c \<longleftrightarrow> CHR ''A'' \<le> c \<and> c \<le> CHR ''Z''"

definition is_space :: "char \<Rightarrow> bool" where
  "is_space c \<longleftrightarrow> c = CHR '' '' \<or> c = CHR 0x09 \<or> c = CHR 0x0A \<or> c = CHR 0x0B \<or> c = CHR 0x0C \<or> c = CHR 0x0D"

definition lower_char :: "char \<Rightarrow> char" where
  "lower_char c = (if is_upper c then char_of (of_char c + 32 :: nat) else c)"

definition upper_char :: "char \<Rightarrow> char" where
  "upper_char c = (if is_lower c then char_of (of_char c - 32 :: nat) else c)"

text \<open>Evaluation of the characters that numbers print to.\<close>

lemma char_of_ascii [char_eval]:
  "char_of (47::nat) = CHR ''/''"
  "char_of (48::nat) = CHR ''0''"
  "char_of (49::nat) = CHR ''1''"
  "char_of (50::nat) = CHR ''2''"
  "char_of (51::nat) = CHR ''3''"
  "char_of (52::nat) = CHR ''4''"
  "char_of (53::nat) = CHR ''5''"
  "char_of (54::nat) = CHR ''6''"
  "char_of (55::nat) = CHR ''7''"
  "char_of (56::nat) = CHR ''8''"
  "char_of (57::nat) = CHR ''9''"
  "char_of (97::nat) = CHR ''a''"
  "char_of (98::nat) = CHR ''b''"
  "char_of (99::nat) = CHR ''c''"
  "char_of (100::nat) = CHR ''d''"
  "char_of (101::nat) = CHR ''e''"
  "char_of (102::nat) = CHR ''f''"
  "char_of (103::nat) = CHR ''g''"
  "char_of (104::nat) = CHR ''h''"
  "char_of (105::nat) = CHR ''i''"
  "char_of (106::nat) = CHR ''j''"
  "char_of (107::nat) = CHR ''k''"
  "char_of (108::nat) = CHR ''l''"
  "char_of (109::nat) = CHR ''m''"
  "char_of (110::nat) = CHR ''n''"
  "char_of (111::nat) = CHR ''o''"
  "char_of (112::nat) = CHR ''p''"
  "char_of (113::nat) = CHR ''q''"
  "char_of (114::nat) = CHR ''r''"
  "char_of (115::nat) = CHR ''s''"
  "char_of (116::nat) = CHR ''t''"
  "char_of (117::nat) = CHR ''u''"
  "char_of (118::nat) = CHR ''v''"
  "char_of (119::nat) = CHR ''w''"
  "char_of (120::nat) = CHR ''x''"
  "char_of (121::nat) = CHR ''y''"
  "char_of (122::nat) = CHR ''z''"
  by code_simp+

section \<open>Package strings\<close>

definition to_lower :: "string \<Rightarrow> string" where
  "to_lower s = map lower_char s"

fun fold_ascii :: "string \<Rightarrow> string" where
  "fold_ascii [] = []"
| "fold_ascii (a # cs) =
     (if a = CHR 0xC5 \<and> take 1 cs = [CHR 0xBF] then CHR ''s'' # fold_ascii (drop 1 cs)
      else if a = CHR 0xE2 \<and> take 2 cs = [CHR 0x84, CHR 0xAA] then CHR ''k'' # fold_ascii (drop 2 cs)
      else lower_char a # fold_ascii cs)"

definition equal_fold :: "string \<Rightarrow> string \<Rightarrow> bool" where
  "equal_fold s t \<longleftrightarrow> fold_ascii s = fold_ascii t"

definition has_prefix :: "string \<Rightarrow> string \<Rightarrow> bool" where
  "has_prefix s p \<longleftrightarrow> take (length p) s = p"

definition trim_prefix :: "string \<Rightarrow> string \<Rightarrow> string" where
  "trim_prefix s p = (if has_prefix s p then drop (length p) s else s)"

definition has_suffix :: "string \<Rightarrow> string \<Rightarrow> bool" where
  "has_suffix s p \<longleftrightarrow> length p \<le> length s \<and> drop (length s - length p) s = p"

definition trim_suffix :: "string \<Rightarrow> string \<Rightarrow> string" where
  "trim_suffix s p = (if has_suffix s p then take (length s - length p) s else s)"

definition contains_byte :: "string \<Rightarrow> char \<Rightarrow> bool" where
  "contains_byte s c \<longleftrightarrow> c \<in> set s"

definition trim_left :: "(char \<Rightarrow> bool) \<Rightarrow> string \<Rightarrow> string" where
  "trim_left P s = dropWhile P s"

definition trim_right :: "(char \<Rightarrow> bool) \<Rightarrow> string \<Rightarrow> string" where
  "trim_right P s = rev (dropWhile P (rev s))"

definition trim :: "(char \<Rightarrow> bool) \<Rightarrow> string \<Rightarrow> string" where
  "trim P s = trim_right P (trim_left P s)"

text \<open>
  \<open>strings.TrimSpace\<close> removes white space of Unicode: besides the ASCII characters the runes of two
  and three bytes in UTF-8, at the front and, read backwards, at the end.
\<close>

definition space_rune :: "string \<Rightarrow> bool" where
  "space_rune b \<longleftrightarrow> b \<in> {[CHR 0xC2, CHR 0x85], [CHR 0xC2, CHR 0xA0], [CHR 0xE1, CHR 0x9A, CHR 0x80],
     [CHR 0xE2, CHR 0x80, CHR 0xA8], [CHR 0xE2, CHR 0x80, CHR 0xA9], [CHR 0xE2, CHR 0x80, CHR 0xAF],
     [CHR 0xE2, CHR 0x81, CHR 0x9F], [CHR 0xE3, CHR 0x80, CHR 0x80]} \<or>
     take 2 b = [CHR 0xE2, CHR 0x80] \<and> length b = 3 \<and> CHR 0x80 \<le> b ! 2 \<and> b ! 2 \<le> CHR 0x8A"

definition space_len :: "string \<Rightarrow> nat" where
  "space_len s =
     (if s = [] then 0 else if is_space (hd s) then 1
      else if space_rune (take 2 s) then 2 else if space_rune (take 3 s) then 3 else 0)"

definition space_len_back :: "string \<Rightarrow> nat" where
  "space_len_back s =
     (if s = [] then 0 else if is_space (hd s) then 1
      else if space_rune (rev (take 2 s)) then 2 else if space_rune (rev (take 3 s)) then 3 else 0)"

function trim_front :: "(string \<Rightarrow> nat) \<Rightarrow> string \<Rightarrow> string" where
  "trim_front f s = (if s = [] \<or> f s = 0 then s else trim_front f (drop (f s) s))"
  by pat_completeness auto
termination by (relation "measure (length \<circ> snd)") auto

declare trim_front.simps [simp del]

definition trim_space :: "string \<Rightarrow> string" where
  "trim_space s = rev (trim_front space_len_back (rev (trim_front space_len s)))"

text \<open>\<open>strings.Split(s, sep)\<close> for a one-byte separator: always at least one piece.\<close>

fun split_on :: "char \<Rightarrow> string \<Rightarrow> string list" where
  "split_on c [] = [[]]"
| "split_on c (x # xs) =
     (if x = c then [] # split_on c xs
      else (case split_on c xs of [] \<Rightarrow> [[x]] | y # ys \<Rightarrow> (x # y) # ys))"

fun join_with :: "string \<Rightarrow> string list \<Rightarrow> string" where
  "join_with sep [] = []"
| "join_with sep [x] = x"
| "join_with sep (x # y # ys) = x @ sep @ join_with sep (y # ys)"

text \<open>\<open>strings.IndexByte\<close>: the first index of the byte, if any.\<close>

fun index_byte :: "string \<Rightarrow> char \<Rightarrow> nat option" where
  "index_byte [] c = None"
| "index_byte (x # xs) c = (if x = c then Some 0 else map_option Suc (index_byte xs c))"

lemma has_prefix_iff [go_str]: "has_prefix s p \<longleftrightarrow> (\<exists>r. s = p @ r)"
  by (metis append_eq_conv_conj append_take_drop_id has_prefix_def)

lemma trim_prefix_append [simp]: "trim_prefix (p @ r) p = r"
  by (simp add: trim_prefix_def has_prefix_def)

lemma has_suffix_iff [go_str]: "has_suffix s p \<longleftrightarrow> (\<exists>r. s = r @ p)"
proof
  assume "has_suffix s p"
  then have "s = take (length s - length p) s @ p"
    by (metis append_take_drop_id has_suffix_def)
  then show "\<exists>r. s = r @ p" ..
qed (auto simp: has_suffix_def)

lemma trim_suffix_append [simp]: "trim_suffix (r @ p) p = r"
  by (simp add: trim_suffix_def has_suffix_def)

lemma split_on_not_Nil [simp]: "split_on c s \<noteq> []"
  by (induction s) (auto split: list.splits)

lemma split_on_join: "split_on c (s @ c # t) = split_on c s @ split_on c t"
  by (induction s) (auto simp: neq_Nil_conv split: list.splits)

lemma join_with_append1:
  "vs \<noteq> [] \<Longrightarrow> join_with sep (vs @ [v]) = join_with sep vs @ sep @ v"
  by (induction sep vs rule: join_with.induct) auto

lemma index_byte_None_iff: "index_byte s c = None \<longleftrightarrow> c \<notin> set s"
  by (induction s) auto

lemma index_byte_Some_iff:
  "index_byte s c = Some i \<longleftrightarrow> i < length s \<and> s ! i = c \<and> c \<notin> set (take i s)"
proof (induction s arbitrary: i)
  case Nil
  then show ?case by simp
next
  case (Cons x xs)
  then show ?case by (cases i) auto
qed

lemma trim_front_done: "trim_front f s = [] \<or> f (trim_front f s) = 0"
proof (induction f s rule: trim_front.induct)
  case (1 f s)
  show ?case
  proof (cases "s = [] \<or> f s = 0")
    case True
    then show ?thesis by (auto simp: trim_front.simps [of f s])
  next
    case False
    then have "trim_front f s = trim_front f (drop (f s) s)" by (simp add: trim_front.simps [of f s])
    with 1 False show ?thesis by simp
  qed
qed

lemma trim_front_id: "f s = 0 \<Longrightarrow> trim_front f s = s"
  by (simp add: trim_front.simps [of f s])

lemma trim_front_suffix: "\<exists>n. trim_front f s = drop n s"
proof (induction f s rule: trim_front.induct)
  case (1 f s)
  show ?case
  proof (cases "s = [] \<or> f s = 0")
    case True
    then have "trim_front f s = drop 0 s" by (simp add: trim_front.simps [of f s])
    then show ?thesis ..
  next
    case False
    with 1 obtain n where "trim_front f (drop (f s) s) = drop n (drop (f s) s)" by blast
    then have "trim_front f s = drop (n + f s) s" using False by (simp add: trim_front.simps [of f s])
    then show ?thesis ..
  qed
qed

lemma space_rune_length: "space_rune b \<Longrightarrow> 2 \<le> length b \<and> length b \<le> 3"
  unfolding space_rune_def by auto

lemma space_rune_prefix: "space_rune (take k (take n s)) \<Longrightarrow> k \<le> 3 \<Longrightarrow> 2 \<le> k \<Longrightarrow>
    space_rune (take k s) \<or> space_rune (take 2 s)"
proof (cases "k \<le> n")
  case False
  assume r: "space_rune (take k (take n s))" and k: "k \<le> 3" "2 \<le> k"
  have "2 \<le> length (take k (take n s))" using space_rune_length [OF r] by simp
  then have "n = 2" using False k by auto
  then show ?thesis using r False by (simp add: min_def split: if_splits)
qed (simp add: min_def)

lemma space_len_take:
  assumes "space_len s = 0"
  shows "space_len (take n s) = 0"
proof (cases "take n s = []")
  case False
  then have h: "s \<noteq> []" "hd (take n s) = hd s" by (cases s; cases n; simp)+
  have "\<not> is_space (hd s)" "\<not> space_rune (take 2 s)" "\<not> space_rune (take 3 s)"
    using assms h(1) by (auto simp: space_len_def split: if_splits)
  then have "\<not> space_rune (take 2 (take n s))" "\<not> space_rune (take 3 (take n s))" "\<not> is_space (hd (take n s))"
    using space_rune_prefix [of 2 n s] space_rune_prefix [of 3 n s] h(2) by auto
  then show ?thesis unfolding space_len_def by (simp only: if_False simp_thms split: if_splits)
qed (simp add: space_len_def)

lemma space_len_back_whole: "space_len_back r \<noteq> 0 \<Longrightarrow> length r \<le> space_len_back r \<Longrightarrow> space_len (rev r) \<noteq> 0"
proof (cases "is_space (hd r)")
  case False
  assume l: "space_len_back r \<noteq> 0" "length r \<le> space_len_back r"
  show ?thesis
  proof (cases "space_rune (rev (take 2 r))")
    case True
    then have "r \<noteq> []" "space_len_back r = 2" using l False by (auto simp: space_len_back_def)
    then have "r \<noteq> []" "take 2 r = r" using l by simp_all
    then show ?thesis using True by (auto simp: space_len_def)
  next
    case f2: False
    then have "r \<noteq> []" "take 3 r = r" "space_rune (rev (take 3 r))"
      using l False by (auto simp: space_len_back_def split: if_splits)
    then show ?thesis by (auto simp: space_len_def)
  qed
next
  case True
  assume "space_len_back r \<noteq> 0" "length r \<le> space_len_back r"
  then have "r \<noteq> []" "length r \<le> 1" using True by (auto simp: space_len_back_def split: if_splits)
  then obtain x where "r = [x]" by (cases r) auto
  then show ?thesis using True by (simp add: space_len_def)
qed

lemma trim_back_empty: "trim_front space_len_back r = [] \<Longrightarrow> r \<noteq> [] \<Longrightarrow> space_len (rev r) \<noteq> 0"
proof (induction space_len_back r rule: trim_front.induct)
  case (1 r)
  have k: "space_len_back r \<noteq> 0" using 1 by (auto simp: trim_front.simps [of space_len_back r] split: if_splits)
  show ?case
  proof (cases "length r \<le> space_len_back r")
    case True
    then show ?thesis using k space_len_back_whole by blast
  next
    case False
    have "trim_front space_len_back (drop (space_len_back r) r) = []"
      using 1(2,3) k by (simp add: trim_front.simps [of space_len_back r])
    then have "space_len (rev (drop (space_len_back r) r)) \<noteq> 0" using 1 k False by simp
    then show ?thesis using space_len_take [of "rev r" "length r - space_len_back r"] by (auto simp: rev_drop)
  qed
qed

lemma trim_space_empty: "trim_space s = [] \<longleftrightarrow> trim_front space_len s = []"
proof (cases "trim_front space_len s = []")
  case True
  then show ?thesis by (simp add: trim_space_def trim_front.simps [of space_len_back "[]"])
next
  case False
  then have "space_len (trim_front space_len s) = 0" using trim_front_done [of space_len s] by blast
  then have "trim_front space_len_back (rev (trim_front space_len s)) \<noteq> []"
    using trim_back_empty [of "rev (trim_front space_len s)"] False by auto
  then show ?thesis using False by (simp add: trim_space_def)
qed

lemma trim_space_idem [simp]: "trim_space (trim_space s) = trim_space s"
proof -
  define t where "t = trim_front space_len s"
  define v where "v = trim_front space_len_back (rev t)"
  have s: "trim_space s = rev v" by (simp add: v_def trim_space_def t_def)
  obtain n where "v = drop n (rev t)" unfolding v_def using trim_front_suffix by blast
  then have v: "rev v = take (length t - n) t" by (simp add: rev_drop)
  have nil: "space_len [] = 0" "space_len_back [] = 0" by (simp_all add: space_len_def space_len_back_def)
  then have "space_len t = 0" unfolding t_def using trim_front_done [of space_len s] by metis
  then have "space_len (rev v) = 0" unfolding v by (rule space_len_take)
  then have l: "trim_front space_len (rev v) = rev v" by (rule trim_front_id)
  have "space_len_back v = 0" unfolding v_def using trim_front_done [of space_len_back "rev t"] nil by metis
  then have "trim_front space_len_back v = v" by (rule trim_front_id)
  then show ?thesis unfolding s by (simp add: trim_space_def l)
qed

lemma trim_space_blank: "trim_space (CHR '' '' # s) = trim_space s"
  by (simp add: trim_space_def trim_front.simps [of space_len "CHR '' '' # s"])
     (simp add: space_len_def is_space_def)

lemma trim_space_subset: "set (trim_space s) \<subseteq> set s"
proof -
  have "set (trim_front f t) \<subseteq> set t" for f t
    using trim_front_suffix [of f t] set_drop_subset by metis
  then show ?thesis unfolding trim_space_def by (metis set_rev subset_trans)
qed

lemma to_lower_append [simp]: "to_lower (s @ t) = to_lower s @ to_lower t"
  by (simp add: to_lower_def)

lemma equal_fold_refl [simp]: "equal_fold s s"
  by (simp add: equal_fold_def)

lemma equal_fold_sym: "equal_fold s t \<Longrightarrow> equal_fold t s"
  by (simp add: equal_fold_def)

section \<open>The first item with a property\<close>

fun first_index :: "('a \<Rightarrow> bool) \<Rightarrow> 'a list \<Rightarrow> nat option" where
  "first_index P [] = None"
| "first_index P (x # xs) = (if P x then Some 0 else map_option Suc (first_index P xs))"

lemma first_index_None_iff: "first_index P xs = None \<longleftrightarrow> (\<forall>x \<in> set xs. \<not> P x)"
  by (induction xs) auto

lemma first_index_Some_ex: "first_index P xs = Some i \<Longrightarrow> \<exists>x \<in> set xs. P x"
  using first_index_None_iff [of P xs] by auto

lemma first_index_Some_iff:
  "first_index P xs = Some i \<longleftrightarrow> i < length xs \<and> P (xs ! i) \<and> (\<forall>j < i. \<not> P (xs ! j))"
proof (induction xs arbitrary: i)
  case Nil
  then show ?case by simp
next
  case (Cons x xs)
  then show ?case by (cases i) (auto simp: less_Suc_eq_0_disj)
qed

section \<open>Go maps with an iteration order\<close>

type_synonym ('k, 'v) gomap = "('k \<times> 'v) list"

definition go_keys :: "('k, 'v) gomap \<Rightarrow> 'k set" where
  "go_keys m = fst ` set m"

definition wf_gomap :: "('k, 'v) gomap \<Rightarrow> bool" where
  "wf_gomap m \<longleftrightarrow> distinct (map fst m)"

text \<open>\<open>m[k] = v\<close> (an existing key keeps its place) and \<open>delete(m, k)\<close>.\<close>

fun go_put :: "'k \<Rightarrow> 'v \<Rightarrow> ('k, 'v) gomap \<Rightarrow> ('k, 'v) gomap" where
  "go_put k v [] = [(k, v)]"
| "go_put k v ((k', v') # m) = (if k' = k then (k, v) # m else (k', v') # go_put k v m)"

definition go_delete :: "'k \<Rightarrow> ('k, 'v) gomap \<Rightarrow> ('k, 'v) gomap" where
  "go_delete k m = filter (\<lambda>e. fst e \<noteq> k) m"

lemma go_put_lookup [simp]: "map_of (go_put k v m) = (map_of m)(k \<mapsto> v)"
  by (induction k v m rule: go_put.induct) auto

lemma go_put_keys [simp]: "go_keys (go_put k v m) = insert k (go_keys m)"
  by (induction k v m rule: go_put.induct) (auto simp: go_keys_def)

lemma go_put_set: "set (go_put k v m) \<subseteq> insert (k, v) (set m)"
  by (induction k v m rule: go_put.induct) auto

lemma wf_go_put [simp]: "wf_gomap m \<Longrightarrow> wf_gomap (go_put k v m)"
proof (induction k v m rule: go_put.induct)
  case (1 k v)
  then show ?case by (simp add: wf_gomap_def)
next
  case (2 k v k' v' m)
  have "fst ` set (go_put k v m) = insert k (fst ` set m)"
    using go_put_keys [of k v m] by (simp add: go_keys_def)
  with 2 show ?case by (cases "k' = k") (auto simp: wf_gomap_def)
qed

lemma go_delete_lookup [simp]: "map_of (go_delete k m) = (map_of m)(k := None)"
  by (induction m) (auto simp: go_delete_def)

lemma wf_go_delete [simp]: "wf_gomap m \<Longrightarrow> wf_gomap (go_delete k m)"
  by (simp add: wf_gomap_def go_delete_def distinct_map_filter)

lemma wf_gomap_filter [simp]: "wf_gomap m \<Longrightarrow> wf_gomap (filter P m)"
  by (simp add: wf_gomap_def distinct_map_filter)

lemma wf_gomap_Nil [simp]: "wf_gomap []"
  by (simp add: wf_gomap_def)

section \<open>Keeping the better of two\<close>

text \<open>
  The loops that choose a site, a host pattern or a route keep the best candidate seen so far and
  replace it by a strictly better one. Their contract is a preference that is the order of a key;
  what they keep is then best among what they saw.
\<close>

definition improve_by :: "('a \<Rightarrow> 'a \<Rightarrow> bool) \<Rightarrow> 'a option \<Rightarrow> 'a \<Rightarrow> 'a option" where
  "improve_by better selected c =
     (case selected of None \<Rightarrow> Some c | Some b \<Rightarrow> if better c b then Some c else Some b)"

definition best_among :: "('a \<Rightarrow> 'k::linorder) \<Rightarrow> 'a set \<Rightarrow> 'a option \<Rightarrow> bool" where
  "best_among key A best \<longleftrightarrow>
     (case best of None \<Rightarrow> A = {} | Some c \<Rightarrow> c \<in> A \<and> (\<forall>x \<in> A. key x \<le> key c))"

lemma best_among_empty [simp]: "best_among key {} best \<longleftrightarrow> best = None"
  by (cases best) (simp_all add: best_among_def)

lemma best_among_key: "best_among key A (Some a) \<Longrightarrow> best_among key A (Some b) \<Longrightarrow> key a = key b"
  by (auto simp: best_among_def intro: antisym)

lemma best_among_unique:
  "inj_on key A \<Longrightarrow> best_among key A a \<Longrightarrow> best_among key A b \<Longrightarrow> a = b"
  by (cases a; cases b) (auto simp: best_among_def dest: inj_onD intro!: inj_onD [of key A] antisym)

locale preference =
  fixes better :: "'a \<Rightarrow> 'a \<Rightarrow> bool"
    and key :: "'a \<Rightarrow> 'k::linorder"
  assumes better_key: "better a b \<longleftrightarrow> key b < key a"
begin

lemma improve_best:
  "best_among key A b \<Longrightarrow> best_among key (insert c A) (improve_by better b c)"
  by (cases b) (auto simp: best_among_def improve_by_def better_key not_less)

lemma improve_all_best:
  "best_among key A b \<Longrightarrow> best_among key (A \<union> set xs) (foldl (improve_by better) b xs)"
proof (induction xs arbitrary: A b)
  case (Cons x xs)
  from Cons.IH [OF improve_best [OF Cons.prems, of x]] show ?case by simp
qed simp

lemma best_of_list: "best_among key (set xs) (foldl (improve_by better) None xs)"
  using improve_all_best [of "{}" None xs] by simp

lemma better_irrefl: "\<not> better a a"
  by (simp add: better_key)

lemma better_trans: "better a b \<Longrightarrow> better b c \<Longrightarrow> better a c"
  by (auto simp: better_key)

end

section \<open>Tests on a state\<close>

text \<open>
  A test that may change the state it asks: a target that is let in again when its time has come, a
  condition that fills a cache. Its contract is the verdict as a function of the state, and an
  invariant. A test is pure if asking never changes a later verdict.
\<close>

fun ask_all :: "('i \<Rightarrow> 's \<Rightarrow> bool \<times> 's) \<Rightarrow> 'i list \<Rightarrow> 's \<Rightarrow> bool list \<times> 's" where
  "ask_all ask [] s = ([], s)"
| "ask_all ask (i # is) s =
     (case ask i s of (ok, s') \<Rightarrow> (case ask_all ask is s' of (oks, s'') \<Rightarrow> (ok # oks, s'')))"

locale stateful_test =
  fixes ask :: "'i \<Rightarrow> 's \<Rightarrow> bool \<times> 's"
    and up :: "'s \<Rightarrow> 'i \<Rightarrow> bool"
    and inv :: "'s \<Rightarrow> bool"
  assumes ask_iff: "inv s \<Longrightarrow> fst (ask i s) = up s i"
    and ask_inv: "inv s \<Longrightarrow> inv (snd (ask i s))"
begin

lemma ask_all_inv: "inv s \<Longrightarrow> inv (snd (ask_all ask is s))"
  by (induction "is" arbitrary: s) (simp_all add: split_beta ask_inv)

lemma ask_answer: "inv s \<Longrightarrow> ask i s = (ok, s') \<Longrightarrow> ok = up s i \<and> inv s'"
  using ask_iff [of s i] ask_inv [of s i] by simp

end

locale pure_test = stateful_test +
  assumes ask_pure: "inv s \<Longrightarrow> up (snd (ask i s)) j = up s j"
begin

lemma ask_all_pure: "inv s \<Longrightarrow> fst (ask_all ask is s) = map (up s) is"
proof (induction "is" arbitrary: s)
  case (Cons i "is")
  have "map (up (snd (ask i s))) is = map (up s) is"
    using ask_pure [OF Cons.prems] by simp
  with Cons show ?case by (simp add: split_beta ask_iff ask_inv)
qed simp

end

end
