(* ===== verification/RateLimit.thy ===== *)
theory RateLimit
  imports Prelude
begin

text \<open>
  The token bucket of \<open>src/rate_limit.go\<close>. A bucket counts nanotokens in signed 64-bit
  arithmetic (\<open>i64\<close>); a request costs \<open>nanotokensPerToken\<close> of them and a bucket refills by
  \<open>rate\<close> nanotokens per elapsed nanosecond. Times are nanoseconds since Go's zero time.
  A \<open>*limitConfig\<close> is compared by identity in the code, so the record carries the pointer
  (\<open>cfg_ptr\<close>) beside the two settings.
  The locale \<open>admission_control\<close> is what a caller may rely on; \<open>Admission\<close> and \<open>Limiter\<close> model
  the two compare-and-swap loops that reserve a token.
\<close>

section \<open>State\<close>

record limit_config =
  cfg_ptr :: nat
  Rate :: int
  Burst :: int

record rate_limit_state =
  bconfig :: "limit_config option"
  rate :: int
  capacity :: int
  tokens :: int
  last_time :: int

definition nanotokensPerToken :: int where
  "nanotokensPerToken = 1000000000"

definition maxInt64 :: int where
  "maxInt64 = 9223372036854775807"

definition maxLimitRate :: int where
  "maxLimitRate = 1000000"

definition maxLimitBurst :: int where
  "maxLimitBurst = 1000000"

text \<open>\<open>now.Sub(then)\<close>: a duration is an int64 that saturates.\<close>

definition time_sub :: "int \<Rightarrow> int \<Rightarrow> int" where
  "time_sub t u = max (- maxInt64 - 1) (min maxInt64 (t - u))"

definition same_config :: "limit_config option \<Rightarrow> limit_config option \<Rightarrow> bool" where
  "same_config a b \<longleftrightarrow> map_option cfg_ptr a = map_option cfg_ptr b"

section \<open>Operations\<close>

definition newRateLimitStateValue :: "limit_config option \<Rightarrow> int \<Rightarrow> rate_limit_state" where
  "newRateLimitStateValue config now =
     (case config of
        None \<Rightarrow> \<lparr>bconfig = None, rate = 0, capacity = 0, tokens = 0, last_time = 0\<rparr>
      | Some c \<Rightarrow>
          (let cap = i64 (Burst c * nanotokensPerToken)
           in \<lparr>bconfig = config, rate = Rate c, capacity = cap, tokens = cap, last_time = now\<rparr>))"

definition newRateLimitState :: "limit_config option \<Rightarrow> int \<Rightarrow> rate_limit_state option" where
  "newRateLimitState config now =
     (case config of None \<Rightarrow> None | Some c \<Rightarrow> Some (newRateLimitStateValue config now))"

definition saturatingAdd :: "int \<Rightarrow> int \<Rightarrow> int" where
  "saturatingAdd left right =
     (if right > i64 (maxInt64 - left) then maxInt64 else i64 (left + right))"

definition saturatingMultiply :: "int \<Rightarrow> int \<Rightarrow> int" where
  "saturatingMultiply left right =
     (if left \<le> 0 \<or> right \<le> 0 then 0
      else if left > maxInt64 div right then maxInt64
      else i64 (left * right))"

definition refill :: "rate_limit_state \<Rightarrow> int \<Rightarrow> rate_limit_state" where
  "refill previous now =
     (if \<not> now < last_time previous then
        (let elapsed = time_sub now (last_time previous);
             t = saturatingAdd (tokens previous) (saturatingMultiply elapsed (rate previous))
         in previous\<lparr>tokens := (if t > capacity previous then capacity previous else t),
                     last_time := now\<rparr>)
      else previous)"

definition reserveBucket ::
  "rate_limit_state \<Rightarrow> limit_config option \<Rightarrow> int \<Rightarrow> rate_limit_state \<times> bool" where
  "reserveBucket previous config now =
     (if \<not> same_config (bconfig previous) config then
        (let next = newRateLimitStateValue config now
         in (next\<lparr>tokens := i64 (tokens next - nanotokensPerToken)\<rparr>, True))
      else
        (let next = refill previous now;
             allowed = (tokens next \<ge> nanotokensPerToken)
         in (if allowed then next\<lparr>tokens := i64 (tokens next - nanotokensPerToken)\<rparr> else next,
             allowed)))"

section \<open>Validity of a configuration and the bucket invariant\<close>

definition valid_limit :: "limit_config \<Rightarrow> bool" where
  "valid_limit c \<longleftrightarrow> 1 \<le> Rate c \<and> Rate c \<le> maxLimitRate \<and> 1 \<le> Burst c \<and> Burst c \<le> maxLimitBurst"

text \<open>A bucket that belongs to the configuration \<open>c\<close>.\<close>

definition bucket_ok :: "limit_config \<Rightarrow> rate_limit_state \<Rightarrow> bool" where
  "bucket_ok c s \<longleftrightarrow> bconfig s = Some c \<and> rate s = Rate c \<and>
     capacity s = Burst c * nanotokensPerToken \<and> 0 \<le> tokens s \<and> tokens s \<le> capacity s"

lemmas limit_consts = nanotokensPerToken_def maxInt64_def maxLimitRate_def maxLimitBurst_def

lemma capacity_fits:
  assumes "valid_limit c"
  shows "i64 (Burst c * nanotokensPerToken) = Burst c * nanotokensPerToken"
proof (rule i64_id)
  show "in_i64 (Burst c * nanotokensPerToken)"
    using assms by (simp add: in_i64_def valid_limit_def limit_consts)
qed

lemma new_bucket_ok:
  "valid_limit c \<Longrightarrow> bucket_ok c (newRateLimitStateValue (Some c) now)"
  by (simp add: bucket_ok_def newRateLimitStateValue_def capacity_fits Let_def)
     (simp add: valid_limit_def limit_consts)

lemma new_bucket_fields [simp]:
  "valid_limit c \<Longrightarrow> tokens (newRateLimitStateValue (Some c) now) = Burst c * nanotokensPerToken"
  "last_time (newRateLimitStateValue (Some c) now) = now"
  "bconfig (newRateLimitStateValue (Some c) now) = Some c"
  by (simp_all add: newRateLimitStateValue_def capacity_fits Let_def)

section \<open>The unbounded bucket it refines\<close>

text \<open>
  The specification: mathematical integers, no saturation. Its state is the balance and the
  time of the last refill.
\<close>

definition ideal_reserve :: "int \<Rightarrow> int \<Rightarrow> (int \<times> int) \<Rightarrow> int \<Rightarrow> (int \<times> int) \<times> bool" where
  "ideal_reserve cap r s now =
     (let (bal, t) = s;
          bal' = min cap (bal + max 0 (now - t) * r);
          ok = (bal' \<ge> nanotokensPerToken)
      in ((if ok then bal' - nanotokensPerToken else bal', max t now), ok))"

definition bucket_abs :: "rate_limit_state \<Rightarrow> int \<times> int" where
  "bucket_abs s = (tokens s, last_time s)"

lemma int_div_less_iff:
  assumes "0 < (r::int)"
  shows "a div r < e \<longleftrightarrow> a < e * r"
proof
  assume "a div r < e"
  then have "(a div r + 1) * r \<le> e * r"
    using assms by (intro mult_right_mono) auto
  moreover have "a < (a div r + 1) * r"
  proof -
    have "a < r * (a div r) + r"
      using pos_mod_bound [OF assms, of a] mult_div_mod_eq [of r a] by linarith
    then show ?thesis by (simp add: ring_distribs mult.commute)
  qed
  ultimately show "a < e * r" by simp
next
  assume lt: "a < e * r"
  show "a div r < e"
  proof (rule ccontr)
    assume "\<not> a div r < e"
    then have "e * r \<le> (a div r) * r" using assms by (intro mult_right_mono) auto
    also have "\<dots> \<le> a"
      using pos_mod_sign [OF assms, of a] mult_div_mod_eq [of r a]
      unfolding mult.commute [of r] by linarith
    finally show False using lt by simp
  qed
qed

lemma saturating_product:
  assumes "0 \<le> e" "1 \<le> r"
  shows "saturatingMultiply e r = min maxInt64 (e * r)"
proof (cases "e = 0")
  case True
  then show ?thesis by (simp add: saturatingMultiply_def maxInt64_def)
next
  case False
  have nonneg: "0 \<le> e * r" using assms by simp
  have iff: "maxInt64 div r < e \<longleftrightarrow> maxInt64 < e * r"
    using assms by (intro int_div_less_iff) simp
  show ?thesis
  proof (cases "e * r \<le> maxInt64")
    case True
    then have "i64 (e * r) = e * r"
      using nonneg by (intro i64_id) (simp add: in_i64_def maxInt64_def)
    with True iff False assms show ?thesis by (simp add: saturatingMultiply_def)
  next
    case big: False
    with iff False assms show ?thesis by (simp add: saturatingMultiply_def)
  qed
qed

lemma saturating_sum:
  assumes "0 \<le> t" "t \<le> maxInt64" "0 \<le> p" "p \<le> maxInt64"
  shows "saturatingAdd t p = min maxInt64 (t + p)"
proof -
  have "i64 (maxInt64 - t) = maxInt64 - t"
    using assms by (intro i64_id) (simp add: in_i64_def maxInt64_def)
  moreover have "t + p \<le> maxInt64 \<Longrightarrow> i64 (t + p) = t + p"
    using assms by (intro i64_id) (simp add: in_i64_def maxInt64_def)
  ultimately show ?thesis by (auto simp: saturatingAdd_def min_def)
qed

text \<open>
  Saturation never shows: a refill from any valid bucket is the refill over the integers,
  however long the bucket was idle and whichever way the clock moved.
\<close>

lemma refill_exact:
  assumes ok: "bucket_ok c s" and c: "valid_limit c"
  shows "tokens (refill s now) =
           min (capacity s) (tokens s + max 0 (now - last_time s) * rate s)"
    and "last_time (refill s now) = max (last_time s) now"
    and "bucket_ok c (refill s now)"
proof -
  let ?e = "time_sub now (last_time s)"
  have cap: "0 \<le> tokens s" "tokens s \<le> capacity s" "capacity s \<le> maxInt64" "1 \<le> rate s"
    using ok c by (simp_all add: bucket_ok_def valid_limit_def limit_consts)
  show tok: "tokens (refill s now) =
      min (capacity s) (tokens s + max 0 (now - last_time s) * rate s)"
  proof (cases "now < last_time s")
    case True
    then show ?thesis using cap by (simp add: refill_def)
  next
    case False
    then have e: "?e = min maxInt64 (now - last_time s)" "0 \<le> ?e"
      by (simp_all add: time_sub_def maxInt64_def)
    have p: "saturatingMultiply ?e (rate s) = min maxInt64 ((now - last_time s) * rate s)"
    proof (cases "now - last_time s \<le> maxInt64")
      case True
      with e cap show ?thesis by (simp add: saturating_product)
    next
      case big: False
      have long: "x \<le> x * rate s" if "0 \<le> x" for x
        using cap that by (simp add: mult_le_cancel_left1)
      have "maxInt64 \<le> maxInt64 * rate s" by (rule long) (simp add: maxInt64_def)
      moreover have "maxInt64 \<le> (now - last_time s) * rate s"
        using long [of "now - last_time s"] False big by linarith
      ultimately show ?thesis
        using big e cap by (simp add: saturating_product)
    qed
    have nn: "0 \<le> (now - last_time s) * rate s" using False cap by simp
    have "saturatingAdd (tokens s) (saturatingMultiply ?e (rate s)) =
        min maxInt64 (tokens s + min maxInt64 ((now - last_time s) * rate s))"
      unfolding p using cap nn by (intro saturating_sum) (simp_all add: maxInt64_def)
    with False nn cap show ?thesis
      by (simp add: refill_def Let_def) (simp add: min_def max_def)
  qed
  show "last_time (refill s now) = max (last_time s) now"
    by (simp add: refill_def Let_def max_def)
  have "bconfig (refill s now) = bconfig s" "rate (refill s now) = rate s"
      "capacity (refill s now) = capacity s"
    by (simp_all add: refill_def Let_def)
  moreover have "0 \<le> max 0 (now - last_time s) * rate s" using cap by simp
  ultimately show "bucket_ok c (refill s now)"
    using ok cap by (simp add: bucket_ok_def tok)
qed

lemma reserve_same:
  assumes ok: "bucket_ok c s" and c: "valid_limit c"
  shows "reserveBucket s (Some c) now =
           (let next = refill s now; allowed = (tokens next \<ge> nanotokensPerToken)
            in (if allowed then next\<lparr>tokens := tokens next - nanotokensPerToken\<rparr> else next, allowed))"
proof -
  have "bucket_ok c (refill s now)" by (rule refill_exact [OF ok c])
  then have "tokens (refill s now) \<ge> nanotokensPerToken \<Longrightarrow>
      i64 (tokens (refill s now) - nanotokensPerToken) = tokens (refill s now) - nanotokensPerToken"
    using c by (intro i64_id) (simp add: in_i64_def bucket_ok_def valid_limit_def limit_consts)
  with ok show ?thesis
    by (simp add: reserveBucket_def same_config_def bucket_ok_def Let_def)
qed

lemma reserve_keeps_ok:
  assumes "bucket_ok c s" and "valid_limit c"
  shows "bucket_ok c (fst (reserveBucket s (Some c) now))"
  using refill_exact(3) [OF assms, of now] reserve_same [OF assms, of now]
  by (simp add: Let_def bucket_ok_def nanotokensPerToken_def)

lemma new_reserve:
  assumes "valid_limit c" and "\<not> same_config (bconfig s) (Some c)"
  shows "reserveBucket s (Some c) now =
     ((newRateLimitStateValue (Some c) now)
        \<lparr>tokens := Burst c * nanotokensPerToken - nanotokensPerToken\<rparr>, True)"
proof -
  have "i64 (Burst c * nanotokensPerToken - nanotokensPerToken) =
      Burst c * nanotokensPerToken - nanotokensPerToken"
    using assms by (intro i64_id) (simp add: in_i64_def valid_limit_def limit_consts)
  with assms show ?thesis by (simp add: reserveBucket_def Let_def)
qed

section \<open>The contract of an admission control, and its clients\<close>

text \<open>
  What a caller may rely on, whatever the bucket: each step keeps the invariant, moves the clock
  forward only, and pays for a grant out of the credit and the refill.
\<close>

fun run_steps :: "('s \<Rightarrow> int \<Rightarrow> 's \<times> bool) \<Rightarrow> 's \<Rightarrow> int list \<Rightarrow> 's \<times> nat" where
  "run_steps step s [] = (s, 0)"
| "run_steps step s (t # ts) =
     (let (s', ok) = step s t; (s'', n) = run_steps step s' ts
      in (s'', if ok then Suc n else n))"

locale admission_control =
  fixes step :: "'s \<Rightarrow> int \<Rightarrow> 's \<times> bool"
    and inv :: "'s \<Rightarrow> bool"
    and credit :: "'s \<Rightarrow> int"
    and clock :: "'s \<Rightarrow> int"
    and cost :: int
    and speed :: int
  assumes inv_step: "inv s \<Longrightarrow> inv (fst (step s t))"
    and clock_step: "inv s \<Longrightarrow> clock (fst (step s t)) = max (clock s) t"
    and credit_nonneg: "inv s \<Longrightarrow> 0 \<le> credit s"
    and speed_nonneg: "0 \<le> speed"
    and credit_step: "inv s \<Longrightarrow>
      credit (fst (step s t)) + (if snd (step s t) then cost else 0)
        \<le> credit s + max 0 (t - clock s) * speed"
begin

lemma run_inv: "inv s \<Longrightarrow> inv (fst (run_steps step s ts))"
  by (induction ts arbitrary: s) (auto simp: Let_def split_beta dest: inv_step)

lemma run_clock: "inv s \<Longrightarrow> clock (fst (run_steps step s ts)) = fold max ts (clock s)"
  by (induction ts arbitrary: s) (auto simp: Let_def split_beta clock_step inv_step max.commute)

lemma run_clock_mono: "inv s \<Longrightarrow> clock s \<le> clock (fst (run_steps step s ts))"
  by (induction ts arbitrary: s)
     (auto simp: Let_def split_beta dest: inv_step, metis clock_step inv_step max.bounded_iff)

lemma run_credit:
  "inv s \<Longrightarrow> credit (fst (run_steps step s ts)) + int (snd (run_steps step s ts)) * cost
     \<le> credit s + (clock (fst (run_steps step s ts)) - clock s) * speed"
proof (induction ts arbitrary: s)
  case Nil
  then show ?case by simp
next
  case (Cons t ts)
  define s1 where "s1 = fst (step s t)"
  define e where "e = fst (run_steps step s1 ts)"
  define n where "n = snd (run_steps step s1 ts)"
  have inv1: "inv s1" using Cons.prems by (simp add: s1_def inv_step)
  have 1: "credit e + int n * cost \<le> credit s1 + (clock e - clock s1) * speed"
    unfolding e_def n_def by (rule Cons.IH [OF inv1])
  have 2: "credit s1 + (if snd (step s t) then cost else 0) \<le> credit s + max 0 (t - clock s) * speed"
    unfolding s1_def by (rule credit_step [OF Cons.prems])
  have 3: "clock s1 - clock s = max 0 (t - clock s)"
    unfolding s1_def using Cons.prems by (simp add: clock_step)
  have "(clock e - clock s) * speed = (clock e - clock s1) * speed + max 0 (t - clock s) * speed"
    by (simp flip: 3 distrib_right)
  with 1 2 have "credit e + (int n * cost + (if snd (step s t) then cost else 0))
      \<le> credit s + (clock e - clock s) * speed"
    by linarith
  moreover have "fst (run_steps step s (t # ts)) = e"
    "int (snd (run_steps step s (t # ts))) * cost
       = int n * cost + (if snd (step s t) then cost else 0)"
    by (simp_all add: Let_def split_beta e_def n_def s1_def algebra_simps)
  ultimately show ?case by simp
qed

text \<open>The number of grants in any run: the credit at its start and the refill over its length.\<close>

lemma run_bound:
  assumes "inv s"
  shows "int (snd (run_steps step s ts)) * cost
    \<le> credit s + (fold max ts (clock s) - clock s) * speed"
  using run_credit [OF assms, of ts] credit_nonneg [OF run_inv [OF assms, of ts]]
    run_clock [OF assms, of ts] by simp

end

definition bucket_step :: "limit_config \<Rightarrow> rate_limit_state \<Rightarrow> int \<Rightarrow> rate_limit_state \<times> bool" where
  "bucket_step c s now = reserveBucket s (Some c) now"

lemma bucket_step_credit:
  assumes ok: "bucket_ok c s" and c: "valid_limit c"
  shows "tokens (fst (bucket_step c s t)) + (if snd (bucket_step c s t) then nanotokensPerToken else 0)
      \<le> tokens s + max 0 (t - last_time s) * Rate c"
proof -
  have "tokens (refill s t) \<le> tokens s + max 0 (t - last_time s) * Rate c"
    using refill_exact(1) [OF ok c, of t] ok by (simp add: bucket_ok_def)
  then show ?thesis
    using reserve_same [OF ok c, of t] by (simp add: bucket_step_def Let_def)
qed

lemma bucket_step_clock:
  assumes "bucket_ok c s" and "valid_limit c"
  shows "last_time (fst (bucket_step c s t)) = max (last_time s) t"
  using refill_exact(2) [OF assms, of t] reserve_same [OF assms, of t]
  by (simp add: bucket_step_def Let_def)

interpretation bucket: admission_control
  "bucket_step c" "\<lambda>s. valid_limit c \<and> bucket_ok c s" tokens last_time nanotokensPerToken
  "max 0 (Rate c)" for c
proof (unfold_locales, goal_cases)
  case (1 s t)
  then show ?case by (simp add: bucket_step_def reserve_keeps_ok)
next
  case (2 s t)
  then show ?case by (simp add: bucket_step_clock)
next
  case (3 s)
  then show ?case by (simp add: bucket_ok_def)
next
  case 4
  then show ?case by simp
next
  case (5 s t)
  then show ?case using bucket_step_credit [of c s t] by (simp add: valid_limit_def)
qed

section \<open>Properties\<close>

text \<open>C8. \<open>reserveBucket\<close> implements the unbounded token bucket: with a valid configuration, the
  64-bit saturating code grants exactly when the mathematical bucket does, and leaves the same
  balance and refill time, for every current time (backwards clocks and centuries of idling
  included).\<close>

theorem reserveBucket_refines_ideal:
  assumes "bucket_ok c s" and "valid_limit c"
  shows "map_prod bucket_abs id (reserveBucket s (Some c) now) =
    ideal_reserve (Burst c * nanotokensPerToken) (Rate c) (bucket_abs s) now"
  using refill_exact(1,2) [OF assms, of now] reserve_same [OF assms, of now] assms(1)
  by (simp add: Let_def ideal_reserve_def bucket_abs_def bucket_ok_def)

definition demo_limit :: limit_config where
  "demo_limit = \<lparr>cfg_ptr = 1, Rate = 2, Burst = 2\<rparr>"

lemma demo_limit_valid: "valid_limit demo_limit"
  by (simp add: valid_limit_def demo_limit_def limit_consts)

theorem reserveBucket_refines_ideal_witness:
  "map_prod bucket_abs id
     (reserveBucket (newRateLimitStateValue (Some demo_limit) 0) (Some demo_limit) 499000000) =
   ideal_reserve 2000000000 2 (2000000000, 0) 499000000"
  using reserveBucket_refines_ideal
    [OF new_bucket_ok [OF demo_limit_valid] demo_limit_valid, of 0 499000000] demo_limit_valid
  by (simp add: bucket_abs_def) (simp add: demo_limit_def nanotokensPerToken_def)

text \<open>Over any sequence of requests served by a fresh bucket, in any order of clock readings,
  the number admitted is at most the burst plus the rate times the time the sequence spans.\<close>

theorem admitted_at_most_burst_plus_rate:
  assumes "valid_limit c"
  shows "int (snd (run_steps (bucket_step c) (newRateLimitStateValue (Some c) t0) ts))
      * nanotokensPerToken
    \<le> Burst c * nanotokensPerToken + (fold max ts t0 - t0) * Rate c"
  using bucket.run_bound [of c "newRateLimitStateValue (Some c) t0" ts] assms
  by (simp add: new_bucket_ok valid_limit_def max_def split: if_splits)

theorem admitted_at_most_burst_plus_rate_witness:
  "int (snd (run_steps (bucket_step demo_limit) (newRateLimitStateValue (Some demo_limit) 0)
     [0, 0, 0, 999000000])) * nanotokensPerToken
   \<le> 2000000000 + 999000000 * 2"
  using admitted_at_most_burst_plus_rate [OF demo_limit_valid, of 0 "[0, 0, 0, 999000000]"]
  by (simp add: demo_limit_def nanotokensPerToken_def)

text \<open>No starvation: a request that comes when one token's worth of time has passed since the
  last refill is admitted, whatever the balance was.\<close>

theorem idle_bucket_admits:
  assumes "bucket_ok c s" and "valid_limit c"
    and "nanotokensPerToken \<le> (now - last_time s) * Rate c"
  shows "snd (reserveBucket s (Some c) now)"
proof -
  have "0 < (now - last_time s) * Rate c" using assms(3) by (simp add: nanotokensPerToken_def)
  then have "0 < now - last_time s"
    using assms(2) by (auto simp: valid_limit_def zero_less_mult_iff)
  then have "nanotokensPerToken \<le> tokens (refill s now)"
    using refill_exact(1) [OF assms(1,2), of now] assms
    by (simp add: bucket_ok_def valid_limit_def limit_consts)
  then show ?thesis
    using reserve_same [OF assms(1,2), of now] by (simp add: Let_def)
qed

theorem idle_bucket_admits_witness:
  "snd (reserveBucket ((newRateLimitStateValue (Some demo_limit) 0)\<lparr>tokens := 0\<rparr>)
     (Some demo_limit) 500000000)"
proof (rule idle_bucket_admits)
  show "bucket_ok demo_limit ((newRateLimitStateValue (Some demo_limit) 0)\<lparr>tokens := 0\<rparr>)"
    using new_bucket_ok [OF demo_limit_valid, of 0] by (simp add: bucket_ok_def)
qed (simp_all add: demo_limit_valid, simp add: demo_limit_def nanotokensPerToken_def)

end
