(* ===== verification/Admission.thy ===== *)
theory Admission
  imports RateLimit
begin

text \<open>
  \<open>admitGeneration\<close> of \<open>src/rate_limit.go\<close>: the lock-free reservation of a token in the
  bucket of the published \<open>runtimeGeneration\<close> (\<open>src/main.go\<close>). The shared cell is
  \<open>reloadableRouter.current\<close>; a pointer is compared by identity, so every allocated generation
  carries a fresh number. Any number of requests and configuration reloads interleave; each
  step of the relation is one atomic action of the code (load, allocate and compute,
  compare-and-swap, swap). \<open>grants\<close> and \<open>epoch\<close> are ghost fields: the requests admitted and
  the start time since the last reload.
  The routers are a type parameter here; \<open>lim\<close> reads \<open>router.limit\<close>.
\<close>

section \<open>State\<close>

record ('r, 'c) runtimeGeneration =
  gen_ptr :: nat
  gen_router :: "'r option"
  certificate :: "'c option"
  bucket :: rate_limit_state

definition generation_limit ::
  "('r \<Rightarrow> limit_config option) \<Rightarrow> ('r, 'c) runtimeGeneration option \<Rightarrow> limit_config option" where
  "generation_limit lim g =
     (case g of None \<Rightarrow> None
      | Some g' \<Rightarrow> (case gen_router g' of None \<Rightarrow> None | Some r \<Rightarrow> lim r))"

datatype ('r, 'c) call =
    Loaded "('r, 'c) runtimeGeneration option"
  | Computed "('r, 'c) runtimeGeneration" "('r, 'c) runtimeGeneration" bool
  | Returned "('r, 'c) runtimeGeneration option" bool

record ('r, 'c) world =
  cell :: "('r, 'c) runtimeGeneration option"
  fresh :: nat
  calls :: "nat \<Rightarrow> ('r, 'c) call option"
  grants :: nat
  epoch :: int

section \<open>Operations\<close>

text \<open>The body of the loop: the generation that would replace \<open>g\<close>, and the verdict.\<close>

definition admit_next ::
  "limit_config \<Rightarrow> ('r, 'c) runtimeGeneration \<Rightarrow> nat \<Rightarrow> int \<Rightarrow> ('r, 'c) runtimeGeneration \<times> bool" where
  "admit_next c g ptr now =
     (let (b, allowed) = reserveBucket (bucket g) (Some c) now
      in (\<lparr>gen_ptr = ptr, gen_router = gen_router g, certificate = certificate g, bucket = b\<rparr>,
          allowed))"

text \<open>\<open>newReloadableRouter\<close> and \<open>StoreGeneration\<close> publish a router with a full bucket.\<close>

definition publish ::
  "('r \<Rightarrow> limit_config option) \<Rightarrow> nat \<Rightarrow> 'r \<Rightarrow> 'c option \<Rightarrow> int \<Rightarrow> ('r, 'c) runtimeGeneration" where
  "publish lim ptr r cert now =
     \<lparr>gen_ptr = ptr, gen_router = Some r, certificate = cert,
      bucket = newRateLimitStateValue (lim r) now\<rparr>"

definition init_world ::
  "('r \<Rightarrow> limit_config option) \<Rightarrow> 'r \<Rightarrow> 'c option \<Rightarrow> int \<Rightarrow> ('r, 'c) world" where
  "init_world lim r cert now =
     \<lparr>cell = Some (publish lim 0 r cert now), fresh = 1, calls = (\<lambda>_. None), grants = 0,
      epoch = now\<rparr>"

definition set_call :: "('r, 'c) world \<Rightarrow> nat \<Rightarrow> ('r, 'c) call \<Rightarrow> ('r, 'c) world" where
  "set_call w i k = w\<lparr>calls := (calls w)(i \<mapsto> k)\<rparr>"

inductive admit_step ::
  "('r \<Rightarrow> limit_config option) \<Rightarrow> ('r, 'c) world \<Rightarrow> ('r, 'c) world \<Rightarrow> bool" for lim where
  enter: "calls w i = None \<Longrightarrow> admit_step lim w (set_call w i (Loaded (cell w)))"
| reload_nil: "calls w i = Some (Loaded None) \<Longrightarrow> cell w \<noteq> None \<Longrightarrow>
    admit_step lim w (set_call w i (Loaded (cell w)))"
| unlimited: "calls w i = Some (Loaded g) \<Longrightarrow> (g = None \<longrightarrow> cell w = None) \<Longrightarrow>
    generation_limit lim g = None \<Longrightarrow> admit_step lim w (set_call w i (Returned g True))"
| compute: "calls w i = Some (Loaded (Some g)) \<Longrightarrow> generation_limit lim (Some g) = Some c \<Longrightarrow>
    admit_next c g (fresh w) now = (nxt, ok) \<Longrightarrow>
    admit_step lim w (set_call (w\<lparr>fresh := Suc (fresh w)\<rparr>) i (Computed g nxt ok))"
| swap: "calls w i = Some (Computed g nxt ok) \<Longrightarrow> cell w = Some cur \<Longrightarrow> gen_ptr cur = gen_ptr g \<Longrightarrow>
    admit_step lim w (set_call (w\<lparr>cell := Some nxt,
      grants := (if ok then Suc (grants w) else grants w)\<rparr>) i (Returned (Some nxt) ok))"
| retry: "calls w i = Some (Computed g nxt ok) \<Longrightarrow> map_option gen_ptr (cell w) \<noteq> Some (gen_ptr g) \<Longrightarrow>
    admit_step lim w (set_call w i (Loaded (cell w)))"
| store: "admit_step lim w
    (w\<lparr>cell := Some (publish lim (fresh w) r cert now), fresh := Suc (fresh w), grants := 0,
       epoch := now\<rparr>)"

inductive admit_reachable ::
  "('r \<Rightarrow> limit_config option) \<Rightarrow> ('r, 'c) world \<Rightarrow> bool" for lim where
  start: "admit_reachable lim (init_world lim r cert now)"
| step: "admit_reachable lim w \<Longrightarrow> admit_step lim w w' \<Longrightarrow> admit_reachable lim w'"

section \<open>Pointer identity\<close>

fun snapshot_of :: "('r, 'c) call option \<Rightarrow> ('r, 'c) runtimeGeneration option" where
  "snapshot_of (Some (Loaded g)) = g"
| "snapshot_of (Some (Computed g n ok)) = Some g"
| "snapshot_of _ = None"

fun pending_of :: "('r, 'c) call option \<Rightarrow> ('r, 'c) runtimeGeneration option" where
  "pending_of (Some (Computed g n ok)) = Some n"
| "pending_of _ = None"

text \<open>
  A pointer equal to the published one belongs to the published generation: a successful
  compare-and-swap really saw the current value.
\<close>

definition ptr_inv :: "('r, 'c) world \<Rightarrow> bool" where
  "ptr_inv w \<longleftrightarrow>
     (\<forall>h. cell w = Some h \<longrightarrow> gen_ptr h < fresh w) \<and>
     (\<forall>i g. snapshot_of (calls w i) = Some g \<longrightarrow> gen_ptr g < fresh w) \<and>
     (\<forall>i g h. snapshot_of (calls w i) = Some g \<longrightarrow> cell w = Some h \<longrightarrow>
        gen_ptr h = gen_ptr g \<longrightarrow> h = g) \<and>
     (\<forall>i n. pending_of (calls w i) = Some n \<longrightarrow> gen_ptr n < fresh w) \<and>
     (\<forall>i n h. pending_of (calls w i) = Some n \<longrightarrow> cell w = Some h \<longrightarrow> gen_ptr h \<noteq> gen_ptr n) \<and>
     (\<forall>i n j g. pending_of (calls w i) = Some n \<longrightarrow> snapshot_of (calls w j) = Some g \<longrightarrow>
        gen_ptr g \<noteq> gen_ptr n) \<and>
     (\<forall>i n j m. pending_of (calls w i) = Some n \<longrightarrow> pending_of (calls w j) = Some m \<longrightarrow>
        gen_ptr m = gen_ptr n \<longrightarrow> i = j)"

lemma ptr_inv_pend_snap:
  "ptr_inv w \<Longrightarrow> pending_of (calls w i) = Some n \<Longrightarrow> snapshot_of (calls w j) = Some g \<Longrightarrow>
     gen_ptr g \<noteq> gen_ptr n"
  unfolding ptr_inv_def by blast

lemma set_call_simps [simp]:
  "cell (set_call w i k) = cell w" "fresh (set_call w i k) = fresh w"
  "grants (set_call w i k) = grants w" "epoch (set_call w i k) = epoch w"
  "calls (set_call w i k) = (calls w)(i \<mapsto> k)"
  by (simp_all add: set_call_def)

lemma admit_next_ptr: "admit_next c g p now = (n, ok) \<Longrightarrow> gen_ptr n = p"
  by (auto simp: admit_next_def split: prod.splits)

lemma publish_ptr [simp]: "gen_ptr (publish lim p r cert now) = p"
  by (simp add: publish_def)

lemma ptr_inv_init: "ptr_inv (init_world lim r cert now)"
  by (simp add: ptr_inv_def init_world_def)

lemma ptr_inv_load: "ptr_inv w \<Longrightarrow> ptr_inv (set_call w i (Loaded (cell w)))"
  unfolding ptr_inv_def by (auto split: if_splits)

lemma ptr_inv_step: "admit_step lim w w' \<Longrightarrow> ptr_inv w \<Longrightarrow> ptr_inv w'"
proof (induction rule: admit_step.induct)
  case (enter w i)
  then show ?case by (simp add: ptr_inv_load)
next
  case (reload_nil w i)
  then show ?case by (simp add: ptr_inv_load)
next
  case (unlimited w i g)
  then show ?case by (fastforce simp: ptr_inv_def)
next
  case (compute w i g c now nxt ok)
  then have "gen_ptr nxt = fresh w" by (simp add: admit_next_ptr)
  moreover from compute have "snapshot_of (calls w i) = Some g" by simp
  ultimately show ?case using compute.prems
    unfolding ptr_inv_def
    by (auto split: if_splits dest: less_imp_neq intro: less_SucI; metis less_irrefl)
next
  case (swap w i g nxt ok cur)
  then have "snapshot_of (calls w i) = Some g" "pending_of (calls w i) = Some nxt" by simp_all
  note at = this
  have differ: "gen_ptr h \<noteq> gen_ptr nxt" if "snapshot_of (calls w j) = Some h" for j h
    using swap.prems at(2) that by (rule ptr_inv_pend_snap)
  let ?w = "set_call (w\<lparr>cell := Some nxt, grants := (if ok then Suc (grants w) else grants w)\<rparr>)
    i (Returned (Some nxt) ok)"
  have snap: "j \<noteq> i \<and> snapshot_of (calls w j) = Some h" if "snapshot_of (calls ?w j) = Some h" for j h
    using that by (simp split: if_splits)
  have pend: "j \<noteq> i \<and> pending_of (calls w j) = Some h" if "pending_of (calls ?w j) = Some h" for j h
    using that by (simp split: if_splits)
  show ?case
    unfolding ptr_inv_def
  proof (intro conjI allI impI, goal_cases)
    case (1 h)
    with at(2) swap.prems show ?case by (auto simp: ptr_inv_def)
  next
    case (2 j g')
    from snap [OF 2] swap.prems show ?case by (auto simp: ptr_inv_def)
  next
    case (4 j n)
    from pend [OF 4] swap.prems show ?case by (auto simp: ptr_inv_def)
  next
    case (7 j n k m)
    from pend [OF 7(1)] pend [OF 7(2)] 7(3) swap.prems show ?case unfolding ptr_inv_def by blast
  next
    case (3 j g' h)
    from snap [OF 3(1)] have "snapshot_of (calls w j) = Some g'" ..
    from differ [OF this] 3(2,3) show ?case by simp
  next
    case (5 j n h)
    from pend [OF 5(1)] have "j \<noteq> i" "pending_of (calls w j) = Some n" by auto
    with 5(2) swap.prems at(2) show ?case by (auto simp: ptr_inv_def)
  next
    case (6 j n k g')
    with pend [of j n] snap [of k g'] ptr_inv_pend_snap [OF swap.prems] show ?case by blast
  qed
next
  case (retry w i g nxt ok)
  then show ?case by (simp add: ptr_inv_load)
next
  case (store w now r cert)
  then show ?case
    unfolding ptr_inv_def by (auto dest: less_imp_neq intro: less_SucI; metis less_irrefl)
qed

lemma ptr_inv_reachable: "admit_reachable lim w \<Longrightarrow> ptr_inv w"
  by (induction rule: admit_reachable.induct) (auto intro: ptr_inv_init ptr_inv_step)

section \<open>What a pending reservation was computed from\<close>

definition pending_inv :: "('r \<Rightarrow> limit_config option) \<Rightarrow> ('r, 'c) world \<Rightarrow> bool" where
  "pending_inv lim w \<longleftrightarrow>
     (\<forall>i g n ok. calls w i = Some (Computed g n ok) \<longrightarrow>
        (\<exists>c p now. generation_limit lim (Some g) = Some c \<and> admit_next c g p now = (n, ok)))"

lemma pending_inv_step: "admit_step lim w w' \<Longrightarrow> pending_inv lim w \<Longrightarrow> pending_inv lim w'"
proof (induction rule: admit_step.induct)
  case (compute w i g c now nxt ok)
  then show ?case by (auto simp: pending_inv_def)
qed (simp_all add: pending_inv_def)

lemma pending_inv_reachable: "admit_reachable lim w \<Longrightarrow> pending_inv lim w"
proof (induction rule: admit_reachable.induct)
  case (start r cert now)
  then show ?case by (simp add: pending_inv_def init_world_def)
qed (rule pending_inv_step)

lemma admit_next_fields:
  assumes "admit_next c g p now = (n, ok)"
  shows "gen_router n = gen_router g" "certificate n = certificate g"
    "(bucket n, ok) = reserveBucket (bucket g) (Some c) now"
  using assms by (auto simp: admit_next_def split: prod.splits)

lemma admit_next_limit:
  "admit_next c g p now = (n, ok) \<Longrightarrow> generation_limit lim (Some n) = generation_limit lim (Some g)"
  by (simp add: generation_limit_def admit_next_fields)

section \<open>The accounts of the published bucket\<close>

definition account_ok :: "('r, 'c) world \<Rightarrow> limit_config \<Rightarrow> rate_limit_state \<Rightarrow> bool" where
  "account_ok w c b \<longleftrightarrow> bucket_ok c b \<and> epoch w \<le> last_time b \<and>
     int (grants w) * nanotokensPerToken + tokens b
       \<le> Burst c * nanotokensPerToken + (last_time b - epoch w) * Rate c"

definition account_inv :: "('r \<Rightarrow> limit_config option) \<Rightarrow> ('r, 'c) world \<Rightarrow> bool" where
  "account_inv lim w \<longleftrightarrow>
     (\<forall>g c. cell w = Some g \<longrightarrow> generation_limit lim (Some g) = Some c \<longrightarrow> account_ok w c (bucket g))"

lemma account_publish:
  assumes "valid_limit c" and "generation_limit lim (Some (publish lim p r cert now)) = Some c"
    and "grants w = 0" and "epoch w = now"
  shows "account_ok w c (bucket (publish lim p r cert now))"
  using assms new_bucket_ok [OF assms(1), of now]
  by (simp add: account_ok_def publish_def generation_limit_def)

lemma account_swap:
  assumes c: "valid_limit c" and acc: "account_ok w c (bucket g)"
    and res: "(bucket n, ok) = reserveBucket (bucket g) (Some c) now"
  shows "account_ok (w\<lparr>cell := x, grants := (if ok then Suc (grants w) else grants w)\<rparr>) c (bucket n)"
proof -
  have ok: "bucket_ok c (bucket g)" using acc by (simp add: account_ok_def)
  have n: "bucket n = fst (bucket_step c (bucket g) now)" "ok = snd (bucket_step c (bucket g) now)"
    using res by (simp_all add: bucket_step_def prod_eq_iff)
  have ok': "bucket_ok c (bucket n)"
    using reserve_keeps_ok [OF ok c, of now] n by (simp add: bucket_step_def)
  have last: "last_time (bucket n) = max (last_time (bucket g)) now"
    using bucket_step_clock [OF ok c, of now] n by simp
  have cr: "tokens (bucket n) + (if ok then nanotokensPerToken else 0)
      \<le> tokens (bucket g) + max 0 (now - last_time (bucket g)) * Rate c"
    using bucket_step_credit [OF ok c, of now] n by simp
  have "max 0 (now - last_time (bucket g)) = last_time (bucket n) - last_time (bucket g)"
    unfolding last by simp
  then have "(last_time (bucket n) - epoch w) * Rate c =
      (last_time (bucket g) - epoch w) * Rate c + max 0 (now - last_time (bucket g)) * Rate c"
    by (simp flip: distrib_right)
  with acc cr ok' last show ?thesis
    by (auto simp: account_ok_def algebra_simps)
qed

lemma account_inv_step:
  assumes "admit_step lim w w'" and valid: "\<forall>r c. lim r = Some c \<longrightarrow> valid_limit c"
    and "ptr_inv w" and "pending_inv lim w" and "account_inv lim w"
  shows "account_inv lim w'"
  using assms(1,3-)
proof (induction rule: admit_step.induct)
  case (swap w i g nxt ok cur)
  from swap have "snapshot_of (calls w i) = Some g" by simp
  with swap have cur: "cur = g" unfolding ptr_inv_def by blast
  from swap obtain c p now where
    c: "generation_limit lim (Some g) = Some c" and nxt: "admit_next c g p now = (nxt, ok)"
    unfolding pending_inv_def by blast
  have "valid_limit c"
    using c valid by (auto simp: generation_limit_def split: option.splits)
  then have "account_ok (w\<lparr>cell := Some nxt, grants := (if ok then Suc (grants w) else grants w)\<rparr>)
      c (bucket nxt)"
    using swap cur c admit_next_fields [OF nxt] by (intro account_swap) (auto simp: account_inv_def)
  then show ?case
    using c admit_next_limit [OF nxt, of lim] by (simp add: account_inv_def account_ok_def)
next
  case (store w now r cert)
  show ?case
    unfolding account_inv_def
  proof (intro allI impI)
    fix g c
    assume g: "cell (w\<lparr>cell := Some (publish lim (fresh w) r cert now), fresh := Suc (fresh w),
        grants := 0, epoch := now\<rparr>) = Some g" and "generation_limit lim (Some g) = Some c"
    moreover from this have "valid_limit c"
      using valid by (auto simp: generation_limit_def split: option.splits)
    ultimately show "account_ok (w\<lparr>cell := Some (publish lim (fresh w) r cert now),
        fresh := Suc (fresh w), grants := 0, epoch := now\<rparr>) c (bucket g)"
      by (auto intro: account_publish)
  qed
qed (simp_all add: account_inv_def account_ok_def)

lemma account_inv_reachable:
  assumes "admit_reachable lim w" and valid: "\<forall>r c. lim r = Some c \<longrightarrow> valid_limit c"
  shows "account_inv lim w"
  using assms(1)
proof (induction rule: admit_reachable.induct)
  case (start r cert now)
  show ?case
    unfolding account_inv_def
  proof (intro allI impI)
    fix g c
    assume "cell (init_world lim r cert now) = Some g" "generation_limit lim (Some g) = Some c"
    moreover from this have "valid_limit c"
      using valid by (auto simp: generation_limit_def split: option.splits)
    ultimately show "account_ok (init_world lim r cert now) c (bucket g)"
      by (auto simp: init_world_def intro: account_publish)
  qed
next
  case (step w w')
  then show ?case
    using account_inv_step [OF step.hyps(2) valid] ptr_inv_reachable pending_inv_reachable by blast
qed

section \<open>Properties\<close>

text \<open>C2. However requests, reloads and clock readings interleave, the requests admitted since the
  last reload never exceed the burst plus the rate times the time since that reload.\<close>

theorem concurrent_admission_bound:
  assumes "admit_reachable lim w"
    and "\<forall>r c. lim r = Some c \<longrightarrow> valid_limit c"
    and "cell w = Some g" and "generation_limit lim (Some g) = Some c"
  shows "int (grants w) * nanotokensPerToken
    \<le> Burst c * nanotokensPerToken + (last_time (bucket g) - epoch w) * Rate c"
  using account_inv_reachable [OF assms(1,2)] assms(3,4)
  by (force simp: account_inv_def account_ok_def bucket_ok_def)

text \<open>A compare-and-swap that succeeds is an atomic reservation on the published bucket: the
  generation it replaces is the very one it computed from (no lost update, no ABA), the router and
  the certificate are carried over, and the new bucket is the reservation's.\<close>

theorem swap_is_atomic_reserve:
  assumes "admit_reachable lim w"
    and "calls w i = Some (Computed g nxt ok)"
    and "cell w = Some cur" and "gen_ptr cur = gen_ptr g"
  shows "cur = g \<and> gen_router nxt = gen_router cur \<and> certificate nxt = certificate cur \<and>
    (\<exists>c now. generation_limit lim (Some cur) = Some c \<and>
       (bucket nxt, ok) = reserveBucket (bucket cur) (Some c) now)"
proof -
  have "snapshot_of (calls w i) = Some g" using assms(2) by simp
  then have "cur = g"
    using ptr_inv_reachable [OF assms(1)] assms(3,4) unfolding ptr_inv_def by blast
  moreover obtain c p now where
    "generation_limit lim (Some g) = Some c" "admit_next c g p now = (nxt, ok)"
    using pending_inv_reachable [OF assms(1)] assms(2) unfolding pending_inv_def by blast
  ultimately show ?thesis using admit_next_fields [of c g p now nxt ok] by blast
qed

text \<open>A step of request \<open>i\<close> itself: the only steps that change where the request stands.\<close>

definition own_step :: "('r \<Rightarrow> limit_config option) \<Rightarrow> nat \<Rightarrow> ('r, 'c) world \<Rightarrow> ('r, 'c) world \<Rightarrow> bool" where
  "own_step lim i w w' \<longleftrightarrow> admit_step lim w w' \<and> calls w' i \<noteq> calls w i"

text \<open>What is left of the loop of \<open>i\<close> when nobody else moves: a request that holds the published
  generation computes and swaps, one that holds another loads once more.\<close>

definition steps_left :: "('r, 'c) world \<Rightarrow> nat \<Rightarrow> nat" where
  "steps_left w i =
     (case calls w i of
        None \<Rightarrow> 3
      | Some (Loaded g) \<Rightarrow> (if map_option gen_ptr (cell w) = map_option gen_ptr g then 2 else 4)
      | Some (Computed g nxt ok) \<Rightarrow> (if map_option gen_ptr (cell w) = Some (gen_ptr g) then 1 else 3)
      | Some (Returned g ok) \<Rightarrow> 0)"

lemma own_step_decreases: "own_step lim i w w' \<Longrightarrow> steps_left w' i < steps_left w i"
  unfolding own_step_def
  by (elim conjE, erule admit_step.cases) (auto simp: steps_left_def split: if_splits)

lemma own_step_frame: "own_step lim i w w' \<Longrightarrow> j \<noteq> i \<Longrightarrow> calls w' j = calls w j"
  unfolding own_step_def by (elim conjE, erule admit_step.cases) (auto split: if_splits)

lemma own_steps_bound:
  "(own_step lim i ^^ n) w w' \<Longrightarrow> n + steps_left w' i \<le> steps_left w i \<and> (\<forall>j. j \<noteq> i \<longrightarrow> calls w' j = calls w j)"
proof (induction n arbitrary: w')
  case (Suc n)
  then obtain v where v: "(own_step lim i ^^ n) w v" "own_step lim i v w'" by auto
  from own_step_decreases [OF v(2)] own_step_frame [OF v(2)] Suc.IH [OF v(1)] show ?case by auto
qed simp

lemma own_step_exists:
  assumes "\<And>g ok. calls w i \<noteq> Some (Returned g ok)"
  shows "\<exists>w'. own_step lim i w w'"
proof (cases "calls w i")
  case None
  then show ?thesis using enter [OF None, of lim] unfolding own_step_def by (intro exI conjI) auto
next
  case (Some k)
  show ?thesis
  proof (cases k)
    case (Loaded g)
    with Some have at: "calls w i = Some (Loaded g)" by simp
    consider "g = None" "cell w \<noteq> None" | "g = None \<longrightarrow> cell w = None" "generation_limit lim g = None"
      | h c where "g = Some h" "generation_limit lim (Some h) = Some c"
      by (cases "generation_limit lim g"; cases g) (auto simp: generation_limit_def)
    then show ?thesis
    proof cases
      case 1
      with reload_nil [of w i lim] at show ?thesis unfolding own_step_def by (intro exI conjI) auto
    next
      case 2
      with unlimited [OF at 2] at show ?thesis unfolding own_step_def by (intro exI conjI) auto
    next
      case 3
      obtain nxt ok where "admit_next c h (fresh w) 0 = (nxt, ok)" by fastforce
      with compute [of w i h lim c 0 nxt ok] 3 at show ?thesis unfolding own_step_def by (intro exI conjI) auto
    qed
  next
    case (Computed g nxt ok)
    with Some have at: "calls w i = Some (Computed g nxt ok)" by simp
    show ?thesis
    proof (cases "map_option gen_ptr (cell w) = Some (gen_ptr g)")
      case True
      then obtain cur where "cell w = Some cur" "gen_ptr cur = gen_ptr g" by auto
      with swap [OF at, of cur lim] at show ?thesis unfolding own_step_def by (intro exI conjI) auto
    next
      case False
      with retry [OF at False, of lim] at show ?thesis unfolding own_step_def by (intro exI conjI) auto
    qed
  next
    case (Returned g ok)
    with Some assms show ?thesis by blast
  qed
qed

text \<open>C24. A request that runs without interference returns, wherever its loop stands and whatever
  the clock reads: every run in which only that request moves has at most four steps, disturbs no
  other request, and as long as the request has not returned it can go on. So a failed
  compare-and-swap is always due to somebody else.\<close>

theorem undisturbed_request_returns:
  assumes "(own_step lim i ^^ n) w w'"
  shows "n \<le> 4 \<and> (\<forall>j. j \<noteq> i \<longrightarrow> calls w' j = calls w j) \<and>
    ((\<exists>g ok. calls w' i = Some (Returned g ok)) \<or> (\<exists>w''. own_step lim i w' w''))"
proof -
  have "steps_left w i \<le> 4" by (simp add: steps_left_def split: option.split call.split)
  with own_steps_bound [OF assms] own_step_exists [of w' i lim] show ?thesis by fastforce
qed

text \<open>A concrete run: one request admitted by a fresh bucket of two tokens.\<close>

definition demo_lim :: "unit \<Rightarrow> limit_config option" where
  "demo_lim r = Some demo_limit"

definition demo_world :: "(unit, unit) world" where
  "demo_world = init_world demo_lim () None 0"

definition demo_gen :: "(unit, unit) runtimeGeneration" where
  "demo_gen = publish demo_lim 0 () None 0"

definition demo_next :: "(unit, unit) runtimeGeneration \<times> bool" where
  "demo_next = admit_next demo_limit demo_gen 1 0"

definition demo_loaded :: "(unit, unit) world" where
  "demo_loaded = set_call demo_world 7 (Loaded (Some demo_gen))"

definition demo_computed :: "(unit, unit) world" where
  "demo_computed =
     set_call (demo_loaded\<lparr>fresh := 2\<rparr>) 7 (Computed demo_gen (fst demo_next) (snd demo_next))"

lemma demo_cells [simp]:
  "cell demo_world = Some demo_gen" "cell demo_loaded = Some demo_gen"
  "cell demo_computed = Some demo_gen" "fresh demo_loaded = 1"
  "calls demo_loaded 7 = Some (Loaded (Some demo_gen))"
  "calls demo_computed 7 = Some (Computed demo_gen (fst demo_next) (snd demo_next))"
  "generation_limit demo_lim (Some demo_gen) = Some demo_limit"
  by (simp_all add: demo_world_def demo_loaded_def demo_computed_def demo_gen_def init_world_def
      generation_limit_def publish_def demo_lim_def)

lemma demo_reachable: "admit_reachable demo_lim demo_loaded" "admit_reachable demo_lim demo_computed"
proof -
  have "admit_reachable demo_lim demo_world"
    unfolding demo_world_def by (rule admit_reachable.start)
  moreover have "admit_step demo_lim demo_world demo_loaded"
    using enter [of demo_world 7 demo_lim] by (simp add: demo_loaded_def demo_world_def init_world_def
        demo_gen_def)
  ultimately show 1: "admit_reachable demo_lim demo_loaded" by (rule admit_reachable.step)
  have "admit_step demo_lim demo_loaded
      (set_call (demo_loaded\<lparr>fresh := Suc (fresh demo_loaded)\<rparr>) 7
        (Computed demo_gen (fst demo_next) (snd demo_next)))"
    by (rule compute) (simp_all add: demo_next_def prod_eq_iff)
  then have "admit_step demo_lim demo_loaded demo_computed"
    by (simp add: demo_computed_def numeral_2_eq_2)
  with 1 show "admit_reachable demo_lim demo_computed" by (rule admit_reachable.step)
qed

theorem concurrent_admission_bound_witness:
  "int (grants demo_computed) * nanotokensPerToken
    \<le> Burst demo_limit * nanotokensPerToken
      + (last_time (bucket demo_gen) - epoch demo_computed) * Rate demo_limit"
  by (rule concurrent_admission_bound [OF demo_reachable(2), of demo_gen demo_limit])
     (simp_all add: demo_lim_def demo_limit_valid)

theorem swap_is_atomic_reserve_witness:
  "\<exists>c now. generation_limit demo_lim (Some demo_gen) = Some c \<and>
     (bucket (fst demo_next), snd demo_next) = reserveBucket (bucket demo_gen) (Some c) now"
  using swap_is_atomic_reserve [OF demo_reachable(2), of 7 demo_gen "fst demo_next" "snd demo_next"
      demo_gen] by simp

definition demo_returned :: "(unit, unit) world" where
  "demo_returned = set_call (demo_computed\<lparr>cell := Some (fst demo_next),
     grants := (if snd demo_next then Suc (grants demo_computed) else grants demo_computed)\<rparr>) 7
     (Returned (Some (fst demo_next)) (snd demo_next))"

text \<open>Of the four steps this run needs two.\<close>

theorem undisturbed_request_returns_witness:
  "(own_step demo_lim 7 ^^ 2) demo_loaded demo_returned \<and>
   calls demo_returned 8 = calls demo_loaded 8 \<and>
   \<not> (\<exists>w. own_step demo_lim 7 demo_returned w) \<and>
   (\<exists>g ok. calls demo_returned 7 = Some (Returned g ok))"
proof -
  have 1: "own_step demo_lim 7 demo_loaded demo_computed"
    using compute [of demo_loaded 7 demo_gen demo_lim demo_limit 0 "fst demo_next" "snd demo_next"]
    by (simp add: own_step_def demo_computed_def demo_next_def numeral_2_eq_2)
  have 2: "own_step demo_lim 7 demo_computed demo_returned"
    using swap [of demo_computed 7 demo_gen "fst demo_next" "snd demo_next" demo_gen demo_lim]
    by (simp add: own_step_def demo_returned_def)
  have stuck: "\<not> own_step demo_lim 7 demo_returned w" for w
    using own_step_decreases [of demo_lim 7 demo_returned w]
    by (auto simp: steps_left_def demo_returned_def)
  from 1 2 have run: "(own_step demo_lim 7 ^^ 2) demo_loaded demo_returned"
    unfolding numeral_2_eq_2 by auto
  have "calls demo_returned 8 = calls demo_loaded 8"
    using undisturbed_request_returns [OF run] by simp
  moreover have "\<exists>g ok. calls demo_returned 7 = Some (Returned g ok)"
    using undisturbed_request_returns [OF run] stuck by metis
  ultimately show ?thesis using run stuck by metis
qed

end
