(* ===== verification/Limiter.thy ===== *)
theory Limiter
  imports Admission
begin

text \<open>
  \<open>rateLimiter\<close> of \<open>src/rate_limit.go\<close>: a limiter of its own state, as a router has it that
  is not published in a \<open>reloadableRouter\<close>. Once \<open>bindCurrent\<close> has tied it to the published
  generation, every admission is the loop of \<open>Admission\<close>.
  The first part is the limiter as one goroutine sees it. The second part is the
  compare-and-swap loop of \<open>reserve\<close>, with any number of callers: the cell holds the address
  of an immutable \<open>rateLimitState\<close>, each step is one atomic action of one caller.
  \<open>history\<close> is a ghost field, the successful exchanges in their order.
\<close>

section \<open>The limiter\<close>

record 'p rateLimiter =
  limiter_state :: "rate_limit_state option"
  fallback :: "limit_config option"
  bound_to :: "'p option"

definition newRateLimiter :: "limit_config option \<Rightarrow> 'p rateLimiter" where
  "newRateLimiter config = \<lparr>limiter_state = None, fallback = config, bound_to = None\<rparr>"

definition newRateLimiterAt :: "limit_config option \<Rightarrow> int \<Rightarrow> 'p rateLimiter" where
  "newRateLimiterAt config now =
     \<lparr>limiter_state = newRateLimitState config now, fallback = config, bound_to = None\<rparr>"

definition bindCurrent :: "'p \<Rightarrow> 'p rateLimiter \<Rightarrow> 'p rateLimiter" where
  "bindCurrent p l = l\<lparr>bound_to := Some p\<rparr>"

text \<open>\<open>var previousValue rateLimitState; if previous != nil { previousValue = *previous }\<close>\<close>

definition previousValue :: "rate_limit_state option \<Rightarrow> rate_limit_state" where
  "previousValue previous =
     (case previous of None \<Rightarrow> newRateLimitStateValue None 0 | Some s \<Rightarrow> s)"

text \<open>An undisturbed call: the first exchange succeeds.\<close>

definition reserve :: "'p rateLimiter \<Rightarrow> limit_config \<Rightarrow> int \<Rightarrow> 'p rateLimiter \<times> bool" where
  "reserve l config now =
     (let (nxt, allowed) = reserveBucket (previousValue (limiter_state l)) (Some config) now
      in (l\<lparr>limiter_state := Some nxt\<rparr>, allowed))"

text \<open>\<open>loop\<close> is the verdict of \<open>admitGeneration\<close> on the bound cell, which is the loop of
  \<open>Admission\<close>.\<close>

definition admit :: "('p \<Rightarrow> bool) \<Rightarrow> 'p rateLimiter \<Rightarrow> int \<Rightarrow> 'p rateLimiter \<times> bool" where
  "admit loop l now =
     (case bound_to l of
        None \<Rightarrow> (case fallback l of None \<Rightarrow> (l, True) | Some c \<Rightarrow> reserve l c now)
      | Some p \<Rightarrow> (l, loop p))"

definition allow :: "('p \<Rightarrow> bool) \<Rightarrow> 'p rateLimiter \<Rightarrow> int \<Rightarrow> 'p rateLimiter \<times> bool" where
  "allow loop l now = admit loop l now"

definition allowAt :: "('p \<Rightarrow> bool) \<Rightarrow> 'p rateLimiter \<Rightarrow> int \<Rightarrow> 'p rateLimiter \<times> bool" where
  "allowAt loop l now =
     (case bound_to l of
        Some p \<Rightarrow> (l, loop p)
      | None \<Rightarrow> (case fallback l of None \<Rightarrow> (l, True) | Some config \<Rightarrow> reserve l config now))"

text \<open>\<open>admitGeneration\<close> of an unbound limiter: the configuration is the one of the generation
  it is given, which it returns as it is.\<close>

definition admitGeneration_unbound ::
  "('r \<Rightarrow> limit_config option) \<Rightarrow> 'p rateLimiter \<Rightarrow> ('r, 'c) runtimeGeneration option \<Rightarrow> int \<Rightarrow>
   'p rateLimiter \<times> ('r, 'c) runtimeGeneration option \<times> bool" where
  "admitGeneration_unbound lim l g now =
     (case generation_limit lim g of
        None \<Rightarrow> (l, g, True)
      | Some c \<Rightarrow> (case reserve l c now of (l', ok) \<Rightarrow> (l', g, ok)))"

fun reserve_all :: "'p rateLimiter \<Rightarrow> (limit_config \<times> int) list \<Rightarrow> 'p rateLimiter \<times> bool list" where
  "reserve_all l [] = (l, [])"
| "reserve_all l ((c, now) # cs) =
     (case reserve l c now of (l', ok) \<Rightarrow>
        (case reserve_all l' cs of (l'', oks) \<Rightarrow> (l'', ok # oks)))"

lemma reserve_all_append:
  "reserve_all l (as @ bs) =
     (case reserve_all l as of (l', oks) \<Rightarrow>
        (case reserve_all l' bs of (l'', oks') \<Rightarrow> (l'', oks @ oks')))"
  by (induction l as rule: reserve_all.induct) (simp_all split: prod.splits)

lemma reserve_frame:
  "fst (reserve l c now) = l\<lparr>limiter_state := limiter_state (fst (reserve l c now))\<rparr>"
  by (simp add: reserve_def split: prod.splits)

section \<open>The loop of reserve\<close>

datatype reserve_call =
    Reading limit_config int
  | Trying limit_config int "nat option" nat bool
  | Answered limit_config int bool

record limiter_world =
  heap :: "nat \<Rightarrow> rate_limit_state option"
  state_cell :: "nat option"
  next_addr :: nat
  reserves :: "nat \<Rightarrow> reserve_call option"
  history :: "(nat \<times> limit_config \<times> int \<times> bool) list"

definition limiter_start :: "'p rateLimiter \<Rightarrow> limiter_world" where
  "limiter_start l =
     \<lparr>heap = (case limiter_state l of None \<Rightarrow> (\<lambda>_. None) | Some s \<Rightarrow> [0 \<mapsto> s]),
      state_cell = map_option (\<lambda>_. 0) (limiter_state l), next_addr = 1,
      reserves = (\<lambda>_. None), history = []\<rparr>"

definition stored :: "limiter_world \<Rightarrow> nat option \<Rightarrow> rate_limit_state option" where
  "stored w p = Option.bind p (heap w)"

inductive reserve_step :: "limiter_world \<Rightarrow> limiter_world \<Rightarrow> bool" where
  call: "reserves w i = None \<Longrightarrow>
    reserve_step w (w\<lparr>reserves := (reserves w)(i \<mapsto> Reading c now)\<rparr>)"
| attempt: "reserves w i = Some (Reading c now) \<Longrightarrow> seen = state_cell w \<Longrightarrow>
    reserveBucket (previousValue (stored w seen)) (Some c) now = (nxt, ok) \<Longrightarrow>
    reserve_step w (w\<lparr>heap := (heap w)(next_addr w \<mapsto> nxt), next_addr := Suc (next_addr w),
      reserves := (reserves w)(i \<mapsto> Trying c now seen (next_addr w) ok)\<rparr>)"
| exchange: "reserves w i = Some (Trying c now previous a ok) \<Longrightarrow> state_cell w = previous \<Longrightarrow>
    reserve_step w (w\<lparr>state_cell := Some a, history := history w @ [(i, c, now, ok)],
      reserves := (reserves w)(i \<mapsto> Answered c now ok)\<rparr>)"
| again: "reserves w i = Some (Trying c now previous a ok) \<Longrightarrow> state_cell w \<noteq> previous \<Longrightarrow>
    reserve_step w (w\<lparr>reserves := (reserves w)(i \<mapsto> Reading c now)\<rparr>)"

text \<open>A call reads the cell and computes the next state in one step: nothing that happens between
  the load and the allocation can be seen by it, as a \<open>rateLimitState\<close> is never changed.\<close>

inductive limiter_reachable :: "'p rateLimiter \<Rightarrow> limiter_world \<Rightarrow> bool" for l where
  start: "limiter_reachable l (limiter_start l)"
| step: "limiter_reachable l w \<Longrightarrow> reserve_step w w' \<Longrightarrow> limiter_reachable l w'"

definition call_of :: "nat \<times> limit_config \<times> int \<times> bool \<Rightarrow> limit_config \<times> int" where
  "call_of e = (fst (snd e), fst (snd (snd e)))"

definition verdict_of :: "nat \<times> limit_config \<times> int \<times> bool \<Rightarrow> bool" where
  "verdict_of e = snd (snd (snd e))"

fun answer_of :: "nat \<Rightarrow> reserve_call option \<Rightarrow> (nat \<times> limit_config \<times> int \<times> bool) list" where
  "answer_of i (Some (Answered c now ok)) = [(i, c, now, ok)]"
| "answer_of i _ = []"

section \<open>The invariant of the loop\<close>

definition heap_inv :: "limiter_world \<Rightarrow> bool" where
  "heap_inv w \<longleftrightarrow>
     (\<forall>a. state_cell w = Some a \<longrightarrow> a < next_addr w) \<and>
     (\<forall>i c now p a ok. reserves w i = Some (Trying c now p a ok) \<longrightarrow>
        a < next_addr w \<and> (\<forall>b. p = Some b \<longrightarrow> b < next_addr w) \<and>
        (\<exists>s. heap w a = Some s \<and> (s, ok) = reserveBucket (previousValue (stored w p)) (Some c) now))"

definition sequential :: "'p rateLimiter \<Rightarrow> limiter_world \<Rightarrow> bool" where
  "sequential l w \<longleftrightarrow>
     reserve_all l (map call_of (history w)) =
       (l\<lparr>limiter_state := stored w (state_cell w)\<rparr>, map verdict_of (history w))"

definition answers_once :: "limiter_world \<Rightarrow> bool" where
  "answers_once w \<longleftrightarrow> (\<forall>i. filter (\<lambda>e. fst e = i) (history w) = answer_of i (reserves w i))"

lemma stored_old: "(\<And>b. p = Some b \<Longrightarrow> b < n) \<Longrightarrow> stored (w\<lparr>heap := (heap w)(n \<mapsto> s)\<rparr>) p = stored w p"
  by (cases p) (auto simp: stored_def)

lemma stored_heap: "heap v = heap w \<Longrightarrow> stored v p = stored w p"
  by (simp add: stored_def)

lemma heap_inv_trying:
  assumes "heap_inv w" and "reserves w i = Some (Trying c now p a ok)"
  shows "a < next_addr w" "p = Some b \<Longrightarrow> b < next_addr w"
    "\<exists>s. heap w a = Some s \<and> (s, ok) = reserveBucket (previousValue (stored w p)) (Some c) now"
  using assms unfolding heap_inv_def by blast+

lemma heap_inv_step:
  assumes "reserve_step w w'" and "heap_inv w"
  shows "heap_inv w'"
  using assms
proof (induction rule: reserve_step.induct)
  case (attempt w i c now seen nxt ok)
  let ?w = "w\<lparr>heap := (heap w)(next_addr w \<mapsto> nxt), next_addr := Suc (next_addr w),
      reserves := (reserves w)(i \<mapsto> Trying c now seen (next_addr w) ok)\<rparr>"
  have below: "b < next_addr w" if "state_cell w = Some b" for b
    using attempt.prems that by (simp add: heap_inv_def)
  have same: "stored ?w p = stored w p" if "\<And>b. p = Some b \<Longrightarrow> b < next_addr w" for p
    using stored_old [of p "next_addr w" w nxt] that by (simp add: stored_def)
  have seen: "stored ?w seen = stored w seen"
    using below attempt.hyps(2) by (intro same) simp
  show ?case
    unfolding heap_inv_def
  proof (intro conjI allI impI, goal_cases)
    case (1 a)
    then show ?case using below [of a] by simp
  next
    case (2 j d t p a k)
    show ?case
    proof (cases "j = i")
      case True
      with 2 show ?thesis by simp
    next
      case False
      with 2 have "reserves w j = Some (Trying d t p a k)" by simp
      from heap_inv_trying(1) [OF attempt.prems this] show ?thesis by simp
    qed
  next
    case (3 j d t p a k b)
    show ?case
    proof (cases "j = i")
      case True
      with 3 attempt.hyps(2) below [of b] show ?thesis by simp
    next
      case False
      with 3 have "reserves w j = Some (Trying d t p a k)" by simp
      from heap_inv_trying(2) [OF attempt.prems this] 3 show ?thesis by simp
    qed
  next
    case (4 j d t p a k)
    show ?case
    proof (cases "j = i")
      case True
      with 4 have "d = c" "t = now" "p = seen" "a = next_addr w" "k = ok" by simp_all
      with attempt.hyps(3) show ?thesis by (simp only: seen) simp
    next
      case False
      with 4 have at: "reserves w j = Some (Trying d t p a k)" by simp
      from heap_inv_trying [OF attempt.prems this] show ?thesis by (auto simp: same)
    qed
  qed
next
  case (exchange w i c now previous a ok)
  let ?w = "w\<lparr>state_cell := Some a, history := history w @ [(i, c, now, ok)],
      reserves := (reserves w)(i \<mapsto> Answered c now ok)\<rparr>"
  have "stored ?w p = stored w p" for p by (simp add: stored_def)
  with exchange show ?case by (auto simp: heap_inv_def)
qed (auto simp: heap_inv_def stored_def)

lemma heap_inv_start: "heap_inv (limiter_start l)"
  by (simp add: heap_inv_def limiter_start_def)

lemma heap_inv_reachable: "limiter_reachable l w \<Longrightarrow> heap_inv w"
  by (induction rule: limiter_reachable.induct) (auto intro: heap_inv_start heap_inv_step)

lemma sequential_step:
  assumes "reserve_step w w'" and "heap_inv w" and "sequential l w"
  shows "sequential l w'"
  using assms
proof (induction rule: reserve_step.induct)
  case (attempt w i c now seen nxt ok)
  have "stored (w\<lparr>heap := (heap w)(next_addr w \<mapsto> nxt)\<rparr>) (state_cell w) = stored w (state_cell w)"
    using attempt.prems by (intro stored_old) (simp add: heap_inv_def)
  with attempt.prems show ?case by (simp add: sequential_def stored_def)
next
  case (exchange w i c now previous a ok)
  obtain s where s: "heap w a = Some s"
    and now: "(s, ok) = reserveBucket (previousValue (stored w previous)) (Some c) now"
    using heap_inv_trying(3) [OF exchange.prems(1) exchange.hyps(1)] by blast
  have "reserve (l\<lparr>limiter_state := stored w previous\<rparr>) c now = (l\<lparr>limiter_state := Some s\<rparr>, ok)"
    by (simp add: reserve_def flip: now)
  with exchange s show ?case
    by (simp add: sequential_def reserve_all_append call_of_def verdict_of_def stored_def)
qed (simp_all add: sequential_def stored_def)

lemma sequential_start: "sequential l (limiter_start l)"
proof -
  have "stored (limiter_start l) (state_cell (limiter_start l)) = limiter_state l"
    by (cases "limiter_state l") (simp_all add: limiter_start_def stored_def)
  moreover have "history (limiter_start l) = []" by (simp add: limiter_start_def)
  ultimately show ?thesis by (simp add: sequential_def)
qed

lemma sequential_reachable: "limiter_reachable l w \<Longrightarrow> sequential l w"
  by (induction rule: limiter_reachable.induct)
     (auto intro: sequential_start sequential_step heap_inv_reachable)

lemma answers_once_step: "reserve_step w w' \<Longrightarrow> answers_once w \<Longrightarrow> answers_once w'"
  by (induction rule: reserve_step.induct) (auto simp: answers_once_def)

lemma answers_once_reachable: "limiter_reachable l w \<Longrightarrow> answers_once w"
proof (induction rule: limiter_reachable.induct)
  case start
  then show ?case by (simp add: answers_once_def limiter_start_def)
qed (rule answers_once_step)

section \<open>An undisturbed call, and the number of grants\<close>

text \<open>A call that nobody disturbs returns after three steps, with the verdict of \<open>reserve\<close>.\<close>

lemma undisturbed_reserve:
  assumes w: "limiter_reachable l w" and idle: "reserves w i = None"
  shows "\<exists>w' ok. limiter_reachable l w' \<and> history w' = history w @ [(i, c, now, ok)]
     \<and> reserves w' = (reserves w)(i \<mapsto> Answered c now ok)"
proof -
  obtain nxt ok where r: "reserveBucket (previousValue (stored w (state_cell w))) (Some c) now = (nxt, ok)"
    by (metis surj_pair)
  define w1 where "w1 = w\<lparr>reserves := (reserves w)(i \<mapsto> Reading c now)\<rparr>"
  define w2 where "w2 = w1\<lparr>heap := (heap w1)(next_addr w1 \<mapsto> nxt), next_addr := Suc (next_addr w1),
      reserves := (reserves w1)(i \<mapsto> Trying c now (state_cell w1) (next_addr w1) ok)\<rparr>"
  define w3 where "w3 = w2\<lparr>state_cell := Some (next_addr w1), history := history w2 @ [(i, c, now, ok)],
      reserves := (reserves w2)(i \<mapsto> Answered c now ok)\<rparr>"
  have "limiter_reachable l w1"
    unfolding w1_def by (rule limiter_reachable.step [OF w reserve_step.call [OF idle]])
  moreover have "reserve_step w1 w2"
    unfolding w2_def by (rule reserve_step.attempt) (use r in \<open>simp_all add: w1_def stored_def\<close>)
  ultimately have "limiter_reachable l w2" by (rule limiter_reachable.step)
  moreover have "reserve_step w2 w3"
    unfolding w3_def by (rule reserve_step.exchange) (simp_all add: w2_def)
  ultimately have "limiter_reachable l w3" by (rule limiter_reachable.step)
  moreover have "history w3 = history w @ [(i, c, now, ok)]"
    "reserves w3 = (reserves w)(i \<mapsto> Answered c now ok)"
    by (simp_all add: w3_def w2_def w1_def)
  ultimately show ?thesis by blast
qed

lemma reserve_all_run:
  assumes "limiter_state l = Some s"
  shows "length (filter id (snd (reserve_all l (map (Pair c) ts)))) = snd (run_steps (bucket_step c) s ts)"
  using assms
proof (induction ts arbitrary: l s)
  case (Cons t ts)
  obtain s' ok where b: "reserveBucket s (Some c) t = (s', ok)" by (metis surj_pair)
  then have "reserve l c t = (l\<lparr>limiter_state := Some s'\<rparr>, ok)"
    using Cons.prems by (simp add: reserve_def previousValue_def)
  with b Cons.IH [of "l\<lparr>limiter_state := Some s'\<rparr>" s'] show ?case
    by (auto simp: bucket_step_def split_beta Let_def)
qed simp

text \<open>Through the loop, as through the published generations, a limiter admits no more than its
  burst and the refill since it was made.\<close>

theorem standalone_limiter_bound:
  assumes "limiter_reachable (newRateLimiterAt (Some c) t0 :: 'p rateLimiter) w" and c: "valid_limit c"
    and calls: "map call_of (history w) = map (Pair c) ts"
  shows "int (length (filter verdict_of (history w))) * nanotokensPerToken
    \<le> Burst c * nanotokensPerToken + (fold max ts t0 - t0) * Rate c"
proof -
  let ?s = "newRateLimitStateValue (Some c) t0"
  define l where "l = (newRateLimiterAt (Some c) t0 :: 'p rateLimiter)"
  have "limiter_state l = Some ?s"
    by (simp add: l_def newRateLimiterAt_def newRateLimitState_def)
  from reserve_all_run [OF this, of c ts]
  have "length (filter id (snd (reserve_all l (map call_of (history w)))))
      = snd (run_steps (bucket_step c) ?s ts)"
    unfolding calls .
  then have "length (filter id (map verdict_of (history w))) = snd (run_steps (bucket_step c) ?s ts)"
    using sequential_reachable [OF assms(1)] by (simp add: sequential_def l_def)
  then have "length (filter verdict_of (history w)) = snd (run_steps (bucket_step c) ?s ts)"
    by (simp add: filter_map comp_def)
  moreover have "max 0 (Rate c) = Rate c" using c by (simp add: valid_limit_def)
  ultimately show ?thesis
    using bucket.run_bound [of c ?s ts] c new_bucket_ok [OF c, of t0] by simp
qed

section \<open>Properties\<close>

text \<open>C40. The loop of \<open>reserve\<close> is linearizable: however any number of calls interleave,
  the exchanges that succeeded, in their order, are the calls of a limiter used by one goroutine,
  with the same state and the same verdicts, and each call that has returned is there once, with
  the verdict it returned.\<close>

theorem reserve_linearizable:
  assumes "limiter_reachable l w"
  shows "reserve_all l (map call_of (history w)) =
           (l\<lparr>limiter_state := stored w (state_cell w)\<rparr>, map verdict_of (history w))
       \<and> (\<forall>i. filter (\<lambda>e. fst e = i) (history w) = answer_of i (reserves w i))"
  using sequential_reachable [OF assms] answers_once_reachable [OF assms]
  by (simp add: sequential_def answers_once_def)

theorem reserve_linearizable_witness:
  "\<exists>w. limiter_reachable (newRateLimiterAt (Some \<lparr>cfg_ptr = 1, Rate = 1, Burst = 1\<rparr>) 0 :: unit rateLimiter) w
     \<and> map verdict_of (history w) = [True, False]"
proof -
  define c where "c = \<lparr>cfg_ptr = 1, Rate = 1, Burst = 1\<rparr>"
  define l where "l = (newRateLimiterAt (Some c) 0 :: unit rateLimiter)"
  have "reserves (limiter_start l) 0 = None" by (simp add: limiter_start_def)
  from undisturbed_reserve [OF limiter_reachable.start this, of c 5]
  obtain w1 ok1 where w1: "limiter_reachable l w1" "history w1 = [(0, c, 5, ok1)]"
    "reserves w1 = [0 \<mapsto> Answered c 5 ok1]"
    by (auto simp: limiter_start_def)
  then have "reserves w1 1 = None" by simp
  from undisturbed_reserve [OF w1(1) this, of c 7] w1(2)
  obtain w2 ok2 where w2: "limiter_reachable l w2" "history w2 = [(0, c, 5, ok1), (1, c, 7, ok2)]"
    by auto
  let ?s = "newRateLimitStateValue (Some c) 0"
  have 1: "reserveBucket ?s (Some c) 5 = (?s\<lparr>tokens := 0, last_time := 5\<rparr>, True)"
    by (simp add: c_def newRateLimitStateValue_def reserveBucket_def same_config_def refill_def
        time_sub_def saturatingMultiply_def saturatingAdd_def limit_consts i64_def)
  have 2: "reserveBucket (?s\<lparr>tokens := 0, last_time := 5\<rparr>) (Some c) 7
      = (?s\<lparr>tokens := 2, last_time := 7\<rparr>, False)"
    by (simp add: c_def newRateLimitStateValue_def reserveBucket_def same_config_def refill_def
        time_sub_def saturatingMultiply_def saturatingAdd_def limit_consts i64_def)
  have "limiter_state l = Some ?s" by (simp add: l_def newRateLimiterAt_def newRateLimitState_def c_def)
  then have "reserve l c 5 = (l\<lparr>limiter_state := Some (?s\<lparr>tokens := 0, last_time := 5\<rparr>)\<rparr>, True)"
    by (simp only: reserve_def previousValue_def 1 Let_def prod.case option.case)
  moreover have at: "limiter_state (l\<lparr>limiter_state := x\<rparr>) = x" for x by simp
  have "snd (reserve (l\<lparr>limiter_state := Some (?s\<lparr>tokens := 0, last_time := 5\<rparr>)\<rparr>) c 7) = False"
    by (simp only: reserve_def previousValue_def 2 Let_def prod.case option.case snd_conv at)
  ultimately have "snd (reserve_all l [(c, 5), (c, 7)]) = [True, False]"
    by (simp only: reserve_all.simps prod.case split_beta fst_conv snd_conv)
  moreover have "map call_of (history w2) = [(c, 5), (c, 7)]" by (simp add: w2(2) call_of_def)
  moreover have "snd (reserve_all l (map call_of (history w2))) = map verdict_of (history w2)"
    using conjunct1 [OF reserve_linearizable [OF w2(1)]] by (simp only: snd_conv)
  ultimately have "map verdict_of (history w2) = [True, False]" by (simp only:)
  with w2(1) have "limiter_reachable l w2 \<and> map verdict_of (history w2) = [True, False]" ..
  then show ?thesis unfolding l_def c_def by (rule exI)
qed

end
