(* ===== verification/GoNet.thy ===== *)
theory GoNet
  imports Prelude "HOL-Library.Word"
begin

text \<open>
  What the program uses of Go's packages \<open>net\<close>, \<open>net/netip\<close> and \<open>strconv\<close>: splitting a
  host from its port, parsing and printing IP addresses, and CIDR prefixes. Addresses are
  machine words, 32 bits wide for IPv4 and 128 for IPv6. These are library definitions;
  none of them is code under src/.
\<close>

unbundle bit_operations_syntax

section \<open>Numbers in text\<close>

definition digit_val :: "char \<Rightarrow> nat" where
  "digit_val c = of_char c - 48"

fun dec_val :: "nat \<Rightarrow> string \<Rightarrow> nat" where
  "dec_val acc [] = acc"
| "dec_val acc (c # cs) = dec_val (10 * acc + digit_val c) cs"

definition all_digits :: "string \<Rightarrow> bool" where
  "all_digits s \<longleftrightarrow> s \<noteq> [] \<and> list_all is_digit s"

fun show_nat :: "nat \<Rightarrow> string" where
  "show_nat n = (if n < 10 then [char_of (48 + n)] else show_nat (n div 10) @ [char_of (48 + n mod 10)])"

declare show_nat.simps [simp del]

text \<open>\<open>hexDigit\<close> of a byte, shared by the URL code and the IPv6 parser.\<close>

definition hex_val :: "char \<Rightarrow> nat option" where
  "hex_val c =
     (if is_digit c then Some (of_char c - 48)
      else if CHR ''a'' \<le> c \<and> c \<le> CHR ''f'' then Some (of_char c - 97 + 10)
      else if CHR ''A'' \<le> c \<and> c \<le> CHR ''F'' then Some (of_char c - 65 + 10)
      else None)"

definition hex_char :: "nat \<Rightarrow> char" where
  "hex_char n = (if n < 10 then char_of (48 + n) else char_of (87 + n))"

fun show_hex :: "nat \<Rightarrow> string" where
  "show_hex n = (if n < 16 then [hex_char n] else show_hex (n div 16) @ [hex_char (n mod 16)])"

declare show_hex.simps [simp del]

section \<open>net.SplitHostPort\<close>

definition last_index :: "string \<Rightarrow> char \<Rightarrow> nat option" where
  "last_index s c = map_option (\<lambda>i. length s - 1 - i) (index_byte (rev s) c)"

definition split_host_port :: "string \<Rightarrow> (string \<times> string) option" where
  "split_host_port s =
     (case last_index s CHR '':'' of
        None \<Rightarrow> None
      | Some i \<Rightarrow>
          (if hd s = CHR ''['' then
             (case index_byte s CHR '']'' of
                None \<Rightarrow> None
              | Some e \<Rightarrow>
                  if e + 1 = i \<and> e + 1 < length s \<and> CHR ''['' \<notin> set (drop 1 s)
                     \<and> CHR '']'' \<notin> set (drop (e + 1) s)
                  then Some (take (e - 1) (drop 1 s), drop (i + 1) s) else None)
           else if CHR '':'' \<in> set (take i s) \<or> CHR ''['' \<in> set s \<or> CHR '']'' \<in> set s then None
           else Some (take i s, drop (i + 1) s)))"

section \<open>net/netip addresses\<close>

datatype addr = InvalidAddr | V4 "32 word" | V6 "128 word" string

definition addr_valid :: "addr \<Rightarrow> bool" where
  "addr_valid a \<longleftrightarrow> a \<noteq> InvalidAddr"

fun addr_zone :: "addr \<Rightarrow> string" where
  "addr_zone (V6 w z) = z"
| "addr_zone _ = []"

fun is4in6 :: "addr \<Rightarrow> bool" where
  "is4in6 (V6 w z) \<longleftrightarrow> drop_bit 32 w = 0xFFFF"
| "is4in6 _ \<longleftrightarrow> False"

fun unmap :: "addr \<Rightarrow> addr" where
  "unmap (V6 w z) = (if drop_bit 32 w = 0xFFFF then V4 (ucast w) else V6 w z)"
| "unmap a = a"

fun without_zone :: "addr \<Rightarrow> addr" where
  "without_zone (V6 w z) = V6 w []"
| "without_zone a = a"

fun bit_len :: "addr \<Rightarrow> int" where
  "bit_len InvalidAddr = 0"
| "bit_len (V4 w) = 32"
| "bit_len (V6 w z) = 128"

definition parse_octet :: "string \<Rightarrow> nat option" where
  "parse_octet s =
     (if all_digits s \<and> (length s > 1 \<longrightarrow> hd s \<noteq> CHR ''0'') \<and> dec_val 0 s \<le> 255
      then Some (dec_val 0 s) else None)"

definition parse_ipv4_word :: "string \<Rightarrow> nat option" where
  "parse_ipv4_word s =
     (case map parse_octet (split_on CHR ''.'' s) of
        [Some a, Some b, Some c, Some d] \<Rightarrow> Some (((a * 256 + b) * 256 + c) * 256 + d)
      | _ \<Rightarrow> None)"

text \<open>The loop of \<open>parseIPv6\<close>: \<open>n\<close> groups are still free, \<open>done\<close> holds the groups read
  so far, \<open>ell\<close> the number of groups before the ellipsis.\<close>

fun hex_run :: "string \<Rightarrow> string" where
  "hex_run [] = []"
| "hex_run (c # cs) = (if hex_val c \<noteq> None then c # hex_run cs else [])"

fun hex_number :: "nat \<Rightarrow> string \<Rightarrow> nat" where
  "hex_number acc [] = acc"
| "hex_number acc (c # cs) = hex_number (16 * acc + the (hex_val c)) cs"

fun ipv6_groups :: "nat \<Rightarrow> nat list \<Rightarrow> nat option \<Rightarrow> string \<Rightarrow> (nat list \<times> nat option \<times> string) option" where
  "ipv6_groups 0 done ell s = Some (done, ell, s)"
| "ipv6_groups (Suc n) done ell s =
     (let h = hex_run s; rest = drop (length h) s; acc = hex_number 0 h in
      if h = [] \<or> length h > 4 then None
      else if rest \<noteq> [] \<and> hd rest = CHR ''.'' then
        (if (ell = None \<and> length done \<noteq> 6) \<or> length done + 2 > 8 then None
         else case parse_ipv4_word s of
                None \<Rightarrow> None
              | Some v \<Rightarrow> Some (done @ [v div 65536, v mod 65536], ell, []))
      else
        (let done' = done @ [acc] in
         case rest of
           [] \<Rightarrow> Some (done', ell, [])
         | c # rest1 \<Rightarrow>
             if c \<noteq> CHR '':'' \<or> rest1 = [] then None
             else if hd rest1 = CHR '':'' then
               (if ell \<noteq> None then None
                else if tl rest1 = [] then Some (done', Some (length done'), [])
                else ipv6_groups n done' (Some (length done')) (tl rest1))
             else ipv6_groups n done' ell rest1))"

definition groups_word :: "nat list \<Rightarrow> 128 word" where
  "groups_word gs = of_nat (foldl (\<lambda>acc g. acc * 65536 + g) 0 gs)"

definition parse_ipv6_body :: "string \<Rightarrow> (128 word) option" where
  "parse_ipv6_body s =
     (let (ell0, s0) = (if take 2 s = ''::'' then (Some 0, drop 2 s) else (None, s)) in
      if ell0 \<noteq> None \<and> s0 = [] then Some 0
      else case ipv6_groups 8 [] ell0 s0 of
             None \<Rightarrow> None
           | Some (gs, ell, rest) \<Rightarrow>
               if rest \<noteq> [] then None
               else if length gs < 8 then
                 (case ell of
                    None \<Rightarrow> None
                  | Some e \<Rightarrow> Some (groups_word (take e gs @ replicate (8 - length gs) 0 @ drop e gs)))
               else if ell \<noteq> None then None
               else Some (groups_word gs))"

definition parse_ipv6 :: "string \<Rightarrow> addr option" where
  "parse_ipv6 s =
     (case index_byte s CHR ''%'' of
        None \<Rightarrow> map_option (\<lambda>w. V6 w []) (parse_ipv6_body s)
      | Some i \<Rightarrow>
          if drop (i + 1) s = [] then None
          else map_option (\<lambda>w. V6 w (drop (i + 1) s)) (parse_ipv6_body (take i s)))"

fun first_of :: "string \<Rightarrow> char option" where
  "first_of [] = None"
| "first_of (c # cs) = (if c = CHR ''.'' \<or> c = CHR '':'' \<or> c = CHR ''%'' then Some c else first_of cs)"

definition parse_addr :: "string \<Rightarrow> addr option" where
  "parse_addr s =
     (case first_of s of
        None \<Rightarrow> None
      | Some c \<Rightarrow>
          if c = CHR ''.'' then map_option (\<lambda>v. V4 (of_nat v)) (parse_ipv4_word s)
          else if c = CHR '':'' then parse_ipv6 s
          else None)"

section \<open>Printing an address\<close>

definition show_ipv4 :: "32 word \<Rightarrow> string" where
  "show_ipv4 w =
     (let n = unat w in
      show_nat (n div 16777216) @ ''.'' @ show_nat (n div 65536 mod 256) @ ''.'' @
      show_nat (n div 256 mod 256) @ ''.'' @ show_nat (n mod 256))"

definition word_groups :: "128 word \<Rightarrow> nat list" where
  "word_groups w = map (\<lambda>i. unat w div 2 ^ (112 - 16 * i) mod 65536) [0..<8]"

fun zero_prefix :: "nat list \<Rightarrow> nat" where
  "zero_prefix [] = 0"
| "zero_prefix (g # gs) = (if g = 0 then Suc (zero_prefix gs) else 0)"

text \<open>The first longest run of at least two zero groups: its start and end.\<close>

definition zero_run :: "nat list \<Rightarrow> (nat \<times> nat) option" where
  "zero_run gs =
     foldl (\<lambda>best i. let l = zero_prefix (drop i gs) in
              if l \<ge> 2 \<and> (case best of None \<Rightarrow> True | Some (a, b) \<Rightarrow> l > b - a)
              then Some (i, i + l) else best) None [0..<8]"

definition show_groups :: "nat list \<Rightarrow> string" where
  "show_groups gs = join_with '':'' (map show_hex gs)"

definition show_ipv6 :: "128 word \<Rightarrow> string" where
  "show_ipv6 w =
     (if drop_bit 32 w = 0xFFFF then ''::ffff:'' @ show_ipv4 (ucast w)
      else let gs = word_groups w in
        case zero_run gs of
          None \<Rightarrow> show_groups gs
        | Some (a, b) \<Rightarrow> show_groups (take a gs) @ ''::'' @ show_groups (drop b gs))"

fun addr_string :: "addr \<Rightarrow> string" where
  "addr_string InvalidAddr = ''invalid IP''"
| "addr_string (V4 w) = show_ipv4 w"
| "addr_string (V6 w z) = show_ipv6 w @ (if z = [] then [] else ''%'' @ z)"

section \<open>Prefixes\<close>

text \<open>\<open>bits = -1\<close> is Go's invalid prefix.\<close>

record ip_prefix =
  paddr :: addr
  pbits :: int

definition prefix_from :: "addr \<Rightarrow> int \<Rightarrow> ip_prefix" where
  "prefix_from a b = \<lparr>paddr = without_zone a,
     pbits = (if a = InvalidAddr \<or> b < 0 \<or> b > bit_len a then -1 else b)\<rparr>"

fun mask_addr :: "addr \<Rightarrow> nat \<Rightarrow> addr" where
  "mask_addr InvalidAddr b = InvalidAddr"
| "mask_addr (V4 w) b = V4 (w AND NOT (mask (32 - b)))"
| "mask_addr (V6 w z) b = V6 (w AND NOT (mask (128 - b))) []"

definition prefix_masked :: "ip_prefix \<Rightarrow> ip_prefix" where
  "prefix_masked p =
     (if pbits p < 0 then \<lparr>paddr = InvalidAddr, pbits = -1\<rparr>
      else \<lparr>paddr = mask_addr (paddr p) (nat (pbits p)), pbits = pbits p\<rparr>)"

fun prefix_contains :: "ip_prefix \<Rightarrow> addr \<Rightarrow> bool" where
  "prefix_contains p a \<longleftrightarrow>
     0 \<le> pbits p \<and> addr_zone a = [] \<and>
     (case (paddr p, a) of
        (V4 x, V4 y) \<Rightarrow> drop_bit (32 - nat (pbits p)) (x XOR y) = 0
      | (V6 x zx, V6 y zy) \<Rightarrow> (x XOR y) AND NOT (mask (128 - nat (pbits p))) = 0
      | _ \<Rightarrow> False)"

definition parse_prefix :: "string \<Rightarrow> ip_prefix option" where
  "parse_prefix s =
     (case last_index s CHR ''/'' of
        None \<Rightarrow> None
      | Some i \<Rightarrow>
          (case parse_addr (take i s) of
             None \<Rightarrow> None
           | Some a \<Rightarrow>
               (let bs = drop (i + 1) s in
                if addr_zone a \<noteq> [] \<or> \<not> all_digits bs \<or> (length bs > 1 \<and> hd bs = CHR ''0'')
                   \<or> int (dec_val 0 bs) > bit_len a
                then None
                else Some \<lparr>paddr = a, pbits = int (dec_val 0 bs)\<rparr>)))"

text \<open>Evaluation of the parsers and printers on literals.\<close>

lemmas addr_eval = split_host_port_def last_index_def parse_addr_def parse_ipv4_word_def
  parse_octet_def all_digits_def digit_val_def is_digit_def less_eq_char_def trim_def trim_left_def
  trim_right_def show_ipv4_def show_nat.simps char_eval Let_def

lemma unmap_idem [simp]: "unmap (unmap a) = unmap a"
  by (cases a) auto

lemma unmap_not_4in6: "\<not> is4in6 (unmap a)"
  by (cases a) auto

lemma unmap_valid [simp]: "addr_valid (unmap a) = addr_valid a"
  by (cases a) (auto simp: addr_valid_def)

text \<open>A valid address is never printed as the empty string.\<close>

lemma show_ipv4_nonempty: "show_ipv4 w \<noteq> []"
  by (simp add: show_ipv4_def Let_def)

lemma join_with_nonempty: "sep \<noteq> [] \<Longrightarrow> 2 \<le> length vs \<Longrightarrow> join_with sep vs \<noteq> []"
  by (cases "(sep, vs)" rule: join_with.cases) auto

lemma show_ipv6_nonempty: "show_ipv6 w \<noteq> []"
proof -
  have "show_groups (word_groups w) \<noteq> []"
    unfolding show_groups_def by (rule join_with_nonempty) (simp_all add: word_groups_def)
  then show ?thesis by (auto simp: show_ipv6_def Let_def split: option.splits)
qed

lemma addr_string_nonempty: "addr_string a \<noteq> []"
  by (cases a) (simp_all add: show_ipv4_nonempty show_ipv6_nonempty)

end
