(* ===== verification/Http.thy ===== *)
theory Http
  imports GoNet
begin

text \<open>
  What the program uses of Go's \<open>net/http\<close>, \<open>net/textproto\<close> and \<open>net/url\<close>: header maps with
  canonical names, percent-encoding, the decoded and raw path of a URL, query parsing, and the
  fields of a request. A header is a \<open>gomap\<close> from names to value lists, in the order an iteration
  would visit it. Library definitions, none of them code under src/.
\<close>

section \<open>Header maps\<close>

type_synonym header = "(string, string list) gomap"

definition is_token_byte :: "char \<Rightarrow> bool" where
  "is_token_byte c \<longleftrightarrow> is_digit c \<or> is_lower c \<or> is_upper c \<or> c \<in> set ''!#$%&'' \<or> c = CHR 0x27 \<or>
     c \<in> set ''+-.^_|~*'' \<or> c = CHR 0x60"

text \<open>\<open>http.CanonicalHeaderKey\<close>: a name with a byte that is no token byte is left alone.\<close>

fun canon_from :: "bool \<Rightarrow> string \<Rightarrow> string" where
  "canon_from up [] = []"
| "canon_from up (c # cs) =
     (if up then upper_char c else lower_char c) # canon_from (c = CHR ''-'') cs"

definition canonical_key :: "string \<Rightarrow> string" where
  "canonical_key s = (if list_all is_token_byte s then canon_from True s else s)"

definition header_values :: "header \<Rightarrow> string \<Rightarrow> string list" where
  "header_values h name = (case map_of h (canonical_key name) of None \<Rightarrow> [] | Some vs \<Rightarrow> vs)"

definition header_set :: "string \<Rightarrow> string \<Rightarrow> header \<Rightarrow> header" where
  "header_set name v h = go_put (canonical_key name) [v] h"

definition header_del :: "string \<Rightarrow> header \<Rightarrow> header" where
  "header_del name h = go_delete (canonical_key name) h"

text \<open>The raw lookup \<open>header[name]\<close>, nil for an absent key.\<close>

definition header_raw :: "header \<Rightarrow> string \<Rightarrow> string list" where
  "header_raw h name = (case map_of h name of None \<Rightarrow> [] | Some vs \<Rightarrow> vs)"

section \<open>Percent-encoding\<close>

fun path_unescape :: "string \<Rightarrow> string option" where
  "path_unescape [] = Some []"
| "path_unescape (c # cs) =
     (if c = CHR ''%'' then
        (case cs of
           a # b # rest \<Rightarrow>
             (case (hex_val a, hex_val b) of
                (Some x, Some y) \<Rightarrow> map_option ((#) (char_of (16 * x + y))) (path_unescape rest)
              | _ \<Rightarrow> None)
         | _ \<Rightarrow> None)
      else map_option ((#) c) (path_unescape cs))"

fun query_unescape :: "string \<Rightarrow> string option" where
  "query_unescape [] = Some []"
| "query_unescape (c # cs) =
     (if c = CHR ''%'' then
        (case cs of
           a # b # rest \<Rightarrow>
             (case (hex_val a, hex_val b) of
                (Some x, Some y) \<Rightarrow> map_option ((#) (char_of (16 * x + y))) (query_unescape rest)
              | _ \<Rightarrow> None)
         | _ \<Rightarrow> None)
      else map_option ((#) (if c = CHR ''+'' then CHR '' '' else c)) (query_unescape cs))"

definition path_keeps :: "char \<Rightarrow> bool" where
  "path_keeps c \<longleftrightarrow> is_digit c \<or> is_lower c \<or> is_upper c \<or> c \<in> set ''-_.~$&+,/:;=@''"

definition upper_hex :: "nat \<Rightarrow> char" where
  "upper_hex n = (if n < 10 then char_of (48 + n) else char_of (55 + n))"

fun path_escape :: "string \<Rightarrow> string" where
  "path_escape [] = []"
| "path_escape (c # cs) =
     (if path_keeps c then [c]
      else [CHR ''%'', upper_hex (of_char c div 16), upper_hex (of_char c mod 16)]) @ path_escape cs"

definition valid_encoded :: "string \<Rightarrow> bool" where
  "valid_encoded s \<longleftrightarrow> list_all (\<lambda>c. path_keeps c \<or> c \<in> set ''!()*%[]'' \<or> c = CHR 0x27) s"

definition escaped_path :: "string \<Rightarrow> string \<Rightarrow> string" where
  "escaped_path path raw =
     (if raw \<noteq> [] \<and> valid_encoded raw \<and> path_unescape raw = Some path then raw
      else if path = ''*'' then ''*'' else path_escape path)"

section \<open>url.ParseQuery\<close>

definition cut_at :: "char \<Rightarrow> string \<Rightarrow> string \<times> string" where
  "cut_at c s = (takeWhile (\<lambda>x. x \<noteq> c) s, drop 1 (dropWhile (\<lambda>x. x \<noteq> c) s))"

text \<open>The values read, and whether no pair was malformed.\<close>

fun parse_pairs :: "string list \<Rightarrow> header \<Rightarrow> bool \<Rightarrow> header \<times> bool" where
  "parse_pairs [] m ok = (m, ok)"
| "parse_pairs (p # ps) m ok =
     (if contains_byte p CHR '';'' then parse_pairs ps m False
      else if p = [] then parse_pairs ps m ok
      else case cut_at CHR ''='' p of (k, v) \<Rightarrow>
        (case query_unescape k of
           None \<Rightarrow> parse_pairs ps m False
         | Some k' \<Rightarrow>
             (case query_unescape v of
                None \<Rightarrow> parse_pairs ps m False
              | Some v' \<Rightarrow> parse_pairs ps (go_put k' (header_raw m k' @ [v']) m) ok)))"

definition parse_query :: "string \<Rightarrow> header \<times> bool" where
  "parse_query q = parse_pairs (split_on CHR ''&'' q) [] True"

section \<open>URLs and requests\<close>

record url =
  Scheme :: string
  UHost :: string
  Path :: string
  RawPath :: string
  RawQuery :: string
  ForceQuery :: bool

text \<open>
  A request body: absent (\<open>nil\<close>), \<open>http.NoBody\<close>, or a reader. The reader is the list of results
  its \<open>Read\<close> calls give, in order.
\<close>

datatype read_result = ReadSome string | ReadEOF string | ReadErr string string

datatype body = NilBody | NoBody | Reader "read_result list"

record request =
  Method :: string
  URL :: url
  Host :: string
  Header :: header
  RemoteAddr :: string
  RequestURI :: string
  is_tls :: bool
  ContentLength :: int
  TransferEncoding :: "string list"
  Trailer :: header
  Body :: body
  request_id :: "string option"

definition has_body :: "body \<Rightarrow> bool" where
  "has_body b \<longleftrightarrow> b \<noteq> NilBody \<and> b \<noteq> NoBody"

definition url_escaped_path :: "url \<Rightarrow> string" where
  "url_escaped_path u = escaped_path (Path u) (RawPath u)"

lemma map_option_Cons_eq [simp]:
  "map_option ((#) c) x = Some ys \<longleftrightarrow> (\<exists>zs. x = Some zs \<and> ys = c # zs)"
  by (cases x) auto

lemma path_unescape_append:
  assumes "path_unescape s = Some a"
  shows "path_unescape (s @ t) = map_option ((@) a) (path_unescape t)"
  using assms
proof (induction s arbitrary: a rule: path_unescape.induct)
  case 1
  then show ?case by (simp add: option.map_ident)
next
  case (2 c cs)
  then show ?case
    by (cases "path_unescape t")
       (auto split: if_splits list.splits option.splits)
qed

lemma upper_hex_val: "n < 16 \<Longrightarrow> hex_val (upper_hex n) = Some n"
proof -
  assume "n < 16"
  then consider "n < 10" | "n \<in> {10..15}" by fastforce
  then show ?thesis
  proof cases
    case 1
    then have "n \<in> {0,1,2,3,4,5,6,7,8,9}" by auto
    then show ?thesis by (auto simp: upper_hex_def hex_val_def is_digit_def less_eq_char_def)
  next
    case 2
    then have "n \<in> {10,11,12,13,14,15}" by auto
    then show ?thesis by (auto simp: upper_hex_def hex_val_def is_digit_def less_eq_char_def)
  qed
qed

text \<open>Escaping a path and reading it back.\<close>

lemma path_escape_roundtrip: "path_unescape (path_escape s) = Some s"
proof (induction s)
  case Nil
  then show ?case by simp
next
  case (Cons c s)
  have "of_char c < (16::nat) * 16" using nat_of_char_less_256 [of c] by simp
  then have "of_char c div 16 < (16::nat)" "of_char c mod 16 < (16::nat)"
    by (simp_all add: less_mult_imp_div_less)
  then have "path_unescape [CHR ''%'', upper_hex (of_char c div 16), upper_hex (of_char c mod 16)]
      = Some [c]"
    by (simp add: upper_hex_val)
  moreover have "path_keeps c \<Longrightarrow> path_unescape [c] = Some [c]"
    by (auto simp: path_keeps_def is_digit_def is_lower_def is_upper_def)
  ultimately have "path_unescape (if path_keeps c then [c]
      else [CHR ''%'', upper_hex (of_char c div 16), upper_hex (of_char c mod 16)]) = Some [c]"
    by presburger
  from path_unescape_append [OF this, of "path_escape s"] Cons show ?case by simp
qed

end
