(* ===== verification/PathMatch.thy ===== *)
theory PathMatch
  imports Http
begin

text \<open>
  Path patterns of \<open>src/router.go\<close>: \<open>newPathPattern\<close>, \<open>match\<close>, and the two rewritings of a
  matched path, stripping a prefix and rewriting to a destination pattern. The byte indices
  of \<open>stripEscapedPathPrefix\<close> become the remaining suffixes of the raw path and of the prefix.
\<close>

record pathPattern =
  path :: string
  rawPath :: string
  wildcard :: bool
  depth :: nat

section \<open>Patterns\<close>

definition escapedURLPath :: "string \<Rightarrow> string" where
  "escapedURLPath p = escaped_path p []"

definition is_slash :: "char \<Rightarrow> bool" where
  "is_slash c \<longleftrightarrow> c = CHR ''/''"

definition pathDepth :: "string \<Rightarrow> nat" where
  "pathDepth p =
     (if p = [] \<or> p = ''/'' then 0 else count_list (trim is_slash p) CHR ''/'' + 1)"

definition newPathPattern :: "string \<Rightarrow> pathPattern res" where
  "newPathPattern raw =
     (if raw = [] \<or> \<not> has_prefix raw ''/'' then Inl (Err ''must start with /'' [])
      else if list_ex (\<lambda>c. c = CHR ''?'' \<or> c = CHR ''#'' \<or> c < CHR 0x20 \<or> c = CHR 0x7F) raw
      then Inl (Err ''must be a path without query or fragment'' [])
      else if raw = ''/*'' then Inr \<lparr>path = [], rawPath = [], wildcard = True, depth = 0\<rparr>
      else if has_suffix raw ''/*'' then
        (let pre = trim_suffix raw ''/*'' in
         if contains_byte pre CHR ''*''
         then Inl (Err ''only a trailing /* wildcard is supported'' [])
         else Inr \<lparr>path = pre, rawPath = escapedURLPath pre, wildcard = True,
                   depth = pathDepth pre\<rparr>)
      else if contains_byte raw CHR ''*''
      then Inl (Err ''only a trailing /* wildcard is supported'' [])
      else Inr \<lparr>path = raw, rawPath = escapedURLPath raw, wildcard = False, depth = pathDepth raw\<rparr>)"

text \<open>\<open>None\<close> is the second result \<open>false\<close>.\<close>

definition pattern_match :: "pathPattern \<Rightarrow> string \<Rightarrow> string option" where
  "pattern_match p s =
     (if \<not> wildcard p then (if s = path p then Some (path p) else None)
      else if path p = [] \<or> s = path p \<or> has_prefix s (path p @ ''/'') then Some (path p)
      else None)"

section \<open>Stripping a prefix\<close>

definition stripPathPrefix :: "string \<Rightarrow> string \<Rightarrow> string" where
  "stripPathPrefix p pre =
     (if pre = [] then p
      else let p' = trim_prefix p pre in if p' = [] then ''/'' else p')"

definition hexDigit :: "char \<Rightarrow> nat option" where
  "hexDigit v =
     (if CHR ''0'' \<le> v \<and> v \<le> CHR ''9'' then Some (of_char v - 48)
      else if CHR ''a'' \<le> v \<and> v \<le> CHR ''f'' then Some (of_char v - 97 + 10)
      else if CHR ''A'' \<le> v \<and> v \<le> CHR ''F'' then Some (of_char v - 65 + 10)
      else None)"

text \<open>The byte at the front of a non-empty raw path, and what follows it.\<close>

fun escapedPathByte :: "string \<Rightarrow> (char \<times> string) option" where
  "escapedPathByte [] = None"
| "escapedPathByte (c # cs) =
     (if c \<noteq> CHR ''%'' then Some (c, cs)
      else (case cs of
              a # b # rest \<Rightarrow>
                (case hexDigit a of
                   None \<Rightarrow> None
                 | Some high \<Rightarrow>
                     (case hexDigit b of
                        None \<Rightarrow> None
                      | Some low \<Rightarrow> Some (char_of (high * 16 + low), rest)))
            | _ \<Rightarrow> None))"

lemma escapedPathByte_shorter: "escapedPathByte s = Some (c, r) \<Longrightarrow> length r < length s"
  by (cases s) (auto split: if_splits list.splits option.splits)

text \<open>The loop: \<open>pre\<close> is the part of the prefix not matched yet (non-empty).\<close>

function strip_escaped_loop :: "string \<Rightarrow> string \<Rightarrow> string option" where
  "strip_escaped_loop raw pre =
     (if raw = [] then None
      else (case escapedPathByte raw of
              None \<Rightarrow> None
            | Some (v, next) \<Rightarrow>
                (case pre of
                   [] \<Rightarrow> None
                 | p # ps \<Rightarrow>
                     if v \<noteq> p then None
                     else if ps = [] then Some next
                     else strip_escaped_loop next ps)))"
  by pat_completeness auto
termination
  by (relation "measure (\<lambda>(raw, pre). length raw)") (auto dest: escapedPathByte_shorter)

declare strip_escaped_loop.simps [simp del]

definition stripEscapedPathPrefix :: "string \<Rightarrow> string \<Rightarrow> string option" where
  "stripEscapedPathPrefix raw pre =
     (if pre = [] then Some raw else strip_escaped_loop raw pre)"

definition stripRequestPath :: "url \<Rightarrow> string \<Rightarrow> url" where
  "stripRequestPath u pre =
     (let raw = RawPath u; u' = u\<lparr>Path := stripPathPrefix (Path u) pre\<rparr> in
      if raw = [] \<or> pre = [] then u'
      else (case stripEscapedPathPrefix raw pre of
              None \<Rightarrow> u'\<lparr>RawPath := []\<rparr>
            | Some stripped \<Rightarrow> u'\<lparr>RawPath := stripped\<rparr>))"

section \<open>Rewriting to a destination\<close>

definition validRawPath :: "string \<Rightarrow> string \<Rightarrow> bool" where
  "validRawPath p raw \<longleftrightarrow>
     raw \<noteq> [] \<and> escaped_path p raw = raw \<and> path_unescape raw = Some p"

definition rewriteRawPath :: "url \<Rightarrow> pathPattern \<Rightarrow> pathPattern \<Rightarrow> string \<Rightarrow> string" where
  "rewriteRawPath inu source destination p =
     (if RawPath inu = [] \<or> \<not> validRawPath (Path inu) (RawPath inu) then []
      else (case (if wildcard source then stripEscapedPathPrefix (RawPath inu) (path source)
                  else Some []) of
              None \<Rightarrow> []
            | Some rawSuffix \<Rightarrow>
                (let raw = (if wildcard destination then rawPath destination @ rawSuffix
                            else rawPath destination)
                 in if validRawPath p raw then raw else [])))"

definition rewriteProxyPath :: "url \<Rightarrow> url \<Rightarrow> pathPattern \<Rightarrow> pathPattern \<Rightarrow> url" where
  "rewriteProxyPath outu inu source destination =
     (let suffix = (if wildcard source then trim_prefix (Path inu) (path source) else []);
          p = (if wildcard destination
               then (let q = (if suffix \<noteq> [] then path destination @ suffix else path destination)
                     in if q = [] then ''/'' else q)
               else path destination)
      in outu\<lparr>Path := p, RawPath := rewriteRawPath inu source destination p\<rparr>)"

section \<open>Lemmas\<close>

lemma hexDigit_hex_val: "hexDigit = hex_val"
  by (rule ext) (simp add: hexDigit_def hex_val_def is_digit_def)

text \<open>One decoded byte is what the path decoder reads first.\<close>

lemma escapedPathByte_decodes:
  "escapedPathByte s = Some (c, r) \<Longrightarrow> path_unescape s = map_option ((#) c) (path_unescape r)"
  by (cases s) (auto simp: hexDigit_hex_val mult.commute split: if_splits list.splits option.splits)

lemma escapedPathByte_total:
  "path_unescape s = Some (c # t) \<Longrightarrow> \<exists>r. escapedPathByte s = Some (c, r) \<and> path_unescape r = Some t"
  by (cases s) (auto simp: hexDigit_hex_val mult.commute split: if_splits list.splits option.splits)

lemma path_unescape_Nil_iff: "path_unescape s = Some [] \<longleftrightarrow> s = []"
  by (cases s) (auto split: if_splits list.splits option.splits)

lemma strip_escaped_sound:
  "strip_escaped_loop raw pre = Some rest \<Longrightarrow>
     \<exists>used. raw = used @ rest \<and> path_unescape used = Some pre"
proof (induction raw pre rule: strip_escaped_loop.induct)
  case (1 raw pre)
  from "1.prems" obtain v nxt p ps where
    b: "escapedPathByte raw = Some (v, nxt)" and "pre = p # ps" "v = p"
    and r: "if ps = [] then rest = nxt else strip_escaped_loop nxt ps = Some rest"
    by (subst (asm) strip_escaped_loop.simps)
       (auto split: if_splits option.splits list.splits prod.splits)
  from b obtain u where u: "raw = u @ nxt" "\<forall>t. path_unescape (u @ t) = map_option ((#) v) (path_unescape t)"
    by (cases raw) (auto simp: hexDigit_hex_val mult.commute split: if_splits list.splits option.splits)
  show ?case
  proof (cases "ps = []")
    case True
    have "path_unescape u = Some [v]" using u(2) [rule_format, of "[]"] by simp
    with True r u \<open>pre = p # ps\<close> \<open>v = p\<close> show ?thesis by auto
  next
    case False
    have "raw \<noteq> []" using b by auto
    with False r "1.IH" [OF _ b refl \<open>pre = p # ps\<close>] \<open>v = p\<close> obtain used where
      "nxt = used @ rest" "path_unescape used = Some ps" by auto
    with u \<open>pre = p # ps\<close> \<open>v = p\<close> have "raw = (u @ used) @ rest \<and> path_unescape (u @ used) = Some pre"
      by simp
    then show ?thesis by blast
  qed
qed

lemma strip_escaped_complete:
  "pre \<noteq> [] \<Longrightarrow> path_unescape raw = Some (pre @ t) \<Longrightarrow>
     \<exists>rest. strip_escaped_loop raw pre = Some rest \<and> path_unescape rest = Some t"
proof (induction pre arbitrary: raw)
  case Nil
  then show ?case by simp
next
  case (Cons p ps)
  then obtain r where r: "escapedPathByte raw = Some (p, r)" "path_unescape r = Some (ps @ t)"
    using escapedPathByte_total [of raw p "ps @ t"] by auto
  then have "raw \<noteq> []" by auto
  with r Cons show ?case
    by (cases "ps = []") (simp_all add: strip_escaped_loop.simps [of raw])
qed

lemma strip_escaped_splits:
  assumes "path_unescape raw = Some (pre @ t)"
  shows "\<exists>used rest. stripEscapedPathPrefix raw pre = Some rest \<and> raw = used @ rest \<and>
    path_unescape used = Some pre \<and> path_unescape rest = Some t"
proof (cases "pre = []")
  case True
  with assms show ?thesis by (auto simp: stripEscapedPathPrefix_def)
next
  case False
  with strip_escaped_complete [OF False assms] strip_escaped_sound show ?thesis
    by (fastforce simp: stripEscapedPathPrefix_def)
qed

lemma trim_suffix_iff: "has_suffix s t \<Longrightarrow> trim_suffix s t @ t = s"
  by (auto simp: go_str)

section \<open>Properties\<close>

text \<open>Compiling a pattern loses nothing: the pattern text is the compiled path, with \<open>/*\<close> after
  it exactly for a wildcard; the compiled path holds no star and is empty or absolute, and only a
  wildcard has the empty path.\<close>

theorem newPathPattern_roundtrip:
  assumes "newPathPattern raw = Inr p"
  shows "raw = path p @ (if wildcard p then ''/*'' else []) \<and> CHR ''*'' \<notin> set (path p) \<and>
    (path p = [] \<or> hd (path p) = CHR ''/'') \<and> (path p = [] \<longrightarrow> wildcard p)"
proof -
  have hd: "hd raw = CHR ''/''" "raw \<noteq> []"
    using assms by (auto simp: newPathPattern_def has_prefix_def take_Suc split: if_splits)
  have suffix: "has_suffix raw ''/*'' \<Longrightarrow> trim_suffix raw ''/*'' @ ''/*'' = raw"
    by (rule trim_suffix_iff)
  show ?thesis
  proof (cases "has_suffix raw ''/*''")
    case True
    then obtain q where q: "raw = q @ ''/*''" by (auto simp: has_suffix_iff)
    then have "trim_suffix raw ''/*'' = q" by simp
    with assms hd q True show ?thesis
      by (cases q) (auto simp: newPathPattern_def contains_byte_def Let_def split: if_splits)
  next
    case False
    moreover have "has_suffix ''/*'' ''/*''" by (simp add: has_suffix_def)
    ultimately show ?thesis
      using assms hd by (auto simp: newPathPattern_def contains_byte_def Let_def split: if_splits)
  qed
qed

theorem newPathPattern_roundtrip_witness:
  "''/api/*'' = ''/api'' @ ''/*'' \<and> CHR ''*'' \<notin> set ''/api''"
proof -
  have "newPathPattern ''/api/*'' =
      Inr \<lparr>path = ''/api'', rawPath = escapedURLPath ''/api'', wildcard = True, depth = pathDepth ''/api''\<rparr>"
    by (simp add: newPathPattern_def has_prefix_def has_suffix_def trim_suffix_def contains_byte_def
        less_char_def Let_def)
  from newPathPattern_roundtrip [OF this] show ?thesis by simp
qed

text \<open>C21. Stripping a percent-encoded prefix is exact: whenever the raw path decodes to the prefix
  followed by \<open>t\<close>, the code finds a suffix of the raw path, and that suffix decodes to \<open>t\<close>,
  however the prefix was encoded.\<close>

theorem stripEscapedPathPrefix_exact:
  assumes "path_unescape raw = Some (pre @ t)"
  shows "\<exists>used rest. stripEscapedPathPrefix raw pre = Some rest \<and> raw = used @ rest \<and>
    path_unescape used = Some pre \<and> path_unescape rest = Some t"
  by (rule strip_escaped_splits [OF assms])

theorem stripEscapedPathPrefix_exact_witness:
  "\<exists>used rest. stripEscapedPathPrefix ''/%61pi/x%2Fy'' ''/api'' = Some rest \<and>
     ''/%61pi/x%2Fy'' = used @ rest \<and> path_unescape used = Some ''/api'' \<and>
     path_unescape rest = Some ''/x/y''"
  by (rule stripEscapedPathPrefix_exact) code_simp

text \<open>After \<open>strip\<close> the two forms of the request path still agree: if the raw path decoded to
  the path and the path starts with the prefix, then the new raw path is empty or decodes to the
  new path, and the new path is never empty.\<close>

theorem stripRequestPath_consistent:
  assumes "path_unescape (RawPath u) = Some (Path u)" and "Path u = pre @ t"
    and "Path u \<noteq> []"
  shows "(RawPath (stripRequestPath u pre) = [] \<or>
      path_unescape (RawPath (stripRequestPath u pre)) = Some (Path (stripRequestPath u pre))) \<and>
    Path (stripRequestPath u pre) = (if t = [] then ''/'' else t)"
proof (cases "pre = []")
  case True
  with assms show ?thesis by (simp add: stripRequestPath_def stripPathPrefix_def Let_def)
next
  case False
  from assms have "path_unescape (RawPath u) = Some (pre @ t)" by simp
  from strip_escaped_splits [OF this] obtain rest where
    r: "stripEscapedPathPrefix (RawPath u) pre = Some rest" "path_unescape rest = Some t" by blast
  have "t = [] \<Longrightarrow> rest = []" using r(2) by (simp add: path_unescape_Nil_iff)
  with r False assms show ?thesis
    by (auto simp: stripRequestPath_def stripPathPrefix_def Let_def)
qed

definition demo_url :: url where
  "demo_url = \<lparr>Scheme = ''http'', UHost = ''h'', Path = ''/api/a b'', RawPath = ''/%61pi/a%20b'',
     RawQuery = [], ForceQuery = False\<rparr>"

theorem stripRequestPath_consistent_witness:
  "Path (stripRequestPath demo_url ''/api'') = ''/a b''"
proof -
  have "path_unescape (RawPath demo_url) = Some (Path demo_url)" by code_simp
  moreover have "Path demo_url = ''/api'' @ ''/a b''" "Path demo_url \<noteq> []"
    by (simp_all add: demo_url_def)
  ultimately show ?thesis
    using stripRequestPath_consistent [of demo_url "''/api''" "''/a b''"] by simp
qed

text \<open>What a wildcard matched beyond its own path.\<close>

definition matched_suffix :: "pathPattern \<Rightarrow> string \<Rightarrow> string" where
  "matched_suffix source p = (if wildcard source then drop (length (path source)) p else [])"

text \<open>A raw path that is a usable encoding of a path: not empty, only bytes a raw path may hold, and
  decoding to the path.\<close>

definition encodes :: "string \<Rightarrow> string \<Rightarrow> bool" where
  "encodes raw p \<longleftrightarrow> raw \<noteq> [] \<and> valid_encoded raw \<and> path_unescape raw = Some p"

lemma valid_encoded_append [simp]: "valid_encoded (a @ b) \<longleftrightarrow> valid_encoded a \<and> valid_encoded b"
  by (simp add: valid_encoded_def)

lemma upper_hex_kept: "n < 16 \<Longrightarrow> path_keeps (upper_hex n)"
proof -
  assume "n < 16"
  then consider "n < 10" | "n \<in> {10..15}" by fastforce
  then show ?thesis
  proof cases
    case 1
    then have "n \<in> {0,1,2,3,4,5,6,7,8,9}" by auto
    then show ?thesis by (auto simp: upper_hex_def path_keeps_def is_digit_def less_eq_char_def)
  next
    case 2
    then have "n \<in> {10,11,12,13,14,15}" by auto
    then show ?thesis by (auto simp: upper_hex_def path_keeps_def is_upper_def less_eq_char_def)
  qed
qed

lemma path_escape_valid: "valid_encoded (path_escape s)"
proof (induction s)
  case Nil
  then show ?case by (simp add: valid_encoded_def)
next
  case (Cons c s)
  have "of_char c < (16::nat) * 16" using nat_of_char_less_256 [of c] by simp
  then have "of_char c div 16 < (16::nat)" "of_char c mod 16 < (16::nat)"
    by (simp_all add: less_mult_imp_div_less)
  with Cons show ?case by (simp add: valid_encoded_def upper_hex_kept)
qed

text \<open>The test of the code says exactly that.\<close>

lemma validRawPath_encodes: "validRawPath p raw \<longleftrightarrow> encodes raw p"
proof -
  have "valid_encoded ''*''" by (simp add: valid_encoded_def)
  then show ?thesis
    using path_escape_valid [of p]
    by (auto simp: validRawPath_def encodes_def escaped_path_def split: if_splits)
qed

lemma newPathPattern_rawPath:
  assumes "newPathPattern text = Inr p"
  shows "rawPath p = path_escape (path p)" "path p = [] \<longrightarrow> wildcard p"
proof -
  have "''*'' \<noteq> q" if "\<not> contains_byte q CHR ''*''" for q using that by (auto simp: contains_byte_def)
  with assms show "rawPath p = path_escape (path p)"
    by (auto simp: newPathPattern_def escapedURLPath_def escaped_path_def Let_def split: if_splits)
  show "path p = [] \<longrightarrow> wildcard p" using assms by (auto simp: newPathPattern_def Let_def split: if_splits)
qed

lemma matched_splits:
  assumes "pattern_match source p = Some m"
  shows "p = path source @ matched_suffix source p"
    and "(if wildcard source then trim_prefix p (path source) else []) = matched_suffix source p"
  using assms by (auto simp: pattern_match_def matched_suffix_def trim_prefix_def go_str split: if_splits)

text \<open>The raw path written for an incoming raw path that encodes the incoming path.\<close>

lemma rewriteRawPath_keeps:
  assumes e: "encodes (RawPath inu) (Path inu)" and m: "pattern_match source (Path inu) = Some m"
    and d: "rawPath destination = path_escape (path destination)"
    and full: "full = path destination @ (if wildcard destination then matched_suffix source (Path inu) else [])"
    and p: "p = (if full = [] then ''/'' else full)"
  shows "\<exists>used rest. RawPath inu = used @ rest \<and> path_unescape used = Some (path source) \<and>
    path_unescape rest = Some (matched_suffix source (Path inu)) \<and>
    rewriteRawPath inu source destination p =
      (if full = [] then [] else path_escape (path destination) @ (if wildcard destination then rest else []))"
proof -
  let ?s = "matched_suffix source (Path inu)"
  from e matched_splits(1) [OF m] have "path_unescape (RawPath inu) = Some (path source @ ?s)"
    by (simp add: encodes_def)
  from strip_escaped_splits [OF this] obtain used rest where
    r: "stripEscapedPathPrefix (RawPath inu) (path source) = Some rest" "RawPath inu = used @ rest"
      "path_unescape used = Some (path source)" "path_unescape rest = Some ?s" by blast
  have rest: "rest = []" if "\<not> wildcard source"
    using r(4) that by (simp add: matched_suffix_def path_unescape_Nil_iff)
  let ?raw = "path_escape (path destination) @ (if wildcard destination then rest else [])"
  have dec: "path_unescape ?raw = Some full"
    using path_unescape_append [OF path_escape_roundtrip [of "path destination"]] r(4) full by simp
  have "valid_encoded rest" using e r(2) by (simp add: encodes_def)
  then have val: "valid_encoded ?raw" using path_escape_valid by (simp add: valid_encoded_def)
  have "?raw \<noteq> [] \<longleftrightarrow> full \<noteq> []" using dec path_unescape_Nil_iff [of ?raw] by fastforce
  with dec val have enc: "encodes ?raw p \<longleftrightarrow> full \<noteq> []" using p by (auto simp: encodes_def)
  have "(if wildcard source then stripEscapedPathPrefix (RawPath inu) (path source) else Some []) = Some rest"
    using r(1) rest by simp
  moreover have "RawPath inu \<noteq> []" using e by (simp add: encodes_def)
  ultimately have "rewriteRawPath inu source destination p = (if encodes ?raw p then ?raw else [])"
    unfolding rewriteRawPath_def validRawPath_encodes d Let_def using e by simp
  with r enc show ?thesis by auto
qed

text \<open>C22. A rewrite replaces the matched part and keeps the rest, in both forms of the path. The
  outgoing path is the destination followed, for wildcards, by what the source wildcard matched,
  and \<open>/\<close> when that is empty. When the incoming raw path is a usable encoding of the incoming path,
  it splits into an encoding of the source path and the bytes after it, and the outgoing raw path is
  the escaped destination followed, for a wildcard, by exactly those bytes (so a \<open>%2F\<close> in the suffix
  stays one), it encodes the outgoing path and the URL printer emits it unchanged; it is empty only
  where the result was. When the incoming raw path is missing or unusable, it is cleared. The rest of
  the URL is untouched.\<close>

theorem rewriteProxyPath_spec:
  assumes "pattern_match source (Path inu) = Some m" and "newPathPattern text = Inr destination"
  shows "let out = rewriteProxyPath outu inu source destination;
             suffix = matched_suffix source (Path inu);
             full = path destination @ (if wildcard destination then suffix else [])
    in Path out = (if full = [] then ''/'' else full) \<and>
       (if encodes (RawPath inu) (Path inu) \<and> full \<noteq> []
        then encodes (RawPath out) (Path out) \<and> url_escaped_path out = RawPath out \<and>
             (\<exists>used rest. RawPath inu = used @ rest \<and> path_unescape used = Some (path source) \<and>
               path_unescape rest = Some suffix \<and>
               RawPath out = path_escape (path destination) @ (if wildcard destination then rest else []))
        else RawPath out = []) \<and>
       UHost out = UHost outu \<and> Scheme out = Scheme outu \<and> RawQuery out = RawQuery outu \<and>
       ForceQuery out = ForceQuery outu"
proof -
  let ?out = "rewriteProxyPath outu inu source destination"
  define full where "full = path destination @ (if wildcard destination then matched_suffix source (Path inu) else [])"
  define p where "p = (if full = [] then ''/'' else full)"
  note raw = newPathPattern_rawPath [OF assms(2)]
  have out: "?out = outu\<lparr>Path := p, RawPath := rewriteRawPath inu source destination p\<rparr>"
    using matched_splits(2) [OF assms(1)] raw(2)
    by (auto simp: rewriteProxyPath_def p_def full_def Let_def)
  have rest: "Path ?out = p" "UHost ?out = UHost outu" "Scheme ?out = Scheme outu"
    "RawQuery ?out = RawQuery outu" "ForceQuery ?out = ForceQuery outu"
    by (simp_all add: out)
  have R: "RawPath ?out = rewriteRawPath inu source destination p" by (simp add: out)
  have lost: "RawPath ?out = []" if "\<not> encodes (RawPath inu) (Path inu)"
    using that by (simp add: R rewriteRawPath_def validRawPath_encodes)
  have kept: "encodes (RawPath ?out) (Path ?out) \<and> url_escaped_path ?out = RawPath ?out"
    if "RawPath ?out \<noteq> []"
  proof -
    have "encodes (RawPath ?out) p"
      using that unfolding R rewriteRawPath_def validRawPath_encodes Let_def
      by (auto split: option.splits if_splits)
    then show ?thesis using rest(1) by (simp add: url_escaped_path_def escaped_path_def encodes_def)
  qed
  have split: "\<exists>used rest. RawPath inu = used @ rest \<and> path_unescape used = Some (path source) \<and>
      path_unescape rest = Some (matched_suffix source (Path inu)) \<and> RawPath ?out =
        (if full = [] then [] else path_escape (path destination) @ (if wildcard destination then rest else []))"
    if "encodes (RawPath inu) (Path inu)"
    unfolding R by (rule rewriteRawPath_keeps [OF that assms(1) raw(1) full_def p_def])
  have filled: "RawPath ?out \<noteq> []" if e: "encodes (RawPath inu) (Path inu)" and "full \<noteq> []"
  proof
    assume "RawPath ?out = []"
    with split [OF e] \<open>full \<noteq> []\<close> obtain used rest where
      "path_unescape rest = Some (matched_suffix source (Path inu))"
      "path_escape (path destination) = []" "wildcard destination \<longrightarrow> rest = []"
      by (auto split: if_splits)
    with path_escape_roundtrip [of "path destination"] \<open>full \<noteq> []\<close> show False
      by (auto simp: full_def split: if_splits)
  qed
  have shape: "if encodes (RawPath inu) (Path inu) \<and> full \<noteq> []
    then encodes (RawPath ?out) (Path ?out) \<and> url_escaped_path ?out = RawPath ?out \<and>
         (\<exists>used rest. RawPath inu = used @ rest \<and> path_unescape used = Some (path source) \<and>
           path_unescape rest = Some (matched_suffix source (Path inu)) \<and>
           RawPath ?out = path_escape (path destination) @ (if wildcard destination then rest else []))
    else RawPath ?out = []"
  proof (cases "encodes (RawPath inu) (Path inu)")
    case True
    from split [OF True] show ?thesis
      using True kept filled [OF True] by (cases "full = []") (simp_all only: if_True if_False simp_thms, auto)
  next
    case False
    with lost show ?thesis by simp
  qed
  have path: "Path ?out = (if full = [] then ''/'' else full)" unfolding p_def [symmetric] by (rule rest(1))
  show ?thesis
    unfolding Let_def full_def [symmetric] by (intro conjI path shape rest(2-5))
qed

definition demo_source :: pathPattern where
  "demo_source = \<lparr>path = ''/api'', rawPath = ''/api'', wildcard = True, depth = 1\<rparr>"

definition demo_dest :: pathPattern where
  "demo_dest = \<lparr>path = ''/v2'', rawPath = ''/v2'', wildcard = True, depth = 1\<rparr>"

definition demo_escaped :: url where
  "demo_escaped = demo_url\<lparr>Path := ''/api/a/b'', RawPath := ''/%61pi/a%2Fb''\<rparr>"

theorem rewriteProxyPath_spec_witness:
  "Path (rewriteProxyPath demo_url demo_escaped demo_source demo_dest) = ''/v2/a/b'' \<and>
   path_unescape (RawPath (rewriteProxyPath demo_url demo_escaped demo_source demo_dest)) = Some ''/v2/a/b''"
proof -
  have "pattern_match demo_source (Path demo_escaped) = Some ''/api''"
    by (simp add: pattern_match_def demo_source_def demo_escaped_def has_prefix_def)
  moreover have "newPathPattern ''/v2/*'' = Inr demo_dest"
    by code_simp
  moreover have "encodes (RawPath demo_escaped) (Path demo_escaped)" by code_simp
  ultimately show ?thesis
    using rewriteProxyPath_spec [of demo_source demo_escaped "''/api''" "''/v2/*''" demo_dest demo_url]
    by (simp add: demo_source_def demo_dest_def demo_escaped_def matched_suffix_def encodes_def Let_def)
qed

end
