(* ===== verification/HostMatch.thy ===== *)
theory HostMatch
  imports Http "HOL-Library.Product_Lexorder"
begin

text \<open>
  Host patterns and the choice of a site (\<open>src/router.go\<close>). \<open>buildHostIndex\<close> is the part of
  \<open>newRouter\<close> that fills \<open>exactHosts\<close>, \<open>wildcardHosts\<close> and \<open>starSite\<close>; \<open>selectSite\<close> answers
  with the position of the site. \<open>bestHostMatch\<close> scores one site's patterns.
\<close>

record hostPattern =
  hvalue :: string
  hwildcard :: bool
  hsuffix :: string

record hostScore =
  kind :: nat
  suffixLength :: nat

record hostIndex =
  exactHosts :: "(string, nat) map"
  wildcardHosts :: "(string, nat) map"
  starSite :: int

section \<open>Normalising and compiling host patterns\<close>

definition validatePort :: "string \<Rightarrow> unit res" where
  "validatePort port =
     (if port = [] then Inl (Err ''invalid port'' [])
      else if \<not> list_all is_digit port then Inl (Err ''invalid port'' [])
      else if dec_val 0 port > 65535 then Inl (Err ''invalid port'' [])
      else Inr ())"

definition is_bracket :: "char \<Rightarrow> bool" where
  "is_bracket c \<longleftrightarrow> c = CHR ''['' \<or> c = CHR '']''"

definition normalizeHost :: "string \<Rightarrow> string" where
  "normalizeHost raw =
     (let raw' = (if contains_byte raw CHR '':''
                  then (case split_host_port raw of Some (host, _) \<Rightarrow> host | None \<Rightarrow> raw)
                  else raw)
      in to_lower (trim_suffix (trim is_bracket raw') ''.''))"

definition normalizeConfiguredHost :: "string \<Rightarrow> string res" where
  "normalizeConfiguredHost raw =
     (case split_host_port raw of
        Some (host, port) \<Rightarrow>
          if port = [] then Inl (Err ''invalid host pattern %q'' [S raw])
          else rbind (wrap_err ''invalid host pattern %q: %w'' [S raw] (validatePort port))
                 (\<lambda>_. Inr (normalizeHost host))
      | None \<Rightarrow>
          if contains_byte raw CHR '':'' \<and> parse_addr (trim is_bracket raw) = None
          then Inl (Err ''invalid host pattern %q'' [S raw])
          else Inr (normalizeHost raw))"

definition host_label_byte :: "char \<Rightarrow> bool" where
  "host_label_byte c \<longleftrightarrow> c = CHR ''_'' \<or> c = CHR ''-'' \<or> is_lower c \<or> is_digit c"

definition validateHostName :: "string \<Rightarrow> unit res" where
  "validateHostName v =
     (if parse_addr v \<noteq> None then Inr ()
      else if list_ex (\<lambda>c. c \<in> set ''/?#:'' \<or> c = CHR 0x5C) v
      then Inl (Err ''invalid host pattern %q'' [S v])
      else if list_all (\<lambda>label. label \<noteq> [] \<and> hd label \<noteq> CHR ''-'' \<and> last label \<noteq> CHR ''-'' \<and>
             list_all host_label_byte label) (split_on CHR ''.'' v)
      then Inr ()
      else Inl (Err ''invalid host pattern %q'' [S v]))"

definition newHostPattern :: "string \<Rightarrow> hostPattern res" where
  "newHostPattern raw =
     (if raw = [] \<or> trim_space raw \<noteq> raw
      then Inl (Err ''host pattern must not be empty or contain whitespace'' [])
      else rbind (normalizeConfiguredHost raw) (\<lambda>v.
        if v = ''*'' then Inr \<lparr>hvalue = v, hwildcard = False, hsuffix = []\<rparr>
        else if v = [] then Inl (Err ''host pattern must not be empty'' [])
        else if has_prefix v ''*.'' then
          (let suf = trim_prefix v ''*.'' in
           if contains_byte suf CHR ''*''
           then Inl (Err ''wildcard host may contain only a leading *.'' [])
           else rbind (validateHostName suf)
                  (\<lambda>_. Inr \<lparr>hvalue = v, hwildcard = True, hsuffix = suf\<rparr>))
        else if contains_byte v CHR ''*''
        then Inl (Err ''wildcard host must use the *.example.com form'' [])
        else rbind (validateHostName v)
               (\<lambda>_. Inr \<lparr>hvalue = v, hwildcard = False, hsuffix = []\<rparr>)))"

fun newHostPatterns :: "nat \<Rightarrow> string list \<Rightarrow> hostPattern list res" where
  "newHostPatterns i [] = Inr []"
| "newHostPatterns i (v # vs) =
     rbind (wrap_err ''[%d] %w'' [N (int i)] (newHostPattern v)) (\<lambda>p.
     rbind (newHostPatterns (Suc i) vs) (\<lambda>ps. Inr (p # ps)))"

section \<open>Scoring\<close>

definition host_match :: "hostPattern \<Rightarrow> string \<Rightarrow> hostScore option" where
  "host_match p host =
     (if hvalue p = ''*'' then Some \<lparr>kind = 0, suffixLength = 0\<rparr>
      else if \<not> hwildcard p then
        (if hvalue p = host then Some \<lparr>kind = 2, suffixLength = 0\<rparr> else None)
      else if \<not> has_suffix host (''.'' @ hsuffix p) then None
      else (let pre = trim_suffix host (''.'' @ hsuffix p) in
            if pre = [] \<or> contains_byte pre CHR ''.'' then None
            else Some \<lparr>kind = 1, suffixLength = length (hsuffix p)\<rparr>))"

definition betterHostScore :: "hostScore \<Rightarrow> hostScore \<Rightarrow> bool" where
  "betterHostScore candidate current =
     (if kind candidate \<noteq> kind current then kind candidate > kind current
      else suffixLength candidate > suffixLength current)"

text \<open>The loop carries \<open>best\<close> and \<open>found\<close> as one option.\<close>

fun best_host_loop :: "string \<Rightarrow> hostPattern list \<Rightarrow> hostScore option \<Rightarrow> hostScore option" where
  "best_host_loop host [] best = best"
| "best_host_loop host (p # ps) best =
     (case host_match p host of
        None \<Rightarrow> best_host_loop host ps best
      | Some score \<Rightarrow>
          (case best of
             None \<Rightarrow> best_host_loop host ps (Some score)
           | Some b \<Rightarrow> best_host_loop host ps (if betterHostScore score b then Some score else Some b)))"

definition bestHostMatch :: "string \<Rightarrow> hostPattern list \<Rightarrow> hostScore option" where
  "bestHostMatch host ps = best_host_loop host ps None"

section \<open>The index over sites\<close>

definition index_host :: "nat \<Rightarrow> hostPattern \<Rightarrow> hostIndex \<Rightarrow> hostIndex" where
  "index_host i h ix =
     (if hvalue h = ''*'' then (if starSite ix < 0 then ix\<lparr>starSite := int i\<rparr> else ix)
      else if hwildcard h then
        (if wildcardHosts ix (hsuffix h) = None
         then ix\<lparr>wildcardHosts := (wildcardHosts ix)(hsuffix h \<mapsto> i)\<rparr> else ix)
      else
        (if exactHosts ix (hvalue h) = None
         then ix\<lparr>exactHosts := (exactHosts ix)(hvalue h \<mapsto> i)\<rparr> else ix))"

fun index_hosts :: "nat \<Rightarrow> hostPattern list \<Rightarrow> hostIndex \<Rightarrow> hostIndex" where
  "index_hosts i [] ix = ix"
| "index_hosts i (h # hs) ix = index_hosts i hs (index_host i h ix)"

fun index_sites :: "nat \<Rightarrow> hostPattern list list \<Rightarrow> hostIndex \<Rightarrow> hostIndex" where
  "index_sites i [] ix = ix"
| "index_sites i (hs # sites) ix = index_sites (Suc i) sites (index_hosts i hs ix)"

definition buildHostIndex :: "hostPattern list list \<Rightarrow> hostIndex" where
  "buildHostIndex sites =
     index_sites 0 sites \<lparr>exactHosts = Map.empty, wildcardHosts = Map.empty, starSite = -1\<rparr>"

text \<open>\<open>host[dot+1:]\<close> where the first dot is neither the first nor the last byte.\<close>

definition host_tail :: "string \<Rightarrow> string option" where
  "host_tail host =
     (case index_byte host CHR ''.'' of
        Some dot \<Rightarrow> if dot > 0 \<and> dot + 1 < length host then Some (drop (dot + 1) host) else None
      | None \<Rightarrow> None)"

definition selectSite :: "hostPattern list list \<Rightarrow> hostIndex \<Rightarrow> string \<Rightarrow> nat option" where
  "selectSite sites ix host =
     (if length sites = 1 then
        (case bestHostMatch host (sites ! 0) of Some _ \<Rightarrow> Some 0 | None \<Rightarrow> None)
      else case exactHosts ix host of
        Some i \<Rightarrow> Some i
      | None \<Rightarrow>
          (case (case host_tail host of Some suf \<Rightarrow> wildcardHosts ix suf | None \<Rightarrow> None) of
             Some i \<Rightarrow> Some i
           | None \<Rightarrow> if starSite ix \<ge> 0 then Some (nat (starSite ix)) else None))"

section \<open>Compiled patterns are well formed\<close>

definition wf_host :: "hostPattern \<Rightarrow> bool" where
  "wf_host p \<longleftrightarrow> hvalue p \<noteq> [] \<and> (hvalue p = ''*'' \<longrightarrow> \<not> hwildcard p) \<and>
     (hwildcard p \<longrightarrow> hvalue p = ''*.'' @ hsuffix p \<and> hsuffix p \<noteq> [])"

lemma validateHostName_nonempty: "validateHostName v = Inr u \<Longrightarrow> v \<noteq> []"
  by (auto simp: validateHostName_def parse_addr_def)

lemma newHostPattern_wf: "newHostPattern raw = Inr p \<Longrightarrow> wf_host p"
  by (auto simp: newHostPattern_def rbind_Inr_iff wf_host_def Let_def has_prefix_iff
      trim_prefix_def has_prefix_def dest: validateHostName_nonempty split: if_splits)

lemma newHostPatterns_wf: "newHostPatterns i vs = Inr ps \<Longrightarrow> \<forall>p \<in> set ps. wf_host p"
  by (induction vs arbitrary: i ps) (auto simp: rbind_Inr_iff newHostPattern_wf)

section \<open>What the index holds\<close>

definition names_exact :: "string \<Rightarrow> hostPattern list \<Rightarrow> bool" where
  "names_exact host hs \<longleftrightarrow> (\<exists>h \<in> set hs. hvalue h \<noteq> ''*'' \<and> \<not> hwildcard h \<and> hvalue h = host)"

definition names_suffix :: "string \<Rightarrow> hostPattern list \<Rightarrow> bool" where
  "names_suffix suf hs \<longleftrightarrow> (\<exists>h \<in> set hs. hvalue h \<noteq> ''*'' \<and> hwildcard h \<and> hsuffix h = suf)"

definition names_star :: "hostPattern list \<Rightarrow> bool" where
  "names_star hs \<longleftrightarrow> (\<exists>h \<in> set hs. hvalue h = ''*'')"

lemma index_host_exact:
  "exactHosts (index_host i h ix) host =
     (if exactHosts ix host = None \<and> names_exact host [h] then Some i else exactHosts ix host)"
  by (auto simp: names_exact_def index_host_def)

lemma index_host_wildcard:
  "wildcardHosts (index_host i h ix) suf =
     (if wildcardHosts ix suf = None \<and> names_suffix suf [h] then Some i else wildcardHosts ix suf)"
  by (auto simp: names_suffix_def index_host_def)

lemma index_host_star:
  "starSite (index_host i h ix) =
     (if starSite ix < 0 \<and> names_star [h] then int i else starSite ix)"
  by (auto simp: names_star_def index_host_def)

lemma names_Cons:
  "names_exact host (h # hs) \<longleftrightarrow> names_exact host [h] \<or> names_exact host hs"
  "names_suffix host (h # hs) \<longleftrightarrow> names_suffix host [h] \<or> names_suffix host hs"
  "names_star (h # hs) \<longleftrightarrow> names_star [h] \<or> names_star hs"
  by (auto simp: names_exact_def names_suffix_def names_star_def)

lemma names_Nil [simp]:
  "\<not> names_exact host []" "\<not> names_suffix host []" "\<not> names_star []"
  by (auto simp: names_exact_def names_suffix_def names_star_def)

lemma map_option_shift: "map_option ((+) (Suc i)) x = map_option (\<lambda>j. Suc (i + j)) x"
  by (cases x) auto

lemma index_hosts_exact:
  "exactHosts (index_hosts i hs ix) host =
     (if exactHosts ix host = None \<and> names_exact host hs then Some i else exactHosts ix host)"
proof (induction i hs ix rule: index_hosts.induct)
  case (2 i h hs ix)
  then show ?case by (simp add: index_host_exact names_Cons(1) [of _ h hs] names_Cons(2) [of _ h hs] names_Cons(3) [of h hs])
qed simp

lemma index_hosts_wildcard:
  "wildcardHosts (index_hosts i hs ix) suf =
     (if wildcardHosts ix suf = None \<and> names_suffix suf hs then Some i else wildcardHosts ix suf)"
proof (induction i hs ix rule: index_hosts.induct)
  case (2 i h hs ix)
  then show ?case by (simp add: index_host_wildcard names_Cons(1) [of _ h hs] names_Cons(2) [of _ h hs] names_Cons(3) [of h hs])
qed simp

lemma index_hosts_star:
  "starSite (index_hosts i hs ix) =
     (if starSite ix < 0 \<and> names_star hs then int i else starSite ix)"
proof (induction i hs ix rule: index_hosts.induct)
  case (2 i h hs ix)
  then show ?case by (simp add: index_host_star names_Cons(1) [of _ h hs] names_Cons(2) [of _ h hs] names_Cons(3) [of h hs])
qed simp

lemma index_sites_exact:
  "exactHosts (index_sites i sites ix) host =
     (case exactHosts ix host of Some j \<Rightarrow> Some j
      | None \<Rightarrow> map_option ((+) i) (first_index (names_exact host) sites))"
  by (induction i sites ix rule: index_sites.induct)
     (auto simp: index_hosts_exact option.map_comp o_def map_option_shift split: option.splits)

lemma index_sites_wildcard:
  "wildcardHosts (index_sites i sites ix) suf =
     (case wildcardHosts ix suf of Some j \<Rightarrow> Some j
      | None \<Rightarrow> map_option ((+) i) (first_index (names_suffix suf) sites))"
  by (induction i sites ix rule: index_sites.induct)
     (auto simp: index_hosts_wildcard option.map_comp o_def map_option_shift split: option.splits)

lemma index_sites_star:
  "starSite (index_sites i sites ix) =
     (if starSite ix < 0 then
        (case first_index names_star sites of None \<Rightarrow> starSite ix | Some j \<Rightarrow> int (i + j))
      else starSite ix)"
  by (induction i sites ix rule: index_sites.induct)
     (auto simp: index_hosts_star split: option.splits)

section \<open>Scores in terms of the patterns\<close>

lemma host_tail_iff:
  assumes "s \<noteq> []"
  shows "host_tail host = Some s \<longleftrightarrow> (\<exists>pre. host = pre @ ''.'' @ s \<and> pre \<noteq> [] \<and> CHR ''.'' \<notin> set pre)"
proof
  assume "host_tail host = Some s"
  then obtain d where d: "index_byte host CHR ''.'' = Some d" "d > 0" "s = drop (d + 1) host"
    by (auto simp: host_tail_def split: option.splits if_splits)
  then have "host = take d host @ ''.'' @ s" "CHR ''.'' \<notin> set (take d host)" "take d host \<noteq> []"
    using id_take_nth_drop [of d host] by (auto simp: index_byte_Some_iff)
  then show "\<exists>pre. host = pre @ ''.'' @ s \<and> pre \<noteq> [] \<and> CHR ''.'' \<notin> set pre" by blast
next
  assume "\<exists>pre. host = pre @ ''.'' @ s \<and> pre \<noteq> [] \<and> CHR ''.'' \<notin> set pre"
  then obtain pre where p: "host = pre @ ''.'' @ s" "pre \<noteq> []" "CHR ''.'' \<notin> set pre" by blast
  then have "index_byte host CHR ''.'' = Some (length pre)"
    by (auto simp: index_byte_Some_iff nth_append)
  with p assms show "host_tail host = Some s" by (simp add: host_tail_def)
qed

lemma host_match_wildcard:
  assumes "wf_host h" and "hwildcard h"
  shows "host_match h host =
     (if host_tail host = Some (hsuffix h) then Some \<lparr>kind = 1, suffixLength = length (hsuffix h)\<rparr>
      else None)"
proof -
  have ne: "hsuffix h \<noteq> []" "hvalue h \<noteq> ''*''" using assms by (auto simp: wf_host_def)
  show ?thesis
  proof (cases "has_suffix host (''.'' @ hsuffix h)")
    case True
    then obtain pre where pre: "host = pre @ (''.'' @ hsuffix h)" by (auto simp: has_suffix_iff)
    then have "trim_suffix host (''.'' @ hsuffix h) = pre" by (metis trim_suffix_append)
    with True pre ne assms show ?thesis
      by (auto simp: host_match_def host_tail_iff contains_byte_def)
  next
    case False
    then have "host_tail host \<noteq> Some (hsuffix h)"
      using ne by (auto simp: host_tail_iff has_suffix_iff)
    with False ne assms show ?thesis by (simp add: host_match_def)
  qed
qed

definition names_tail :: "string \<Rightarrow> hostPattern list \<Rightarrow> bool" where
  "names_tail host hs \<longleftrightarrow> (\<exists>suf. host_tail host = Some suf \<and> names_suffix suf hs)"

definition score_of :: "string \<Rightarrow> hostPattern list \<Rightarrow> hostScore option" where
  "score_of host hs =
     (if names_exact host hs then Some \<lparr>kind = 2, suffixLength = 0\<rparr>
      else if names_tail host hs then Some \<lparr>kind = 1, suffixLength = length (the (host_tail host))\<rparr>
      else if names_star hs then Some \<lparr>kind = 0, suffixLength = 0\<rparr>
      else None)"

fun pick_score :: "hostScore option \<Rightarrow> hostScore option \<Rightarrow> hostScore option" where
  "pick_score None s = s"
| "pick_score b None = b"
| "pick_score (Some b) (Some s) = (if betterHostScore s b then Some s else Some b)"

lemma host_match_score: "wf_host h \<Longrightarrow> host_match h host = score_of host [h]"
  by (cases "hwildcard h")
     (auto simp: host_match_wildcard score_of_def names_exact_def names_tail_def names_suffix_def
       names_star_def wf_host_def, auto simp: host_match_def)

lemma names_tail_Cons: "names_tail host (h # hs) \<longleftrightarrow> names_tail host [h] \<or> names_tail host hs"
  by (auto simp: names_tail_def names_Cons(2) [of _ h hs])

lemma pick_score_append:
  "pick_score (score_of host gs) (score_of host [h]) = score_of host (gs @ [h])"
proof -
  have "names_exact host (gs @ [h]) \<longleftrightarrow> names_exact host gs \<or> names_exact host [h]"
    "names_tail host (gs @ [h]) \<longleftrightarrow> names_tail host gs \<or> names_tail host [h]"
    "names_star (gs @ [h]) \<longleftrightarrow> names_star gs \<or> names_star [h]"
    by (auto simp: names_exact_def names_tail_def names_suffix_def names_star_def)
  then show ?thesis by (simp add: score_of_def betterHostScore_def)
qed

lemma best_host_loop_pick:
  "best_host_loop host (p # ps) best = best_host_loop host ps (pick_score best (host_match p host))"
  by (cases best) (auto split: option.splits)

lemma best_host_loop_score:
  "\<forall>h \<in> set hs. wf_host h \<Longrightarrow> best_host_loop host hs (score_of host gs) = score_of host (gs @ hs)"
proof (induction hs arbitrary: gs)
  case Nil
  then show ?case by simp
next
  case (Cons h hs)
  then have "best_host_loop host (h # hs) (score_of host gs)
      = best_host_loop host hs (score_of host (gs @ [h]))"
    unfolding best_host_loop_pick by (simp add: host_match_score pick_score_append)
  with Cons show ?case by simp
qed

lemma bestHostMatch_score: "\<forall>h \<in> set hs. wf_host h \<Longrightarrow> bestHostMatch host hs = score_of host hs"
  using best_host_loop_score [of hs host "[]"]
  by (simp add: bestHostMatch_def score_of_def names_tail_def)

text \<open>Seen as a choice: the score of a list of patterns is the best of the scores of its members.\<close>

definition host_key :: "hostScore \<Rightarrow> nat \<times> nat" where
  "host_key s = (kind s, suffixLength s)"

interpretation host_order: preference betterHostScore host_key
  by unfold_locales (auto simp: betterHostScore_def host_key_def less_prod_def')

lemma best_host_loop_improves:
  "best_host_loop host ps best =
     foldl (improve_by betterHostScore) best (List.map_filter (\<lambda>p. host_match p host) ps)"
  by (induction ps arbitrary: best)
     (auto simp: map_filter_simps improve_by_def split: option.splits)

lemma bestHostMatch_best:
  "best_among host_key {s. \<exists>p \<in> set ps. host_match p host = Some s} (bestHostMatch host ps)"
proof -
  have "set (List.map_filter (\<lambda>p. host_match p host) ps) = {s. \<exists>p \<in> set ps. host_match p host = Some s}"
    by (induction ps) (auto simp: map_filter_simps split: option.splits)
  then show ?thesis
    using host_order.best_of_list [of "List.map_filter (\<lambda>p. host_match p host) ps"]
    by (simp add: bestHostMatch_def best_host_loop_improves)
qed

section \<open>The index agrees with a scan\<close>

lemma selectSite_first:
  assumes "\<forall>hs \<in> set sites. \<forall>h \<in> set hs. wf_host h"
  shows "selectSite sites (buildHostIndex sites) host =
     (case first_index (names_exact host) sites of
        Some i \<Rightarrow> Some i
      | None \<Rightarrow> (case first_index (names_tail host) sites of
                   Some i \<Rightarrow> Some i
                 | None \<Rightarrow> first_index names_star sites))"
proof (cases "length sites = 1")
  case True
  then obtain hs where "sites = [hs]" by (auto simp: length_Suc_conv)
  with assms show ?thesis by (simp add: selectSite_def bestHostMatch_score) (simp add: score_of_def)
next
  case False
  have t: "(case host_tail host of Some suf \<Rightarrow> first_index (names_suffix suf) sites | None \<Rightarrow> None)
      = first_index (names_tail host) sites"
    by (cases "host_tail host") (auto simp: names_tail_def first_index_None_iff [THEN iffD2] fun_eq_iff
        cong: option.case_cong intro!: arg_cong [of _ _ "\<lambda>P. first_index P sites"])
  with False show ?thesis
    by (auto simp: selectSite_def buildHostIndex_def index_sites_exact index_sites_wildcard
        index_sites_star option.map_id0 [unfolded id_def] split: option.splits)
qed

text \<open>The specification: site \<open>i\<close> matches, no site scores better, and no earlier site scores as well.\<close>

definition best_site :: "string \<Rightarrow> hostPattern list list \<Rightarrow> nat \<Rightarrow> bool" where
  "best_site host sites i \<longleftrightarrow> i < length sites \<and>
     (\<exists>sc. bestHostMatch host (sites ! i) = Some sc \<and>
        (\<forall>j < length sites. \<forall>sc'. bestHostMatch host (sites ! j) = Some sc' \<longrightarrow>
           \<not> betterHostScore sc' sc \<and> (j < i \<longrightarrow> betterHostScore sc sc')))"

lemma best_site_unique: "best_site host sites i \<Longrightarrow> best_site host sites j \<Longrightarrow> i = j"
proof (induction i j rule: linorder_wlog)
  case (le i j)
  show ?case
  proof (rule ccontr)
    assume "i \<noteq> j"
    with le have "i < j" by simp
    from le obtain a b where "i < length sites" "j < length sites"
      "bestHostMatch host (sites ! i) = Some a" "bestHostMatch host (sites ! j) = Some b"
      and a: "\<And>k sc. k < length sites \<Longrightarrow> bestHostMatch host (sites ! k) = Some sc \<Longrightarrow> \<not> betterHostScore sc a"
      and b: "\<And>k sc. k < j \<Longrightarrow> k < length sites \<Longrightarrow> bestHostMatch host (sites ! k) = Some sc \<Longrightarrow>
        betterHostScore b sc"
      unfolding best_site_def by blast
    with \<open>i < j\<close> show False by blast
  qed
next
  case (sym i j)
  then show ?case by blast
qed

lemma selectSite_best:
  assumes wf: "\<forall>hs \<in> set sites. \<forall>h \<in> set hs. wf_host h"
    and sel: "selectSite sites (buildHostIndex sites) host = Some i"
  shows "best_site host sites i"
proof -
  have sc: "bestHostMatch host (sites ! j) = score_of host (sites ! j)" if "j < length sites" for j
    using wf that by (intro bestHostMatch_score) auto
  note first = sel [unfolded selectSite_first [OF wf]]
  show ?thesis
  proof (cases "first_index (names_exact host) sites")
    case (Some k)
    with first have "first_index (names_exact host) sites = Some i" by simp
    then show ?thesis
      by (auto simp: best_site_def first_index_Some_iff sc score_of_def betterHostScore_def
          split: if_splits)
  next
    case None
    then have no: "\<not> names_exact host (sites ! j)" if "j < length sites" for j
      using that by (simp add: first_index_None_iff)
    show ?thesis
    proof (cases "first_index (names_tail host) sites")
      case (Some k)
      with first None have "first_index (names_tail host) sites = Some i" by simp
      then show ?thesis
        by (auto simp: best_site_def first_index_Some_iff sc score_of_def betterHostScore_def no
            split: if_splits)
    next
      case None': None
      then have no': "\<not> names_tail host (sites ! j)" if "j < length sites" for j
        using that by (simp add: first_index_None_iff)
      with first None None' have "first_index names_star sites = Some i" by simp
      then show ?thesis
        by (auto simp: best_site_def first_index_Some_iff sc score_of_def betterHostScore_def no no'
            split: if_splits)
    qed
  qed
qed

lemma selectSite_none:
  assumes wf: "\<forall>hs \<in> set sites. \<forall>h \<in> set hs. wf_host h"
  shows "selectSite sites (buildHostIndex sites) host = None \<longleftrightarrow> (\<forall>hs \<in> set sites. bestHostMatch host hs = None)"
proof -
  have "bestHostMatch host hs = None \<longleftrightarrow> \<not> names_exact host hs \<and> \<not> names_tail host hs \<and> \<not> names_star hs"
    if "hs \<in> set sites" for hs
    using wf that by (simp add: bestHostMatch_score) (simp add: score_of_def)
  then show ?thesis
    by (auto simp: selectSite_first [OF wf] first_index_None_iff split: option.splits
        dest!: first_index_Some_ex)
qed

section \<open>Properties\<close>

text \<open>C6. The three host indexes choose the same site as comparing every pattern of every site:
  \<open>selectSite\<close> returns the earliest site whose best score no other site beats, and nothing exactly
  when no site matches.\<close>

theorem selectSite_is_best_match:
  assumes "\<forall>hs \<in> set sites. \<exists>raw. newHostPatterns 0 raw = Inr hs"
  shows "(selectSite sites (buildHostIndex sites) host = Some i \<longleftrightarrow> best_site host sites i) \<and>
    (selectSite sites (buildHostIndex sites) host = None \<longleftrightarrow>
       (\<forall>hs \<in> set sites. bestHostMatch host hs = None))"
proof -
  have wf: "\<forall>hs \<in> set sites. \<forall>h \<in> set hs. wf_host h"
    using assms newHostPatterns_wf by blast
  note none = selectSite_none [OF wf, of host]
  have "selectSite sites (buildHostIndex sites) host = Some i" if b: "best_site host sites i"
  proof (cases "selectSite sites (buildHostIndex sites) host")
    case None
    with b none show ?thesis by (force simp: best_site_def)
  next
    case (Some j)
    with selectSite_best [OF wf] best_site_unique b show ?thesis by blast
  qed
  with none selectSite_best [OF wf] show ?thesis by blast
qed

definition demo_star :: "hostPattern list" where
  "demo_star = [\<lparr>hvalue = ''*'', hwildcard = False, hsuffix = []\<rparr>]"

definition demo_wild :: "hostPattern list" where
  "demo_wild = [\<lparr>hvalue = ''*.b.c'', hwildcard = True, hsuffix = ''b.c''\<rparr>]"

theorem selectSite_is_best_match_witness:
  "best_site ''a.b.c'' [demo_star, demo_wild] 1"
proof -
  have "newHostPatterns 0 [''*''] = Inr demo_star" by code_simp
  moreover have "newHostPatterns 0 [''*.b.c''] = Inr demo_wild" by code_simp
  ultimately have "\<exists>raw. newHostPatterns 0 raw = Inr demo_star" "\<exists>raw. newHostPatterns 0 raw = Inr demo_wild"
    by blast+
  then have "\<forall>hs \<in> set [demo_star, demo_wild]. \<exists>raw. newHostPatterns 0 raw = Inr hs"
    by simp
  moreover have "selectSite [demo_star, demo_wild] (buildHostIndex [demo_star, demo_wild]) ''a.b.c'' = Some 1"
    by code_simp
  ultimately show ?thesis
    using selectSite_is_best_match [of "[demo_star, demo_wild]" "''a.b.c''" 1] by blast
qed

end
