(* ===== verification/ClientIP.thy ===== *)
theory ClientIP
  imports Http
begin

text \<open>
  Trusted proxies and the client address: the prefix lists of \<open>src/router.go\<close>
  (\<open>parseTrustedProxies\<close>, \<open>normalizeIPPrefix\<close>, \<open>normalizeRouteMatchPrefixes\<close>,
  \<open>effectiveClientIP\<close>) and the forwarding headers of \<open>src/proxy.go\<close> (\<open>peerAddress\<close>,
  \<open>isTrustedProxy\<close>, \<open>setForwardedHeaders\<close>). A zero \<open>netip.Addr\<close> is \<open>InvalidAddr\<close>; the pair
  \<open>(address, false)\<close> of \<open>effectiveClientIP\<close> is \<open>None\<close>.
\<close>

section \<open>Prefix lists\<close>

definition normalizeIPPrefix :: "ip_prefix \<Rightarrow> ip_prefix" where
  "normalizeIPPrefix p =
     (let address = paddr p; bits = pbits p in
      if is4in6 address \<and> bits \<ge> 96
      then prefix_masked (prefix_from (unmap address) (bits - 96))
      else prefix_masked (prefix_from address bits))"

fun parse_trusted_from :: "nat \<Rightarrow> string list \<Rightarrow> ip_prefix list res" where
  "parse_trusted_from i [] = Inr []"
| "parse_trusted_from i (v # vs) =
     (if \<not> contains_byte v CHR ''/'' then Inl (Err ''trustProxies[%d] must be a CIDR'' [N (int i)])
      else (case parse_prefix v of
              None \<Rightarrow> Inl (Err ''trustProxies[%d] %q'' [N (int i), S v])
            | Some p \<Rightarrow>
                rbind (parse_trusted_from (Suc i) vs) (\<lambda>ps. Inr (normalizeIPPrefix p # ps))))"

definition parseTrustedProxies :: "string list \<Rightarrow> ip_prefix list res" where
  "parseTrustedProxies raw = parse_trusted_from 0 raw"

fun normalize_from :: "nat \<Rightarrow> ip_prefix list \<Rightarrow> ip_prefix list \<Rightarrow> ip_prefix list res" where
  "normalize_from i seen [] = Inr []"
| "normalize_from i seen (p # ps) =
     (let q = normalizeIPPrefix p in
      if q \<in> set seen then Inl (Err ''duplicate prefix at index %d'' [N (int i)])
      else rbind (normalize_from (Suc i) (q # seen) ps) (\<lambda>qs. Inr (q # qs)))"

definition normalizeRouteMatchPrefixes :: "ip_prefix list \<Rightarrow> ip_prefix list res" where
  "normalizeRouteMatchPrefixes ps = normalize_from 0 [] ps"

fun parse_match_from :: "nat \<Rightarrow> string list \<Rightarrow> ip_prefix list res" where
  "parse_match_from i [] = Inr []"
| "parse_match_from i (v # vs) =
     (case parse_prefix v of
        None \<Rightarrow> Inl (Err ''item %d must be a CIDR'' [N (int i)])
      | Some p \<Rightarrow> rbind (parse_match_from (Suc i) vs) (\<lambda>ps. Inr (p # ps)))"

definition parseRouteMatchPrefixes :: "string list \<Rightarrow> ip_prefix list res" where
  "parseRouteMatchPrefixes raw = rbind (parse_match_from 0 raw) normalizeRouteMatchPrefixes"

section \<open>The peer and the forwarded chain\<close>

definition isTrustedProxy :: "addr \<Rightarrow> ip_prefix list \<Rightarrow> bool" where
  "isTrustedProxy a prefixes \<longleftrightarrow> list_ex (\<lambda>p. prefix_contains p (unmap a)) prefixes"

definition is_bracket_byte :: "char \<Rightarrow> bool" where
  "is_bracket_byte c \<longleftrightarrow> c = CHR ''['' \<or> c = CHR '']''"

definition peerAddress :: "string \<Rightarrow> addr \<times> string" where
  "peerAddress remote =
     (let host = (case split_host_port remote of Some (h, _) \<Rightarrow> h | None \<Rightarrow> remote)
      in case parse_addr (trim is_bracket_byte host) of
           None \<Rightarrow> (InvalidAddr, [])
         | Some a \<Rightarrow> (without_zone a, addr_string (without_zone a)))"

definition is_blank :: "char \<Rightarrow> bool" where
  "is_blank c \<longleftrightarrow> c = CHR '' '' \<or> c = CHR 0x09"

definition forwarded_token :: "string \<Rightarrow> addr option" where
  "forwarded_token token =
     (case parse_addr (trim is_blank token) of
        None \<Rightarrow> None
      | Some a \<Rightarrow> if addr_zone a \<noteq> [] then None else Some (unmap a))"

text \<open>The two nested loops: every token of every value must be an address.\<close>

fun forwarded_tokens :: "string list \<Rightarrow> addr list option" where
  "forwarded_tokens [] = Some []"
| "forwarded_tokens (t # ts) =
     (case forwarded_token t of
        None \<Rightarrow> None
      | Some a \<Rightarrow> map_option ((#) a) (forwarded_tokens ts))"

definition forwarded_chain :: "string list \<Rightarrow> addr list option" where
  "forwarded_chain values = forwarded_tokens (concat (map (split_on CHR '','') values))"

text \<open>The backwards scan: the last address that is no trusted proxy.\<close>

fun last_untrusted :: "ip_prefix list \<Rightarrow> addr list \<Rightarrow> addr option" where
  "last_untrusted trust [] = None"
| "last_untrusted trust (a # as) =
     (case last_untrusted trust as of
        Some b \<Rightarrow> Some b
      | None \<Rightarrow> if isTrustedProxy a trust then None else Some a)"

definition effectiveClientIP :: "request \<Rightarrow> ip_prefix list \<Rightarrow> addr option" where
  "effectiveClientIP req trust =
     (let peer = fst (peerAddress (RemoteAddr req)) in
      if \<not> addr_valid peer then None
      else if \<not> isTrustedProxy (unmap peer) trust then Some (unmap peer)
      else (let values = header_values (Header req) ''X-Forwarded-For'' in
            if values = [] then None
            else (case forwarded_chain values of
                    None \<Rightarrow> None
                  | Some chain \<Rightarrow> last_untrusted trust chain)))"

section \<open>Forwarding headers\<close>

definition firstHeaderValue :: "header \<Rightarrow> string \<Rightarrow> string option" where
  "firstHeaderValue h name = (case header_values h name of [] \<Rightarrow> None | v # _ \<Rightarrow> Some v)"

definition requestProtocol :: "request \<Rightarrow> string" where
  "requestProtocol req = (if is_tls req then ''https'' else ''http'')"

definition setForwardedHeaders :: "request \<Rightarrow> header \<Rightarrow> ip_prefix list \<Rightarrow> header" where
  "setForwardedHeaders inr out trust =
     (let (peer, peerText) = peerAddress (RemoteAddr inr);
          trusted = (addr_valid peer \<and> isTrustedProxy peer trust)
      in if trusted then
           (let prior0 = join_with '', '' (header_values (Header inr) ''X-Forwarded-For'');
                prior = (if peerText \<noteq> []
                         then (if prior0 \<noteq> [] then prior0 @ '', '' else prior0) @ peerText
                         else prior0);
                out1 = (if prior = [] then header_del ''X-Forwarded-For'' out
                        else header_set ''X-Forwarded-For'' prior out);
                proto = (case firstHeaderValue (Header inr) ''X-Forwarded-Proto'' of
                           Some p \<Rightarrow> p | None \<Rightarrow> requestProtocol inr);
                host = (case firstHeaderValue (Header inr) ''X-Forwarded-Host'' of
                          Some h \<Rightarrow> h | None \<Rightarrow> Host inr)
            in header_set ''X-Forwarded-Host'' host (header_set ''X-Forwarded-Proto'' proto out1))
         else
           (let out1 = (if peerText = [] then header_del ''X-Forwarded-For'' out
                        else header_set ''X-Forwarded-For'' peerText out)
            in header_set ''X-Forwarded-Host'' (Host inr)
                 (header_set ''X-Forwarded-Proto'' (requestProtocol inr) out1)))"

section \<open>Lemmas\<close>

lemma last_untrusted_Some:
  "last_untrusted trust chain = Some a \<longleftrightarrow>
     (\<exists>front later. chain = front @ a # later \<and> \<not> isTrustedProxy a trust \<and>
        (\<forall>b \<in> set later. isTrustedProxy b trust))"
proof (induction chain arbitrary: a)
  case Nil
  then show ?case by simp
next
  case (Cons c cs)
  have none: "last_untrusted trust cs = None \<longleftrightarrow> (\<forall>b \<in> set cs. isTrustedProxy b trust)"
    by (induction cs) (auto split: option.splits)
  show ?case
  proof (cases "last_untrusted trust cs")
    case None
    with none show ?thesis by (auto simp: Cons_eq_append_conv)
  next
    case (Some b)
    then have ex: "\<exists>x \<in> set cs. \<not> isTrustedProxy x trust" using none by auto
    show ?thesis
    proof
      assume "last_untrusted trust (c # cs) = Some a"
      with Some Cons.IH [of a] show "\<exists>front later. c # cs = front @ a # later \<and>
          \<not> isTrustedProxy a trust \<and> (\<forall>b \<in> set later. isTrustedProxy b trust)"
        by (metis append_Cons last_untrusted.simps(2) option.simps(5))
    next
      assume "\<exists>front later. c # cs = front @ a # later \<and>
          \<not> isTrustedProxy a trust \<and> (\<forall>b \<in> set later. isTrustedProxy b trust)"
      then obtain front later where fb: "c # cs = front @ a # later" "\<not> isTrustedProxy a trust"
        "\<forall>b \<in> set later. isTrustedProxy b trust" by blast
      with ex obtain front' where "front = c # front'" by (cases front) auto
      with fb Cons.IH [of a] Some show "last_untrusted trust (c # cs) = Some a" by auto
    qed
  qed
qed

lemma forwarded_tokens_append:
  "forwarded_tokens (ts @ us) =
     (case forwarded_tokens ts of
        None \<Rightarrow> None
      | Some as \<Rightarrow> map_option ((@) as) (forwarded_tokens us))"
  by (induction ts; cases "forwarded_tokens us") (auto split: option.splits)

lemma forwarded_chain_append:
  "forwarded_chain (vs @ ws) =
     (case forwarded_chain vs of
        None \<Rightarrow> None
      | Some as \<Rightarrow> map_option ((@) as) (forwarded_chain ws))"
  by (cases "forwarded_tokens (concat (map (split_on CHR '','') vs))")
     (simp_all add: forwarded_chain_def forwarded_tokens_append)

lemma last_untrusted_append:
  "last_untrusted trust bs = Some a \<Longrightarrow> last_untrusted trust (as @ bs) = Some a"
  by (induction as) auto

lemma effective_via_proxy:
  assumes "peerAddress (RemoteAddr req) = (peer, ptxt)" and "addr_valid peer"
    and "isTrustedProxy (unmap peer) trust"
  shows "effectiveClientIP req trust =
     (let values = header_values (Header req) ''X-Forwarded-For'' in
      if values = [] then None
      else Option.bind (forwarded_chain values) (last_untrusted trust))"
  using assms by (auto simp: effectiveClientIP_def Let_def split: option.splits)

section \<open>Properties\<close>

text \<open>Behind a trusted peer the client address is the rightmost untrusted hop of the forwarded
  chain: it is no trusted proxy, and every hop after it is one.\<close>

theorem effectiveClientIP_rightmost_untrusted:
  assumes "peerAddress (RemoteAddr req) = (peer, ptxt)" and "addr_valid peer"
    and "isTrustedProxy (unmap peer) trust"
  shows "effectiveClientIP req trust = Some a \<longleftrightarrow>
    (\<exists>front later. forwarded_chain (header_values (Header req) ''X-Forwarded-For'') = Some (front @ a # later) \<and>
       \<not> isTrustedProxy a trust \<and> (\<forall>b \<in> set later. isTrustedProxy b trust))"
proof -
  have "forwarded_chain [] = Some []" by (simp add: forwarded_chain_def)
  then show ?thesis
    unfolding effective_via_proxy [OF assms]
    by (auto simp: Let_def bind_eq_Some_conv last_untrusted_Some)
qed

text \<open>
  What a client can do to the chain its proxies append to: put whole fields in front of it, or text in
  front of its first field. \<open>forged\<close> are the tokens it adds.
\<close>

definition forwarded_values :: "request \<Rightarrow> string list" where
  "forwarded_values req = header_values (Header req) ''X-Forwarded-For''"

definition chain_tokens :: "string list \<Rightarrow> string list" where
  "chain_tokens vals = concat (map (split_on CHR '','') vals)"

definition prepended :: "string list \<Rightarrow> string list \<Rightarrow> string list \<Rightarrow> bool" where
  "prepended forged vals vals' \<longleftrightarrow>
     (\<exists>fields. vals' = fields @ vals \<and> forged = chain_tokens fields) \<or>
     (\<exists>fields txt v vs. vals = v # vs \<and> vals' = fields @ (txt @ '','' @ v) # vs \<and>
        forged = chain_tokens (fields @ [txt]))"

lemma prepended_tokens: "prepended forged vals vals' \<Longrightarrow> chain_tokens vals' = forged @ chain_tokens vals"
  by (auto simp: prepended_def chain_tokens_def split_on_join)

lemma prepended_nonempty: "prepended forged vals vals' \<Longrightarrow> vals \<noteq> [] \<Longrightarrow> vals' \<noteq> []"
  by (auto simp: prepended_def)

lemma forwarded_tokens_None: "forwarded_tokens ts = None \<longleftrightarrow> (\<exists>t \<in> set ts. forwarded_token t = None)"
  by (induction ts) (auto split: option.splits)

text \<open>C7. A client cannot forge its address. Whenever the chain its proxies appended determines an address,
  whatever the client puts before it, as fields of its own or inside the first field, leaves that address
  in place, with one exception: if the peer is a trusted proxy and one of the added tokens is not an
  address, there is no address at all, and conditions on addresses do not match.\<close>

theorem effectiveClientIP_not_spoofable:
  assumes "prepended forged (forwarded_values req) (forwarded_values req')"
    and "RemoteAddr req' = RemoteAddr req" and "effectiveClientIP req trust = Some a"
  shows "effectiveClientIP req' trust =
    (if isTrustedProxy (unmap (fst (peerAddress (RemoteAddr req)))) trust \<and>
        (\<exists>t \<in> set forged. forwarded_token t = None)
     then None else Some a)"
proof -
  obtain peer ptxt where p: "peerAddress (RemoteAddr req) = (peer, ptxt)" by fastforce
  show ?thesis
  proof (cases "addr_valid peer \<and> isTrustedProxy (unmap peer) trust")
    case False
    with p assms(2,3) show ?thesis by (auto simp: effectiveClientIP_def Let_def)
  next
    case True
    then have t: "addr_valid peer" "isTrustedProxy (unmap peer) trust" by auto
    from assms(3) obtain chain where c: "forwarded_chain (forwarded_values req) = Some chain"
      "forwarded_values req \<noteq> []" "last_untrusted trust chain = Some a"
      unfolding effective_via_proxy [OF p t] forwarded_values_def
      by (auto simp: Let_def bind_eq_Some_conv split: if_splits)
    have p': "peerAddress (RemoteAddr req') = (peer, ptxt)" using p assms(2) by simp
    have "forwarded_chain (forwarded_values req') =
        (case forwarded_tokens forged of None \<Rightarrow> None | Some as \<Rightarrow> Some (as @ chain))"
      using c(1) prepended_tokens [OF assms(1)]
      by (simp add: forwarded_chain_def forwarded_tokens_append flip: chain_tokens_def split: option.splits)
    then show ?thesis
      using effective_via_proxy [OF p' t] prepended_nonempty [OF assms(1) c(2)] c(3) t p
        forwarded_tokens_None [of forged]
      by (auto simp: Let_def last_untrusted_append simp flip: forwarded_values_def split: option.splits)
  qed
qed

definition blank_request :: request where
  "blank_request = \<lparr>Method = ''GET'', URL = \<lparr>Scheme = [], UHost = [], Path = ''/'', RawPath = [],
     RawQuery = [], ForceQuery = False\<rparr>, Host = ''h'', Header = [], RemoteAddr = ''10.0.0.1:80'',
     RequestURI = ''/'', is_tls = False, ContentLength = 0, TransferEncoding = [], Trailer = [],
     Body = NoBody, request_id = None\<rparr>"

definition demo_trust :: "ip_prefix list" where
  "demo_trust = [\<lparr>paddr = V4 0x0A000000, pbits = 8\<rparr>]"

definition demo_hops :: "string \<Rightarrow> request" where
  "demo_hops v = blank_request\<lparr>Header := [(''X-Forwarded-For'', [v])]\<rparr>"

lemma demo_peer: "peerAddress ''10.0.0.1:80'' = (V4 0x0A000001, ''10.0.0.1'')"
  by (simp add: peerAddress_def is_bracket_byte_def addr_eval)

lemma demo_trusted: "isTrustedProxy (V4 0x0A000001) demo_trust"
  by (simp add: isTrustedProxy_def demo_trust_def)

lemma xff_key: "canonical_key ''X-Forwarded-For'' = ''X-Forwarded-For''"
  by code_simp

lemma demo_chain:
  "forwarded_chain [''8.8.8.8, 10.0.0.7''] = Some [V4 0x08080808, V4 0x0A000007]"
  by (simp add: forwarded_chain_def forwarded_token_def is_blank_def addr_eval)

lemma demo_other: "\<not> isTrustedProxy (V4 0x08080808) demo_trust" "isTrustedProxy (V4 0x0A000007) demo_trust"
  by (simp_all add: isTrustedProxy_def demo_trust_def)

theorem effectiveClientIP_rightmost_untrusted_witness:
  "effectiveClientIP (demo_hops ''8.8.8.8, 10.0.0.7'') demo_trust = Some (V4 0x08080808)"
proof -
  have "peerAddress (RemoteAddr (demo_hops ''8.8.8.8, 10.0.0.7'')) = (V4 0x0A000001, ''10.0.0.1'')"
    by (simp add: demo_hops_def blank_request_def demo_peer)
  from effectiveClientIP_rightmost_untrusted [OF this, of demo_trust "V4 0x08080808"] demo_trusted
  have "effectiveClientIP (demo_hops ''8.8.8.8, 10.0.0.7'') demo_trust = Some (V4 0x08080808) \<longleftrightarrow>
    (\<exists>front later. Some [V4 0x08080808, V4 0x0A000007] = Some (front @ V4 0x08080808 # later) \<and>
       \<not> isTrustedProxy (V4 0x08080808) demo_trust \<and> (\<forall>b \<in> set later. isTrustedProxy b demo_trust))"
    by (simp add: addr_valid_def demo_hops_def header_values_def xff_key demo_chain)
  moreover have "Some [V4 0x08080808, V4 0x0A000007] = Some ([] @ V4 0x08080808 # [V4 0x0A000007])"
    by simp
  moreover have "\<forall>b \<in> set [V4 0x0A000007]. isTrustedProxy b demo_trust" using demo_other by simp
  ultimately show ?thesis using demo_other by blast
qed

lemma demo_effective:
  "effectiveClientIP (demo_hops ''8.8.8.8, 10.0.0.7'') demo_trust = Some (V4 0x08080808)"
  using effective_via_proxy [of "demo_hops ''8.8.8.8, 10.0.0.7''" "V4 0x0A000001" "''10.0.0.1''" demo_trust]
    demo_trusted demo_other
  by (simp add: addr_valid_def demo_hops_def blank_request_def demo_peer header_values_def xff_key demo_chain)

lemma demo_forged: "forwarded_token ''1.1.1.1'' = Some (V4 0x01010101)" "forwarded_token ''me'' = None"
  by (simp_all add: forwarded_token_def is_blank_def addr_eval)

theorem effectiveClientIP_not_spoofable_witness:
  "effectiveClientIP (demo_hops ''1.1.1.1,8.8.8.8, 10.0.0.7'') demo_trust = Some (V4 0x08080808) \<and>
   effectiveClientIP (blank_request\<lparr>Header := [(''X-Forwarded-For'', [''me'', ''8.8.8.8, 10.0.0.7''])]\<rparr>) demo_trust = None"
proof
  have vals: "forwarded_values (demo_hops v) = [v]" for v
    by (simp add: forwarded_values_def demo_hops_def header_values_def xff_key)
  have remote: "RemoteAddr (demo_hops v) = ''10.0.0.1:80''" for v
    by (simp add: demo_hops_def blank_request_def)
  have "prepended [''1.1.1.1''] [''8.8.8.8, 10.0.0.7''] [''1.1.1.1,8.8.8.8, 10.0.0.7'']"
    unfolding prepended_def by (rule disjI2, rule exI [of _ "[]"], rule exI [of _ "''1.1.1.1''"])
      (simp add: chain_tokens_def)
  from effectiveClientIP_not_spoofable [OF _ _ demo_effective, of "[''1.1.1.1'']" "demo_hops ''1.1.1.1,8.8.8.8, 10.0.0.7''"] this
  show "effectiveClientIP (demo_hops ''1.1.1.1,8.8.8.8, 10.0.0.7'') demo_trust = Some (V4 0x08080808)"
    by (simp add: vals remote demo_forged)
  let ?req = "blank_request\<lparr>Header := [(''X-Forwarded-For'', [''me'', ''8.8.8.8, 10.0.0.7''])]\<rparr>"
  have "forwarded_values ?req = [''me'', ''8.8.8.8, 10.0.0.7'']"
    by (simp add: forwarded_values_def header_values_def xff_key)
  moreover have "prepended [''me''] [''8.8.8.8, 10.0.0.7''] [''me'', ''8.8.8.8, 10.0.0.7'']"
    unfolding prepended_def by (rule disjI1, rule exI [of _ "[''me'']"]) (simp add: chain_tokens_def)
  moreover have "RemoteAddr ?req = ''10.0.0.1:80''" by (simp add: blank_request_def)
  ultimately show "effectiveClientIP ?req demo_trust = None"
    using effectiveClientIP_not_spoofable [OF _ _ demo_effective, of "[''me'']" ?req] demo_trusted
    by (simp add: vals remote demo_forged demo_peer)
qed

text \<open>Normalising an IPv4-mapped prefix changes its form and not its meaning: the IPv4 prefix
  contains the unmapped address exactly when the original prefix contains the mapped one.\<close>

theorem normalizeIPPrefix_meaning:
  assumes "is4in6 (V6 x [])" and "is4in6 (V6 y [])" and "96 \<le> b" and "b \<le> 128"
  shows "prefix_contains (normalizeIPPrefix \<lparr>paddr = V6 x [], pbits = b\<rparr>) (unmap (V6 y [])) =
    prefix_contains \<lparr>paddr = V6 x [], pbits = b\<rparr> (V6 y [])"
proof -
  define n where "n = nat (128 - b)"
  have n: "n \<le> 32" "32 - nat (b - 96) = n" "128 - nat b = n" using assms by (simp_all add: n_def)
  have hi: "drop_bit 32 x = 0xFFFF" "drop_bit 32 y = 0xFFFF" using assms by simp_all
  have same: "bit x i = bit y i" if "32 \<le> i" for i
  proof -
    have "bit (drop_bit 32 x) (i - 32) = bit (drop_bit 32 y) (i - 32)" using hi by simp
    with that show ?thesis by (simp add: bit_drop_bit_eq)
  qed
  let ?a = "ucast x :: 32 word" and ?b = "ucast y :: 32 word"
  have "drop_bit n ((?a AND NOT (mask n)) XOR ?b) = 0 \<longleftrightarrow> (\<forall>i. n \<le> i \<and> i < 32 \<longrightarrow> bit x i = bit y i)"
  proof -
    let ?w = "drop_bit n ((?a AND NOT (mask n)) XOR ?b)"
    have "?w = 0 \<longleftrightarrow> (\<forall>k. n + k < 32 \<longrightarrow> bit x (n + k) = bit y (n + k))"
    proof -
      have "bit ?w k \<longleftrightarrow> n + k < 32 \<and> bit x (n + k) \<noteq> bit y (n + k)" if "k < 32" for k
        using that by (auto simp: bit_simps)
      note bits = this
      show ?thesis
      proof
        assume zero: "?w = 0"
        have "bit x (n + k) = bit y (n + k)" if k: "n + k < 32" for k
        proof -
          have "\<not> bit ?w k" unfolding zero by simp
          with bits [of k] k show ?thesis by simp
        qed
        then show "\<forall>k. n + k < 32 \<longrightarrow> bit x (n + k) = bit y (n + k)" by blast
      next
        assume "\<forall>k. n + k < 32 \<longrightarrow> bit x (n + k) = bit y (n + k)"
        with bits show "?w = 0" by (intro bit_word_eqI) auto
      qed
    qed
    then show ?thesis by (auto simp: le_iff_add)
  qed
  also have "\<dots> \<longleftrightarrow> (\<forall>i. n \<le> i \<and> i < 128 \<longrightarrow> bit x i = bit y i)"
  proof -
    have "i < 32 \<or> bit x i = bit y i" for i using same [of i] by (cases "i < 32") auto
    moreover have "i < 128" if "i < 32" for i :: nat using that by simp
    ultimately show ?thesis by blast
  qed
  also have "\<dots> \<longleftrightarrow> (x XOR y) AND NOT (mask n) = 0"
    by (auto simp: bit_eq_iff bit_simps not_less)
  finally show ?thesis
    using assms n by (simp add: normalizeIPPrefix_def prefix_from_def prefix_masked_def Let_def)
qed

theorem normalizeIPPrefix_meaning_witness:
  "prefix_contains (normalizeIPPrefix \<lparr>paddr = V6 0xFFFF0A000000 [], pbits = 104\<rparr>)
     (unmap (V6 0xFFFF0A010203 [])) =
   prefix_contains \<lparr>paddr = V6 0xFFFF0A000000 [], pbits = 104\<rparr> (V6 0xFFFF0A010203 [])"
  by (rule normalizeIPPrefix_meaning) simp_all

text \<open>A printed peer is never empty.\<close>

lemma parse_addr_valid: "parse_addr s = Some a \<Longrightarrow> without_zone a \<noteq> InvalidAddr"
  by (auto simp: parse_addr_def parse_ipv6_def split: option.splits if_splits)

lemma peer_text: "peerAddress r = (peer, ptext) \<Longrightarrow> ptext = [] \<longleftrightarrow> \<not> addr_valid peer"
  by (auto simp: peerAddress_def addr_valid_def addr_string_nonempty dest: parse_addr_valid split: option.splits)

text \<open>Fields joined with a comma and a blank are the same chain.\<close>

lemma forwarded_token_blank: "forwarded_token (CHR '' '' # t) = forwarded_token t"
proof -
  have "trim is_blank (CHR '' '' # t) = trim is_blank t" by (simp add: trim_def trim_left_def is_blank_def)
  then show ?thesis by (simp add: forwarded_token_def)
qed

lemma forwarded_tokens_blank:
  "forwarded_tokens (split_on CHR '','' (CHR '' '' # t) @ us) = forwarded_tokens (split_on CHR '','' t @ us)"
  by (cases "split_on CHR '','' t") (simp_all add: forwarded_token_blank)

lemma forwarded_chain_join:
  "vs \<noteq> [] \<Longrightarrow> forwarded_chain (us @ [join_with '', '' vs]) = forwarded_chain (us @ vs)"
proof (induction "'', '' :: string" vs arbitrary: us rule: join_with.induct)
  case (3 x y ys)
  have "forwarded_chain [join_with '', '' (x # y # ys)] =
      forwarded_tokens (split_on CHR '','' x @ split_on CHR '','' (CHR '' '' # join_with '', '' (y # ys)))"
    using split_on_join [of "CHR '',''" x "CHR '' '' # join_with '', '' (y # ys)"]
    by (simp add: forwarded_chain_def)
  also have "\<dots> = forwarded_tokens (split_on CHR '','' x @ split_on CHR '','' (join_with '', '' (y # ys)))"
    using forwarded_tokens_blank [of "join_with '', '' (y # ys)" "[]"] by (simp only: forwarded_tokens_append append_Nil2)
  also have "\<dots> = forwarded_chain [x, join_with '', '' (y # ys)]" by (simp add: forwarded_chain_def)
  finally have one: "forwarded_chain [join_with '', '' (x # y # ys)] = forwarded_chain ([x] @ [join_with '', '' (y # ys)])"
    by simp
  have "forwarded_chain (us @ [join_with '', '' (x # y # ys)]) = forwarded_chain ((us @ [x]) @ [join_with '', '' (y # ys)])"
    using one by (simp only: forwarded_chain_append append_assoc)
  also have "\<dots> = forwarded_chain ((us @ [x]) @ y # ys)" by (rule "3.hyps") simp
  finally show ?case by simp
qed simp_all

text \<open>The three names, and the rest of a header.\<close>

definition forwarding_names :: "string set" where
  "forwarding_names = {''X-Forwarded-For'', ''X-Forwarded-Proto'', ''X-Forwarded-Host''}"

lemma forwarding_keys:
  "canonical_key ''X-Forwarded-Proto'' = ''X-Forwarded-Proto''"
  "canonical_key ''X-Forwarded-Host'' = ''X-Forwarded-Host''"
  by code_simp+

lemma setForwardedHeaders_values:
  assumes "peerAddress (RemoteAddr inr) = (peer, ptext)"
  shows "map_of (setForwardedHeaders inr out trust) =
     (if addr_valid peer \<and> isTrustedProxy peer trust then
        (let prior = join_with '', '' (forwarded_values inr) in
         (map_of out)
          (''X-Forwarded-For'' \<mapsto> [if prior = [] then ptext else prior @ '', '' @ ptext],
           ''X-Forwarded-Proto'' \<mapsto> [case firstHeaderValue (Header inr) ''X-Forwarded-Proto'' of
                                     Some p \<Rightarrow> p | None \<Rightarrow> requestProtocol inr],
           ''X-Forwarded-Host'' \<mapsto> [case firstHeaderValue (Header inr) ''X-Forwarded-Host'' of
                                    Some h \<Rightarrow> h | None \<Rightarrow> Host inr]))
      else
        (map_of out)
          (''X-Forwarded-For'' := (if ptext = [] then None else Some [ptext]),
           ''X-Forwarded-Proto'' \<mapsto> [requestProtocol inr], ''X-Forwarded-Host'' \<mapsto> [Host inr]))"
  using assms peer_text [OF assms]
  by (auto simp: setForwardedHeaders_def header_set_def header_del_def forwarding_keys xff_key Let_def
      forwarded_values_def)

text \<open>C23. What the upstream is told about the client. A peer that is not a trusted proxy, readable or
  not, has no say in it: whatever its own headers and the outgoing ones are, the three forwarding
  headers hold the peer's address, or nothing if it is unreadable, and the protocol and host of its
  request. From a trusted proxy the next hop reads the chain that came, followed by the peer. No other
  header changes.\<close>

theorem setForwardedHeaders_spec:
  fixes inr trust
  defines "peer \<equiv> fst (peerAddress (RemoteAddr inr))" and "ptext \<equiv> snd (peerAddress (RemoteAddr inr))"
  defines "trusted \<equiv> addr_valid peer \<and> isTrustedProxy peer trust"
  shows "(\<forall>n. n \<notin> forwarding_names \<longrightarrow> map_of (setForwardedHeaders inr out trust) n = map_of out n) \<and>
    (\<not> trusted \<longrightarrow>
       (\<forall>inr' out'. RemoteAddr inr' = RemoteAddr inr \<and> Host inr' = Host inr \<and> is_tls inr' = is_tls inr \<longrightarrow>
          map_of (setForwardedHeaders inr' out' trust) |` forwarding_names =
          map_of (setForwardedHeaders inr out trust) |` forwarding_names) \<and>
       header_values (setForwardedHeaders inr out trust) ''X-Forwarded-For'' =
         (if addr_valid peer then [ptext] else []) \<and>
       header_values (setForwardedHeaders inr out trust) ''X-Forwarded-Proto'' = [requestProtocol inr] \<and>
       header_values (setForwardedHeaders inr out trust) ''X-Forwarded-Host'' = [Host inr]) \<and>
    (trusted \<longrightarrow>
       forwarded_chain (header_values (setForwardedHeaders inr out trust) ''X-Forwarded-For'') =
         forwarded_chain ((if forwarded_values inr = [[]] then [] else forwarded_values inr) @ [ptext]))"
proof (intro conjI impI allI)
  have p: "peerAddress (RemoteAddr inr) = (peer, ptext)" by (simp add: peer_def ptext_def)
  note vals = setForwardedHeaders_values [OF p, of out trust]
  show "map_of (setForwardedHeaders inr out trust) n = map_of out n" if "n \<notin> forwarding_names" for n
    using that by (auto simp: vals forwarding_names_def Let_def)
  show "map_of (setForwardedHeaders inr' out' trust) |` forwarding_names =
      map_of (setForwardedHeaders inr out trust) |` forwarding_names"
    if "\<not> trusted" "RemoteAddr inr' = RemoteAddr inr \<and> Host inr' = Host inr \<and> is_tls inr' = is_tls inr" for inr' out'
    using that setForwardedHeaders_values [of inr' peer ptext out' trust] p vals
    by (auto simp: trusted_def forwarding_names_def restrict_map_def requestProtocol_def fun_eq_iff)
  note none = peer_text [OF p]
  show "header_values (setForwardedHeaders inr out trust) ''X-Forwarded-For'' = (if addr_valid peer then [ptext] else [])"
    "header_values (setForwardedHeaders inr out trust) ''X-Forwarded-Proto'' = [requestProtocol inr]"
    "header_values (setForwardedHeaders inr out trust) ''X-Forwarded-Host'' = [Host inr]"
    if "\<not> trusted"
    using that none by (auto simp: header_values_def xff_key forwarding_keys vals trusted_def)
  show "forwarded_chain (header_values (setForwardedHeaders inr out trust) ''X-Forwarded-For'') =
      forwarded_chain ((if forwarded_values inr = [[]] then [] else forwarded_values inr) @ [ptext])" if trusted
  proof -
    let ?vs = "forwarded_values inr"
    have empty: "join_with '', '' ?vs = [] \<longleftrightarrow> ?vs = [] \<or> ?vs = [[]]"
      by (cases "('', '' :: string, ?vs)" rule: join_with.cases) auto
    have "header_values (setForwardedHeaders inr out trust) ''X-Forwarded-For'' =
        [if join_with '', '' ?vs = [] then ptext else join_with '', '' (?vs @ [ptext])]"
      using that empty join_with_append1 [of ?vs "'', ''" ptext]
      by (auto simp: header_values_def xff_key vals trusted_def Let_def)
    then show ?thesis
      using empty forwarded_chain_join [of "?vs @ [ptext]" "[]"] by auto
  qed
qed

theorem setForwardedHeaders_spec_witness:
  "header_values (setForwardedHeaders (demo_hops ''6.6.6.6'') [] []) ''X-Forwarded-For'' = [''10.0.0.1''] \<and>
   header_values (setForwardedHeaders (blank_request\<lparr>RemoteAddr := ''@'', Header := [(''X-Forwarded-For'', [''6.6.6.6''])]\<rparr>)
     [(''X-Forwarded-For'', [''6.6.6.6''])] []) ''X-Forwarded-For'' = []"
proof
  have "peerAddress (RemoteAddr (demo_hops ''6.6.6.6'')) = (V4 0x0A000001, ''10.0.0.1'')"
    by (simp add: demo_hops_def blank_request_def demo_peer)
  then show "header_values (setForwardedHeaders (demo_hops ''6.6.6.6'') [] []) ''X-Forwarded-For'' = [''10.0.0.1'']"
    using setForwardedHeaders_spec [of "demo_hops ''6.6.6.6''" "[]" "[]"]
    by (simp add: addr_valid_def isTrustedProxy_def)
  have "peerAddress ''@'' = (InvalidAddr, [])"
    by (simp add: peerAddress_def is_bracket_byte_def addr_eval)
  then show "header_values (setForwardedHeaders (blank_request\<lparr>RemoteAddr := ''@'', Header := [(''X-Forwarded-For'', [''6.6.6.6''])]\<rparr>)
     [(''X-Forwarded-For'', [''6.6.6.6''])] []) ''X-Forwarded-For'' = []"
    using setForwardedHeaders_spec [of "blank_request\<lparr>RemoteAddr := ''@'', Header := [(''X-Forwarded-For'', [''6.6.6.6''])]\<rparr>"
        "[(''X-Forwarded-For'', [''6.6.6.6''])]" "[]"]
    by (simp add: addr_valid_def isTrustedProxy_def)
qed

end
