(* ===== verification/RouteMatch.thy ===== *)
theory RouteMatch
  imports PathMatch HostMatch ClientIP "HOL-Library.Product_Lexorder"
begin

text \<open>
  Route conditions and the choice of a route inside a site (\<open>src/router.go\<close>):
  \<open>compileRouteMatch\<close>, \<open>routeMatchState.matches\<close> with its cached query and client address,
  \<open>betterRoute\<close>, \<open>buildRouteIndex\<close> and \<open>selectRoute\<close>. A route's proxy and generated response
  are type parameters here; \<open>None\<close> stands for the nil pointer. The mutable
  \<open>routeMatchState\<close> is passed from route to route. \<open>exactRoutes = None\<close> is the nil map of a
  site with few routes.
\<close>

section \<open>Data\<close>

record routeCondition =
  cname :: string
  alternatives :: "string list"

record routeMatch =
  headerConds :: "routeCondition list"
  queryConds :: "routeCondition list"
  ipConds :: "ip_prefix list"
  altCount :: nat

record routeMatchConfig =
  MatchHeader :: "(string, string list) gomap"
  MatchQuery :: "(string, string list) gomap"
  MatchIP :: "ip_prefix list"

record ('p, 'g) route =
  rpattern :: pathPattern
  methods :: "string list"
  rmatch :: routeMatch
  proxy :: "'p option"
  respond :: "'g option"
  strip :: bool

record ('p, 'g) site =
  hosts :: "hostPattern list"
  siteProxy :: "'p option"
  routes :: "('p, 'g) route list"
  siteTrust :: "ip_prefix list"
  exactRoutes :: "(string \<rightharpoonup> nat list) option"
  wildcardRoutes :: "string \<rightharpoonup> nat list"

record routeMatchState =
  mreq :: request
  query :: header
  queryParsed :: bool
  queryValid :: bool
  clientIP :: "addr option"
  clientParsed :: bool
  trustProxies :: "ip_prefix list"

record ('p, 'g) routeCandidate =
  candRoute :: "('p, 'g) route"
  candPrefix :: string
  candExact :: bool
  candDepth :: nat
  candIndex :: nat

definition routeIndexThreshold :: nat where
  "routeIndexThreshold = 8"

section \<open>Conditions\<close>

fun compile_conditions :: "(string, string list) gomap \<Rightarrow> routeCondition list" where
  "compile_conditions [] = []"
| "compile_conditions ((name, alts) # m) = \<lparr>cname = name, alternatives = alts\<rparr> # compile_conditions m"

fun count_alternatives :: "(string, string list) gomap \<Rightarrow> nat" where
  "count_alternatives [] = 0"
| "count_alternatives ((name, alts) # m) = length alts + count_alternatives m"

definition compileRouteMatch :: "routeMatchConfig \<Rightarrow> routeMatch" where
  "compileRouteMatch cfg =
     \<lparr>headerConds = compile_conditions (MatchHeader cfg),
      queryConds = compile_conditions (MatchQuery cfg),
      ipConds = MatchIP cfg,
      altCount = count_alternatives (MatchHeader cfg) + count_alternatives (MatchQuery cfg)
        + length (MatchIP cfg)\<rparr>"

definition matchesValue :: "string \<Rightarrow> string list \<Rightarrow> bool" where
  "matchesValue v alts = list_ex (\<lambda>a. v = a) alts"

definition matchesAny :: "string list \<Rightarrow> string list \<Rightarrow> bool" where
  "matchesAny vs alts = list_ex (\<lambda>v. list_ex (\<lambda>a. v = a) alts) vs"

definition matchesRequestHeader :: "request \<Rightarrow> routeCondition \<Rightarrow> bool" where
  "matchesRequestHeader req c =
     (if cname c = ''Host'' then Host req \<noteq> [] \<and> matchesValue (Host req) (alternatives c)
      else if matchesAny (header_raw (Header req) (cname c)) (alternatives c) then True
      else list_ex (\<lambda>(name, vs). name \<noteq> cname c \<and> equal_fold name (cname c) \<and>
             matchesAny vs (alternatives c)) (Header req))"

definition matchesMethod :: "('p, 'g) route \<Rightarrow> string \<Rightarrow> bool" where
  "matchesMethod r m =
     (if methods r = [] then True
      else if length (methods r) = 1 then m = methods r ! 0
      else list_ex (\<lambda>allowed. m = allowed) (methods r))"

definition conditionCount :: "('p, 'g) route \<Rightarrow> nat" where
  "conditionCount r =
     length (headerConds (rmatch r)) + length (queryConds (rmatch r))
     + (if length (ipConds (rmatch r)) > 0 then 1 else 0)
     + (if length (methods r) > 0 then 1 else 0)"

definition alternativeCount :: "('p, 'g) route \<Rightarrow> nat" where
  "alternativeCount r = length (methods r) + altCount (rmatch r)"

section \<open>Matching with the caches\<close>

definition matchesClientIP ::
  "('p, 'g) route \<Rightarrow> routeMatchState \<Rightarrow> bool \<times> routeMatchState" where
  "matchesClientIP r m =
     (let m' = (if \<not> clientParsed m
                then m\<lparr>clientIP := effectiveClientIP (mreq m) (trustProxies m), clientParsed := True\<rparr>
                else m)
      in case clientIP m' of
           None \<Rightarrow> (False, m')
         | Some a \<Rightarrow> (list_ex (\<lambda>p. prefix_contains p a) (ipConds (rmatch r)), m'))"

definition parse_cached_query :: "routeMatchState \<Rightarrow> routeMatchState" where
  "parse_cached_query m =
     (if \<not> queryParsed m
      then (let (q, ok) = parse_query (RawQuery (URL (mreq m)))
            in m\<lparr>query := q, queryValid := ok, queryParsed := True\<rparr>)
      else m)"

definition matches :: "('p, 'g) route \<Rightarrow> routeMatchState \<Rightarrow> bool \<times> routeMatchState" where
  "matches r m =
     (if \<not> matchesMethod r (Method (mreq m)) then (False, m)
      else if \<not> list_all (matchesRequestHeader (mreq m)) (headerConds (rmatch r)) then (False, m)
      else if queryConds (rmatch r) \<noteq> [] then
        (let m' = parse_cached_query m in
         if \<not> queryValid m' then (False, m')
         else if \<not> list_all (\<lambda>c. matchesAny (header_raw (query m') (cname c)) (alternatives c))
                     (queryConds (rmatch r))
         then (False, m')
         else if ipConds (rmatch r) = [] then (True, m')
         else matchesClientIP r m')
      else if ipConds (rmatch r) = [] then (True, m)
      else matchesClientIP r m)"

section \<open>Choosing a route\<close>

definition routeCandidate :: "('p, 'g) site \<Rightarrow> nat \<Rightarrow> ('p, 'g) routeCandidate" where
  "routeCandidate s i =
     (let r = routes s ! i in
      \<lparr>candRoute = r, candPrefix = path (rpattern r), candExact = (\<not> wildcard (rpattern r)),
       candDepth = depth (rpattern r), candIndex = i\<rparr>)"

definition betterRoute :: "('p, 'g) routeCandidate \<Rightarrow> ('p, 'g) routeCandidate \<Rightarrow> bool" where
  "betterRoute candidate current =
     (if candExact candidate \<noteq> candExact current then candExact candidate
      else if candDepth candidate \<noteq> candDepth current then candDepth candidate > candDepth current
      else if conditionCount (candRoute candidate) \<noteq> conditionCount (candRoute current)
      then conditionCount (candRoute candidate) > conditionCount (candRoute current)
      else if alternativeCount (candRoute candidate) \<noteq> alternativeCount (candRoute current)
      then alternativeCount (candRoute candidate) < alternativeCount (candRoute current)
      else candIndex candidate > candIndex current)"

definition improve ::
  "('p, 'g) routeCandidate option \<Rightarrow> ('p, 'g) routeCandidate \<Rightarrow> ('p, 'g) routeCandidate option" where
  "improve selected c =
     (case selected of
        None \<Rightarrow> Some c
      | Some b \<Rightarrow> if betterRoute c b then Some c else Some b)"

text \<open>One index list of the site, and the scan of all routes.\<close>

fun try_routes ::
  "('p, 'g) site \<Rightarrow> nat list \<Rightarrow> routeMatchState \<Rightarrow> ('p, 'g) routeCandidate option \<Rightarrow>
   routeMatchState \<times> ('p, 'g) routeCandidate option" where
  "try_routes s [] m sel = (m, sel)"
| "try_routes s (i # is) m sel =
     (case matches (routes s ! i) m of
        (ok, m') \<Rightarrow> try_routes s is m' (if ok then improve sel (routeCandidate s i) else sel))"

fun scan_routes ::
  "('p, 'g) site \<Rightarrow> string \<Rightarrow> nat list \<Rightarrow> routeMatchState \<Rightarrow> ('p, 'g) routeCandidate option \<Rightarrow>
   routeMatchState \<times> ('p, 'g) routeCandidate option" where
  "scan_routes s p [] m sel = (m, sel)"
| "scan_routes s p (i # is) m sel =
     (case pattern_match (rpattern (routes s ! i)) p of
        None \<Rightarrow> scan_routes s p is m sel
      | Some pre \<Rightarrow>
          (case matches (routes s ! i) m of
             (ok, m') \<Rightarrow> scan_routes s p is m'
               (if ok then improve sel ((routeCandidate s i)\<lparr>candPrefix := pre\<rparr>) else sel)))"

text \<open>The loop over the slashes of the path, from byte \<open>i\<close> on.\<close>

definition indexed :: "(string \<rightharpoonup> nat list) \<Rightarrow> string \<Rightarrow> nat list" where
  "indexed m k = (case m k of None \<Rightarrow> [] | Some is \<Rightarrow> is)"

function try_parents ::
  "('p, 'g) site \<Rightarrow> string \<Rightarrow> nat \<Rightarrow> routeMatchState \<Rightarrow> ('p, 'g) routeCandidate option \<Rightarrow>
   routeMatchState \<times> ('p, 'g) routeCandidate option" where
  "try_parents s p i m sel =
     (if i \<ge> length p then (m, sel)
      else if p ! i \<noteq> CHR ''/'' then try_parents s p (Suc i) m sel
      else (case try_routes s (indexed (wildcardRoutes s) (take i p)) m sel of
              (m', sel') \<Rightarrow> try_parents s p (Suc i) m' sel'))"
  by pat_completeness auto
termination by (relation "measure (\<lambda>(s, p, i, m, sel). length p - i)") auto

declare try_parents.simps [simp del]

definition new_match_state :: "request \<Rightarrow> ip_prefix list \<Rightarrow> routeMatchState" where
  "new_match_state req trust =
     \<lparr>mreq = req, query = [], queryParsed = False, queryValid = False, clientIP = None,
      clientParsed = False, trustProxies = trust\<rparr>"

definition selectRoute :: "('p, 'g) site \<Rightarrow> request \<Rightarrow> ('p, 'g) routeCandidate option" where
  "selectRoute s req =
     (let p = Path (URL req); m = new_match_state req (siteTrust s) in
      case exactRoutes s of
        None \<Rightarrow> snd (scan_routes s p [0..<length (routes s)] m None)
      | Some exact \<Rightarrow>
          (case try_routes s (indexed exact p) m None of
             (m1, Some c) \<Rightarrow> Some c
           | (m1, None) \<Rightarrow>
               (case try_routes s (indexed (wildcardRoutes s) []) m1 None of
                  (m2, sel2) \<Rightarrow>
                    (case try_parents s p 1 m2 sel2 of
                       (m3, sel3) \<Rightarrow>
                         snd (try_routes s (indexed (wildcardRoutes s) p) m3 sel3)))))"

definition index_route :: "('p, 'g) site \<Rightarrow> nat \<Rightarrow> ('p, 'g) site" where
  "index_route s i =
     (let q = rpattern (routes s ! i); k = path q in
      if wildcard q
      then s\<lparr>wildcardRoutes := (wildcardRoutes s)(k \<mapsto> indexed (wildcardRoutes s) k @ [i])\<rparr>
      else s\<lparr>exactRoutes := map_option (\<lambda>m. m(k \<mapsto> indexed m k @ [i])) (exactRoutes s)\<rparr>)"

definition buildRouteIndex :: "('p, 'g) site \<Rightarrow> ('p, 'g) site" where
  "buildRouteIndex s =
     foldl index_route (s\<lparr>exactRoutes := Some Map.empty, wildcardRoutes := Map.empty\<rparr>)
       [0..<length (routes s)]"

section \<open>The caches are transparent\<close>

text \<open>What \<open>matches\<close> decides, without a cache.\<close>

definition route_matches :: "ip_prefix list \<Rightarrow> request \<Rightarrow> ('p, 'g) route \<Rightarrow> bool" where
  "route_matches trust req r \<longleftrightarrow>
     (methods r = [] \<or> Method req \<in> set (methods r)) \<and>
     (\<forall>c \<in> set (headerConds (rmatch r)). matchesRequestHeader req c) \<and>
     (queryConds (rmatch r) \<noteq> [] \<longrightarrow>
        snd (parse_query (RawQuery (URL req))) \<and>
        (\<forall>c \<in> set (queryConds (rmatch r)).
           matchesAny (header_raw (fst (parse_query (RawQuery (URL req)))) (cname c)) (alternatives c))) \<and>
     (ipConds (rmatch r) \<noteq> [] \<longrightarrow>
        (\<exists>a. effectiveClientIP req trust = Some a \<and> (\<exists>q \<in> set (ipConds (rmatch r)). prefix_contains q a)))"

definition cache_ok :: "ip_prefix list \<Rightarrow> request \<Rightarrow> routeMatchState \<Rightarrow> bool" where
  "cache_ok trust req m \<longleftrightarrow> mreq m = req \<and> trustProxies m = trust \<and>
     (queryParsed m \<longrightarrow> (query m, queryValid m) = parse_query (RawQuery (URL req))) \<and>
     (clientParsed m \<longrightarrow> clientIP m = effectiveClientIP req trust)"

lemma matchesMethod_iff: "matchesMethod r m \<longleftrightarrow> methods r = [] \<or> m \<in> set (methods r)"
  by (cases "methods r") (auto simp: matchesMethod_def list_ex_iff)

lemma cache_ok_new [simp]: "cache_ok trust req (new_match_state req trust)"
  by (simp add: cache_ok_def new_match_state_def)

lemma parse_cached_query_ok:
  assumes "cache_ok trust req m"
  shows "cache_ok trust req (parse_cached_query m)"
    and "query (parse_cached_query m) = fst (parse_query (RawQuery (URL req)))"
    and "queryValid (parse_cached_query m) = snd (parse_query (RawQuery (URL req)))"
  using assms
  by (auto simp: cache_ok_def parse_cached_query_def prod_eq_iff split: prod.splits)

lemma matchesClientIP_ok:
  assumes "cache_ok trust req m"
  shows "cache_ok trust req (snd (matchesClientIP r m))"
    and "fst (matchesClientIP r m) \<longleftrightarrow>
      (\<exists>a. effectiveClientIP req trust = Some a \<and> (\<exists>q \<in> set (ipConds (rmatch r)). prefix_contains q a))"
  using assms
  by (auto simp: cache_ok_def matchesClientIP_def Let_def list_ex_iff split: option.splits)

lemma matches_ok:
  assumes "cache_ok trust req m"
  shows "cache_ok trust req (snd (matches r m))"
    and "fst (matches r m) \<longleftrightarrow> route_matches trust req r"
proof -
  have m: "mreq m = req" using assms by (simp add: cache_ok_def)
  show "cache_ok trust req (snd (matches r m))"
    using assms parse_cached_query_ok(1) [OF assms]
    by (auto simp: matches_def Let_def intro!: matchesClientIP_ok(1))
  show "fst (matches r m) \<longleftrightarrow> route_matches trust req r"
    using matchesClientIP_ok(2) [OF assms, of r]
      matchesClientIP_ok(2) [OF parse_cached_query_ok(1) [OF assms], of r]
      parse_cached_query_ok(2,3) [OF assms]
    by (auto simp: matches_def route_matches_def Let_def m matchesMethod_iff list_all_iff)
qed

interpretation cached: pure_test matches "\<lambda>m r. route_matches trust req r" "cache_ok trust req" for trust req
  by unfold_locales (simp_all add: matches_ok)

section \<open>The order of candidates\<close>

type_synonym route_key = "bool \<times> nat \<times> nat \<times> int \<times> nat"

definition cand_key :: "('p, 'g) routeCandidate \<Rightarrow> route_key" where
  "cand_key c = (candExact c, candDepth c, conditionCount (candRoute c),
     - int (alternativeCount (candRoute c)), candIndex c)"

lemma betterRoute_key: "betterRoute a b \<longleftrightarrow> cand_key b < cand_key a"
  by (auto simp: betterRoute_def cand_key_def less_prod_def')

lemma cand_key_inj: "cand_key (routeCandidate s i) = cand_key (routeCandidate s j) \<longleftrightarrow> i = j"
  by (auto simp: cand_key_def routeCandidate_def Let_def)

text \<open>\<open>best\<close> is the best candidate of the routes at the positions \<open>E\<close>.\<close>

definition is_best :: "('p, 'g) site \<Rightarrow> nat set \<Rightarrow> ('p, 'g) routeCandidate option \<Rightarrow> bool" where
  "is_best s E best \<longleftrightarrow>
     (case best of
        None \<Rightarrow> E = {}
      | Some c \<Rightarrow> \<exists>i \<in> E. c = routeCandidate s i \<and>
          (\<forall>j \<in> E. cand_key (routeCandidate s j) \<le> cand_key c))"

interpretation route_order: preference betterRoute cand_key
  by unfold_locales (rule betterRoute_key)

lemma improve_is: "improve = improve_by betterRoute"
  by (simp add: fun_eq_iff improve_def improve_by_def)

lemma is_best_among: "is_best s E best \<longleftrightarrow> best_among cand_key (routeCandidate s ` E) best"
  by (auto simp: is_best_def best_among_def split: option.splits)

lemma is_best_empty [simp]: "is_best s {} None"
  by (simp add: is_best_among)

lemma is_best_unique: "is_best s E a \<Longrightarrow> is_best s E b \<Longrightarrow> a = b"
  unfolding is_best_among by (rule best_among_unique) (auto simp: inj_on_def cand_key_inj)

lemma is_best_improve:
  "is_best s E best \<Longrightarrow> is_best s (insert i E) (improve best (routeCandidate s i))"
  using route_order.improve_best [of "routeCandidate s ` E" best "routeCandidate s i"]
  by (simp add: is_best_among improve_is)

definition matching :: "('p, 'g) site \<Rightarrow> request \<Rightarrow> nat set \<Rightarrow> nat set" where
  "matching s req I = {i \<in> I. route_matches (siteTrust s) req (routes s ! i)}"

lemma matching_simps [simp]:
  "matching s req {} = {}"
  "matching s req (insert i I) =
     (if route_matches (siteTrust s) req (routes s ! i) then insert i (matching s req I)
      else matching s req I)"
  "matching s req (I \<union> J) = matching s req I \<union> matching s req J"
  by (auto simp: matching_def)

lemma try_routes_best:
  assumes "cache_ok (siteTrust s) req m" and "is_best s E sel"
    and "try_routes s is m sel = (m', sel')"
  shows "cache_ok (siteTrust s) req m' \<and> is_best s (E \<union> matching s req (set is)) sel'"
  using assms
proof (induction "is" arbitrary: m sel E)
  case Nil
  then show ?case by simp
next
  case (Cons i "is")
  obtain ok m1 where 1: "matches (routes s ! i) m = (ok, m1)" by fastforce
  have m1: "cache_ok (siteTrust s) req m1" "ok \<longleftrightarrow> route_matches (siteTrust s) req (routes s ! i)"
    using cached.ask_answer [OF Cons.prems(1) 1] by simp_all
  let ?sel = "if ok then improve sel (routeCandidate s i) else sel"
  have "is_best s (E \<union> matching s req {i}) ?sel"
    using Cons.prems(2) m1(2) is_best_improve [OF Cons.prems(2), of i] by simp
  moreover have "try_routes s is m1 ?sel = (m', sel')" using Cons.prems(3) 1 by simp
  ultimately have "cache_ok (siteTrust s) req m' \<and>
      is_best s (E \<union> matching s req {i} \<union> matching s req (set is)) sel'"
    using Cons.IH [OF m1(1)] by blast
  moreover have "matching s req (set (i # is)) = matching s req {i} \<union> matching s req (set is)"
    by (auto simp: matching_def)
  ultimately show ?case by (simp only: Un_assoc)
qed

definition eligible :: "('p, 'g) site \<Rightarrow> request \<Rightarrow> nat set" where
  "eligible s req = matching s req
     {i. i < length (routes s) \<and> pattern_match (rpattern (routes s ! i)) (Path (URL req)) \<noteq> None}"

lemma pattern_match_prefix: "pattern_match q p = Some pre \<Longrightarrow> pre = path q"
  by (auto simp: pattern_match_def split: if_splits)

lemma candidate_prefix:
  "pattern_match (rpattern (routes s ! i)) p = Some pre \<Longrightarrow>
     (routeCandidate s i)\<lparr>candPrefix := pre\<rparr> = routeCandidate s i"
  by (simp add: pattern_match_prefix routeCandidate_def Let_def)

text \<open>The scan is the loop over an index list that holds the routes whose pattern matches.\<close>

lemma scan_is_try:
  "scan_routes s p is m sel =
     try_routes s (filter (\<lambda>i. pattern_match (rpattern (routes s ! i)) p \<noteq> None) is) m sel"
proof (induction s p "is" m sel rule: scan_routes.induct)
  case (2 s p i "is" m sel)
  then show ?case
    by (cases "pattern_match (rpattern (routes s ! i)) p")
       (simp_all add: candidate_prefix split: prod.splits)
qed simp

lemma scan_routes_best:
  assumes "cache_ok (siteTrust s) req m" and "is_best s E sel"
    and "scan_routes s p is m sel = (m', sel')"
  shows "is_best s (E \<union> matching s req
     {i \<in> set is. pattern_match (rpattern (routes s ! i)) p \<noteq> None}) sel'"
  using try_routes_best [OF assms(1,2) assms(3) [unfolded scan_is_try]] by simp

text \<open>The routes filed under the parents of the path that start at byte \<open>i\<close> or later.\<close>

definition parent_routes :: "('p, 'g) site \<Rightarrow> string \<Rightarrow> nat \<Rightarrow> nat set" where
  "parent_routes s p i =
     (\<Union>k \<in> {k. i \<le> k \<and> k < length p \<and> p ! k = CHR ''/''}.
        set (indexed (wildcardRoutes s) (take k p)))"

lemma parent_routes_step:
  assumes "i < length p"
  shows "parent_routes s p i =
    (if p ! i = CHR ''/'' then set (indexed (wildcardRoutes s) (take i p)) else {})
      \<union> parent_routes s p (Suc i)"
proof -
  have "{k. i \<le> k \<and> k < length p \<and> p ! k = CHR ''/''} =
      (if p ! i = CHR ''/'' then {i} else {}) \<union> {k. Suc i \<le> k \<and> k < length p \<and> p ! k = CHR ''/''}"
    using assms by (auto simp: le_Suc_eq Suc_le_eq le_less)
  then show ?thesis by (simp add: parent_routes_def)
qed

lemma try_parents_best:
  assumes "cache_ok (siteTrust s) req m" and "is_best s E sel"
    and "try_parents s p i m sel = (m', sel')"
  shows "cache_ok (siteTrust s) req m' \<and> is_best s (E \<union> matching s req (parent_routes s p i)) sel'"
  using assms
proof (induction s p i m sel arbitrary: E rule: try_parents.induct)
  case (1 s p i m sel)
  show ?case
  proof (cases "i < length p")
    case False
    then have "parent_routes s p i = {}" by (simp add: parent_routes_def)
    with False 1 show ?thesis by (simp add: try_parents.simps)
  next
    case lt: True
    show ?thesis
    proof (cases "p ! i = CHR ''/''")
      case False
      with lt 1 show ?thesis by (auto simp: parent_routes_step try_parents.simps [of s p i])
    next
      case True
      obtain m1 sel1 where t: "try_routes s (indexed (wildcardRoutes s) (take i p)) m sel = (m1, sel1)"
        by fastforce
      from try_routes_best [OF "1.prems"(1,2) t] have b: "cache_ok (siteTrust s) req m1"
        "is_best s (E \<union> matching s req (set (indexed (wildcardRoutes s) (take i p)))) sel1" by auto
      have "try_parents s p (Suc i) m1 sel1 = (m', sel')"
        using "1.prems"(3) True lt t by (simp add: try_parents.simps [of s p i])
      from "1.IH"(2) [OF _ _ t [symmetric] b this] lt True
      show ?thesis by (simp add: parent_routes_step Un_assoc)
    qed
  qed
qed

section \<open>The index\<close>

definition filed :: "('p, 'g) site \<Rightarrow> bool \<Rightarrow> string \<Rightarrow> nat set" where
  "filed s wild k =
     {i. i < length (routes s) \<and> wildcard (rpattern (routes s ! i)) = wild \<and> path (rpattern (routes s ! i)) = k}"

definition index_ok :: "('p, 'g) site \<Rightarrow> nat \<Rightarrow> bool" where
  "index_ok s n \<longleftrightarrow> (\<exists>exact. exactRoutes s = Some exact \<and>
     (\<forall>k. set (indexed exact k) = filed s False k \<inter> {..<n})) \<and>
     (\<forall>k. set (indexed (wildcardRoutes s) k) = filed s True k \<inter> {..<n})"

lemma index_route_routes [simp]:
  "routes (index_route s i) = routes s" "siteTrust (index_route s i) = siteTrust s"
  by (simp_all add: index_route_def Let_def)

lemma indexed_upd [simp]: "indexed (m(k \<mapsto> v)) j = (if j = k then v else indexed m j)"
  by (simp add: indexed_def)

lemma filed_routes: "routes s' = routes s \<Longrightarrow> filed s' w k = filed s w k"
  by (simp add: filed_def)

lemma index_route_ok:
  assumes "index_ok s n" and "n < length (routes s)"
  shows "index_ok (index_route s n) (Suc n)"
proof -
  obtain exact where e: "exactRoutes s = Some exact"
    "\<And>k. set (indexed exact k) = filed s False k \<inter> {..<n}"
    "\<And>k. set (indexed (wildcardRoutes s) k) = filed s True k \<inter> {..<n}"
    using assms(1) by (auto simp: index_ok_def)
  have f: "filed (index_route s n) w k = filed s w k" for w k by (rule filed_routes) simp
  have step: "filed s w k \<inter> {..<Suc n} = (filed s w k \<inter> {..<n}) \<union>
      (if wildcard (rpattern (routes s ! n)) = w \<and> path (rpattern (routes s ! n)) = k then {n} else {})"
    for w k using assms(2) by (auto simp: filed_def less_Suc_eq)
  show ?thesis
  proof (cases "wildcard (rpattern (routes s ! n))")
    case True
    then show ?thesis using e
      by (auto simp only: index_ok_def f step) (auto simp: index_route_def Let_def split: if_splits)
  next
    case False
    then show ?thesis using e
      by (auto simp only: index_ok_def f step) (auto simp: index_route_def Let_def split: if_splits)
  qed
qed

lemma foldl_index_route [simp]:
  "routes (foldl index_route t is) = routes t"
  "siteTrust (foldl index_route t is) = siteTrust t"
  by (induction "is" arbitrary: t) auto

lemma buildRouteIndex_fields [simp]:
  "routes (buildRouteIndex s) = routes s" "siteTrust (buildRouteIndex s) = siteTrust s"
  by (simp_all add: buildRouteIndex_def)

lemma buildRouteIndex_ok: "index_ok (buildRouteIndex s) (length (routes s))"
proof -
  let ?t = "s\<lparr>exactRoutes := Some Map.empty, wildcardRoutes := Map.empty\<rparr>"
  have "n \<le> length (routes s) \<Longrightarrow> index_ok (foldl index_route ?t [0..<n]) n \<and>
      routes (foldl index_route ?t [0..<n]) = routes s" for n
  proof (induction n)
    case 0
    show ?case by (simp add: index_ok_def indexed_def)
  next
    case (Suc n)
    with index_route_ok [of "foldl index_route ?t [0..<n]" n] show ?case by simp
  qed
  then show ?thesis by (simp add: buildRouteIndex_def)
qed

definition site_ok :: "('p, 'g) site \<Rightarrow> bool" where
  "site_ok s \<longleftrightarrow> exactRoutes s = None \<or> index_ok s (length (routes s))"

text \<open>The index lists cover exactly the routes whose pattern matches.\<close>

lemma matching_patterns:
  "{i. i < length (routes s) \<and> pattern_match (rpattern (routes s ! i)) p \<noteq> None} =
     filed s False p \<union> filed s True [] \<union> filed s True p \<union>
     {i. i < length (routes s) \<and> wildcard (rpattern (routes s ! i)) \<and>
        path (rpattern (routes s ! i)) \<noteq> [] \<and> has_prefix p (path (rpattern (routes s ! i)) @ ''/'')}"
proof (rule set_eqI)
  fix i
  show "i \<in> {i. i < length (routes s) \<and> pattern_match (rpattern (routes s ! i)) p \<noteq> None} \<longleftrightarrow>
     i \<in> filed s False p \<union> filed s True [] \<union> filed s True p \<union>
     {i. i < length (routes s) \<and> wildcard (rpattern (routes s ! i)) \<and>
        path (rpattern (routes s ! i)) \<noteq> [] \<and> has_prefix p (path (rpattern (routes s ! i)) @ ''/'')}"
  proof (cases "wildcard (rpattern (routes s ! i))")
    case True
    then show ?thesis
      unfolding filed_def pattern_match_def Un_iff mem_Collect_eq by (cases "path (rpattern (routes s ! i)) = []") (simp, blast, simp, blast)
  next
    case False
    then show ?thesis
      unfolding filed_def pattern_match_def Un_iff mem_Collect_eq by simp
  qed
qed

lemma has_prefix_slash:
  "q \<noteq> [] \<and> has_prefix p (q @ ''/'') \<longleftrightarrow>
     (\<exists>k. 1 \<le> k \<and> k < length p \<and> p ! k = CHR ''/'' \<and> take k p = q)"
proof
  assume a: "q \<noteq> [] \<and> has_prefix p (q @ ''/'')"
  then obtain r where r: "p = q @ CHR ''/'' # r" by (auto simp: has_prefix_iff)
  have "1 \<le> length q" using a by (cases q) simp_all
  with r show "\<exists>k. 1 \<le> k \<and> k < length p \<and> p ! k = CHR ''/'' \<and> take k p = q"
    by (intro exI [of _ "length q"]) (simp add: nth_append)
next
  assume "\<exists>k. 1 \<le> k \<and> k < length p \<and> p ! k = CHR ''/'' \<and> take k p = q"
  then obtain k where k: "1 \<le> k" "k < length p" "p ! k = CHR ''/''" "take k p = q" by blast
  have "q \<noteq> []" using k by auto
  moreover have "p = q @ ''/'' @ drop (Suc k) p" using k id_take_nth_drop [of k p] by simp
  ultimately show "q \<noteq> [] \<and> has_prefix p (q @ ''/'')"
    unfolding has_prefix_iff by (metis append.assoc)
qed

lemma parent_routes_eq:
  assumes "index_ok s (length (routes s))"
  shows "parent_routes s p 1 = {i. i < length (routes s) \<and> wildcard (rpattern (routes s ! i)) \<and>
    path (rpattern (routes s ! i)) \<noteq> [] \<and> has_prefix p (path (rpattern (routes s ! i)) @ ''/'')}"
proof -
  have "set (indexed (wildcardRoutes s) k) = filed s True k" for k
    using assms by (auto simp: index_ok_def filed_def)
  then show ?thesis
    unfolding parent_routes_def filed_def by (auto simp: has_prefix_slash)
qed

lemma is_best_exact_wins:
  assumes "is_best s E (Some c)" and "\<forall>i \<in> E. \<not> wildcard (rpattern (routes s ! i))"
    and "\<forall>i \<in> F. wildcard (rpattern (routes s ! i))"
  shows "is_best s (E \<union> F) (Some c)"
proof -
  obtain i where i: "i \<in> E" "c = routeCandidate s i"
    "\<forall>j \<in> E. cand_key (routeCandidate s j) \<le> cand_key c"
    using assms(1) by (auto simp: is_best_def)
  have "cand_key (routeCandidate s j) < cand_key c" if "j \<in> F" for j
    using that assms(2,3) i(1,2) by (auto simp: cand_key_def routeCandidate_def Let_def less_prod_def')
  with i show ?thesis by (auto simp: is_best_def less_imp_le)
qed

lemma selectRoute_best:
  assumes "site_ok s"
  shows "is_best s (eligible s req) (selectRoute s req)"
proof (cases "exactRoutes s")
  case None
  define m where "m = new_match_state req (siteTrust s)"
  let ?p = "Path (URL req)"
  obtain m' sel where r: "scan_routes s ?p [0..<length (routes s)] m None = (m', sel)" by fastforce
  have "cache_ok (siteTrust s) req m" by (simp add: m_def)
  from scan_routes_best [OF this is_best_empty r] None r show ?thesis
    by (simp add: selectRoute_def eligible_def m_def)
next
  case (Some exact)
  define m where "m = new_match_state req (siteTrust s)"
  let ?p = "Path (URL req)" and ?W = "wildcardRoutes s"
  have ix: "index_ok s (length (routes s))" using assms Some by (simp add: site_ok_def)
  then have sets: "set (indexed exact k) = filed s False k" "set (indexed ?W k) = filed s True k" for k
    using Some by (auto simp: index_ok_def filed_def)
  have all: "eligible s req = matching s req (filed s False ?p) \<union> (matching s req (filed s True [])
      \<union> matching s req (parent_routes s ?p 1) \<union> matching s req (filed s True ?p))"
    unfolding eligible_def matching_patterns parent_routes_eq [OF ix] matching_simps(3) by blast
  obtain m1 sel1 where r1: "try_routes s (indexed exact ?p) m None = (m1, sel1)" by fastforce
  have "cache_ok (siteTrust s) req m" by (simp add: m_def)
  from try_routes_best [OF this is_best_empty r1]
  have b1: "cache_ok (siteTrust s) req m1" "is_best s (matching s req (filed s False ?p)) sel1"
    by (simp_all add: sets)
  show ?thesis
  proof (cases sel1)
    case (Some c)
    then have "selectRoute s req = Some c"
      using r1 \<open>exactRoutes s = Some exact\<close> by (simp add: selectRoute_def m_def)
    moreover have "is_best s (eligible s req) (Some c)"
      unfolding all using b1(2) Some
      by (intro is_best_exact_wins) (auto simp: matching_def filed_def parent_routes_eq [OF ix, unfolded One_nat_def])
    ultimately show ?thesis by simp
  next
    case None
    then have E: "matching s req (filed s False ?p) = {}" using b1(2) by (simp add: is_best_def)
    obtain m2 sel2 where r2: "try_routes s (indexed ?W []) m1 None = (m2, sel2)" by fastforce
    from try_routes_best [OF b1(1) is_best_empty r2]
    have b2: "cache_ok (siteTrust s) req m2" "is_best s (matching s req (filed s True [])) sel2"
      by (simp_all add: sets)
    obtain m3 sel3 where r3: "try_parents s ?p 1 m2 sel2 = (m3, sel3)" by fastforce
    note b3 = try_parents_best [OF b2 r3]
    obtain m4 sel4 where r4: "try_routes s (indexed ?W ?p) m3 sel3 = (m4, sel4)" by fastforce
    from try_routes_best [OF _ _ r4] b3 have "is_best s (eligible s req) sel4"
      by (simp add: all E sets)
    moreover have "selectRoute s req = sel4"
      using r1 r2 r3 r4 None \<open>exactRoutes s = Some exact\<close> by (simp add: selectRoute_def m_def)
    ultimately show ?thesis by simp
  qed
qed

section \<open>Properties\<close>

lemma is_best_routes:
  fixes s t :: "('p, 'g) site"
  assumes "routes s = routes t"
  shows "is_best s E b = is_best t E b"
proof -
  have "routeCandidate s = routeCandidate t"
    using assms by (simp add: routeCandidate_def fun_eq_iff)
  then show ?thesis by (cases b) (simp_all add: is_best_def)
qed

lemma eligible_routes:
  "routes s = routes t \<Longrightarrow> siteTrust s = siteTrust t \<Longrightarrow> eligible s req = eligible t req"
  by (simp add: eligible_def matching_def)

text \<open>C11. The route index changes nothing: a site with the two hash indexes selects, for every
  request, the same route as a scan of all routes.\<close>

theorem selectRoute_index_is_scan:
  "selectRoute (buildRouteIndex s) req = selectRoute (s\<lparr>exactRoutes := None\<rparr>) req"
proof -
  have "is_best s (eligible s req) (selectRoute (buildRouteIndex s) req)"
    using selectRoute_best [of "buildRouteIndex s" req] buildRouteIndex_ok [of s]
      is_best_routes [of "buildRouteIndex s" s] eligible_routes [of "buildRouteIndex s" s req]
    by (simp add: site_ok_def)
  moreover have "is_best s (eligible s req) (selectRoute (s\<lparr>exactRoutes := None\<rparr>) req)"
    using selectRoute_best [of "s\<lparr>exactRoutes := None\<rparr>" req]
      is_best_routes [of "s\<lparr>exactRoutes := None\<rparr>" s] eligible_routes [of "s\<lparr>exactRoutes := None\<rparr>" s req]
    by (simp add: site_ok_def)
  ultimately show ?thesis by (rule is_best_unique)
qed

text \<open>The selected route is the best of those that match: none is selected only if no route's
  pattern and conditions match, and a selected route matches and beats every other matching
  route under \<open>betterRoute\<close>.\<close>

theorem selectRoute_selects_best:
  assumes "exactRoutes s = None \<or> (\<exists>t. s = buildRouteIndex t)"
  shows "case selectRoute s req of
      None \<Rightarrow> (\<forall>i < length (routes s).
        pattern_match (rpattern (routes s ! i)) (Path (URL req)) = None \<or>
        \<not> route_matches (siteTrust s) req (routes s ! i))
    | Some c \<Rightarrow> (\<exists>i < length (routes s). c = routeCandidate s i \<and>
        pattern_match (rpattern (routes s ! i)) (Path (URL req)) \<noteq> None \<and>
        route_matches (siteTrust s) req (routes s ! i) \<and>
        (\<forall>j < length (routes s). j \<noteq> i \<and>
          pattern_match (rpattern (routes s ! j)) (Path (URL req)) \<noteq> None \<and>
          route_matches (siteTrust s) req (routes s ! j) \<longrightarrow>
          betterRoute c (routeCandidate s j) \<and> \<not> betterRoute (routeCandidate s j) c))"
proof -
  have ok: "site_ok s" using assms by (auto simp: site_ok_def buildRouteIndex_ok)
  have e: "i \<in> eligible s req \<longleftrightarrow> i < length (routes s) \<and>
      pattern_match (rpattern (routes s ! i)) (Path (URL req)) \<noteq> None \<and>
      route_matches (siteTrust s) req (routes s ! i)" for i
    by (auto simp: eligible_def matching_def)
  show ?thesis
  proof (cases "selectRoute s req")
    case None
    with selectRoute_best [OF ok, of req] have "eligible s req = {}" by (simp add: is_best_def)
    with None e show ?thesis by auto
  next
    case (Some c)
    with selectRoute_best [OF ok, of req] obtain i where i: "i \<in> eligible s req"
      "c = routeCandidate s i" "\<forall>j \<in> eligible s req. cand_key (routeCandidate s j) \<le> cand_key c"
      by (auto simp: is_best_def)
    have "betterRoute c (routeCandidate s j) \<and> \<not> betterRoute (routeCandidate s j) c"
      if "j \<in> eligible s req" "j \<noteq> i" for j
    proof -
      have "cand_key (routeCandidate s j) \<noteq> cand_key c" using that(2) i(2) by (simp add: cand_key_inj)
      with i(3) that(1) have "cand_key (routeCandidate s j) < cand_key c" by (simp add: order_less_le)
      then show ?thesis by (simp add: betterRoute_key order_less_not_sym)
    qed
    with i e Some show ?thesis by auto
  qed
qed

text \<open>The verdicts of a sequence of routes tried on one match state.\<close>

fun run_matches :: "('p, 'g) route list \<Rightarrow> routeMatchState \<Rightarrow> bool list" where
  "run_matches [] m = []"
| "run_matches (r # rs) m = (case matches r m of (ok, m') \<Rightarrow> ok # run_matches rs m')"

lemma run_matches_asks: "run_matches rs m = fst (ask_all matches rs m)"
  by (induction rs arbitrary: m) (simp_all add: split_beta)

lemma run_matches_ok:
  "cache_ok trust req m \<Longrightarrow> run_matches rs m = map (route_matches trust req) rs"
  by (simp add: run_matches_asks cached.ask_all_pure)

text \<open>Caching the parsed query and the client address across routes never changes a decision:
  every route tried on the shared state gets the verdict its conditions have on the request.\<close>

theorem match_caches_transparent:
  "run_matches rs (new_match_state req trust) = map (route_matches trust req) rs"
  by (rule run_matches_ok) simp

lemma compile_conditions_set:
  "set (compile_conditions m) = (\<lambda>(n, a). \<lparr>cname = n, alternatives = a\<rparr>) ` set m"
  by (induction m rule: compile_conditions.induct) auto

lemma compile_conditions_length [simp]: "length (compile_conditions m) = length m"
  by (induction m rule: compile_conditions.induct) auto

lemma count_alternatives_sum: "count_alternatives m = sum_list (map (length \<circ> snd) m)"
  by (induction m rule: count_alternatives.induct) auto

lemma permuted_config:
  assumes "distinct m" "distinct m'" "set m = set m'"
  shows "set (compile_conditions m) = set (compile_conditions m')"
    and "length m = length m'" and "count_alternatives m = count_alternatives m'"
proof -
  show "set (compile_conditions m) = set (compile_conditions m')"
    by (simp add: compile_conditions_set assms(3))
  show "length m = length m'" using assms distinct_card [of m] distinct_card [of m'] by simp
  show "count_alternatives m = count_alternatives m'"
    using sum.distinct_set_conv_list [OF assms(1), of "length \<circ> snd"]
      sum.distinct_set_conv_list [OF assms(2), of "length \<circ> snd"] assms(3)
    by (simp add: count_alternatives_sum)
qed

text \<open>The random order in which a Go map iterates over the configured conditions has no
  effect: two compilations of the same conditions match the same requests and rank the same.\<close>

theorem compileRouteMatch_order_independent:
  assumes "wf_gomap (MatchHeader a)" "wf_gomap (MatchHeader b)" "set (MatchHeader a) = set (MatchHeader b)"
    and "wf_gomap (MatchQuery a)" "wf_gomap (MatchQuery b)" "set (MatchQuery a) = set (MatchQuery b)"
    and "MatchIP a = MatchIP b"
  shows "route_matches trust req (r\<lparr>rmatch := compileRouteMatch a\<rparr>) =
      route_matches trust req (r\<lparr>rmatch := compileRouteMatch b\<rparr>) \<and>
    conditionCount (r\<lparr>rmatch := compileRouteMatch a\<rparr>) = conditionCount (r\<lparr>rmatch := compileRouteMatch b\<rparr>) \<and>
    alternativeCount (r\<lparr>rmatch := compileRouteMatch a\<rparr>) = alternativeCount (r\<lparr>rmatch := compileRouteMatch b\<rparr>)"
proof -
  have d: "distinct (MatchHeader a)" "distinct (MatchHeader b)" "distinct (MatchQuery a)"
    "distinct (MatchQuery b)"
    using assms by (auto simp: wf_gomap_def distinct_map)
  note h = permuted_config [OF d(1,2) assms(3)] and q = permuted_config [OF d(3,4) assms(6)]
  have nil: "compile_conditions m = [] \<longleftrightarrow> m = []" for m
    by (metis compile_conditions_length length_0_conv)
  have "MatchQuery a = [] \<longleftrightarrow> MatchQuery b = []" using q(2) by (metis length_0_conv)
  with h q assms(7) show ?thesis
    by (simp add: route_matches_def compileRouteMatch_def conditionCount_def alternativeCount_def nil)
qed

section \<open>Witnesses\<close>

definition demo_route :: "string \<Rightarrow> bool \<Rightarrow> nat \<Rightarrow> string list \<Rightarrow> (unit, unit) route" where
  "demo_route p w d ms =
     \<lparr>rpattern = \<lparr>path = p, rawPath = p, wildcard = w, depth = d\<rparr>, methods = ms,
      rmatch = \<lparr>headerConds = [], queryConds = [], ipConds = [], altCount = 0\<rparr>,
      proxy = Some (), respond = None, strip = False\<rparr>"

definition demo_site :: "(unit, unit) site" where
  "demo_site =
     \<lparr>hosts = [], siteProxy = None,
      routes = [demo_route ''/a'' True 1 [], demo_route ''/a/b'' True 2 [''POST''],
                demo_route ''/a/b'' True 2 [''GET'', ''HEAD'']],
      siteTrust = [], exactRoutes = None, wildcardRoutes = Map.empty\<rparr>"

definition demo_match_request :: request where
  "demo_match_request = blank_request\<lparr>Method := ''GET'',
     URL := \<lparr>Scheme = [], UHost = [], Path = ''/a/b/c'', RawPath = [], RawQuery = [],
       ForceQuery = False\<rparr>\<rparr>"

theorem selectRoute_selects_best_witness:
  "map_option candIndex (selectRoute (buildRouteIndex demo_site) demo_match_request) = Some 2 \<and>
   (\<exists>c. selectRoute (buildRouteIndex demo_site) demo_match_request = Some c \<and>
      betterRoute c (routeCandidate demo_site 0))"
proof -
  have sel: "map_option candIndex (selectRoute (buildRouteIndex demo_site) demo_match_request) = Some 2"
    by code_simp
  then obtain c where c: "selectRoute (buildRouteIndex demo_site) demo_match_request = Some c"
    "candIndex c = 2" by auto
  have cand: "routeCandidate (buildRouteIndex demo_site) = routeCandidate demo_site"
    by (simp add: routeCandidate_def fun_eq_iff)
  have len: "length (routes demo_site) = 3" by (simp add: demo_site_def)
  have zero: "pattern_match (rpattern (routes demo_site ! 0)) (Path (URL demo_match_request)) \<noteq> None"
    by code_simp
  have rm: "route_matches (siteTrust demo_site) demo_match_request (routes demo_site ! 0)"
    by (simp add: route_matches_def demo_site_def demo_route_def)
  from selectRoute_selects_best [of "buildRouteIndex demo_site" demo_match_request] c len cand
  obtain i where i: "c = routeCandidate demo_site i"
    "\<forall>j < 3. j \<noteq> i \<and> pattern_match (rpattern (routes demo_site ! j)) (Path (URL demo_match_request)) \<noteq> None \<and>
       route_matches (siteTrust demo_site) demo_match_request (routes demo_site ! j) \<longrightarrow>
       betterRoute c (routeCandidate demo_site j)"
    by auto
  have "i = 2" using i(1) c(2) by (simp add: routeCandidate_def Let_def)
  then have "betterRoute c (routeCandidate demo_site 0)"
    using i(2) zero rm by (metis zero_less_numeral zero_neq_numeral)
  with sel c show ?thesis by blast
qed

definition demo_conditions :: "(string, string list) gomap \<Rightarrow> routeMatchConfig" where
  "demo_conditions h = \<lparr>MatchHeader = h, MatchQuery = [], MatchIP = []\<rparr>"

theorem compileRouteMatch_order_independent_witness:
  "alternativeCount ((demo_route ''/'' True 0 [])\<lparr>rmatch :=
      compileRouteMatch (demo_conditions [(''A'', [''1'']), (''B'', [''2'', ''3''])])\<rparr>) =
   alternativeCount ((demo_route ''/'' True 0 [])\<lparr>rmatch :=
      compileRouteMatch (demo_conditions [(''B'', [''2'', ''3'']), (''A'', [''1''])])\<rparr>)"
  using compileRouteMatch_order_independent
    [of "demo_conditions [(''A'', [''1'']), (''B'', [''2'', ''3''])]"
        "demo_conditions [(''B'', [''2'', ''3'']), (''A'', [''1''])]"]
  by (auto simp: demo_conditions_def wf_gomap_def)

end
