(* ===== verification/Schedule.thy ===== *)
theory Schedule
  imports Prelude "HOL-Library.Word"
begin

text \<open>
  The weighted target schedule of a backend (\<open>src/proxy.go\<close>): \<open>validateTargetWeights\<close>,
  \<open>buildTargetSchedule\<close> (smooth weighted round robin) and \<open>nextScheduledTargetIndex\<close>, which
  walks the schedule with a 64-bit atomic counter. Weights are mathematical integers: after
  \<open>validateTargetWeights\<close> every intermediate value of the schedule lies strictly between minus
  the total and the number of targets times the total, far inside 64 bits.
\<close>

definition maxTargetWeight :: int where "maxTargetWeight = 1000"
definition maxTargetWeightTotal :: int where "maxTargetWeightTotal = 10000"

section \<open>Validation\<close>

fun validate_weights_from :: "nat \<Rightarrow> int \<Rightarrow> int list \<Rightarrow> unit res" where
  "validate_weights_from i tot [] = Inr ()"
| "validate_weights_from i tot (w # ws) =
     (if w < 1 \<or> w > maxTargetWeight
      then Inl (Err ''item %d must be between 1 and %d'' [N (int i), N maxTargetWeight])
      else if tot > maxTargetWeightTotal - w
      then Inl (Err ''sum must not exceed %d'' [N maxTargetWeightTotal])
      else validate_weights_from (Suc i) (tot + w) ws)"

definition validateTargetWeights :: "int list \<Rightarrow> nat \<Rightarrow> unit res" where
  "validateTargetWeights weights targetCount =
     (if length weights = 0 then Inl (Err ''must not be empty'' [])
      else if length weights \<noteq> targetCount
      then Inl (Err ''must contain one item per target'' [])
      else validate_weights_from 0 0 weights)"

section \<open>Smooth weighted round robin\<close>

text \<open>The inner loop, from \<open>index = i\<close>: the chosen index and the raised \<open>current\<close>.\<close>

fun pick_target :: "nat \<Rightarrow> nat \<Rightarrow> int list \<Rightarrow> int list \<Rightarrow> nat \<times> int list" where
  "pick_target i selected current [] = (selected, current)"
| "pick_target i selected current (w # ws) =
     (let current' = current[i := current ! i + w];
          selected' = (if i = 0 \<or> current' ! i > current' ! selected then i else selected)
      in pick_target (Suc i) selected' current' ws)"

fun schedule_rounds :: "nat \<Rightarrow> int \<Rightarrow> int list \<Rightarrow> int list \<Rightarrow> nat list" where
  "schedule_rounds 0 tot weights current = []"
| "schedule_rounds (Suc n) tot weights current =
     (let (selected, current1) = pick_target 0 0 current weights;
          current2 = current1[selected := current1 ! selected - tot]
      in selected # schedule_rounds n tot weights current2)"

definition buildTargetSchedule :: "int list \<Rightarrow> nat list" where
  "buildTargetSchedule weights =
     (let tot = sum_list weights
      in schedule_rounds (nat tot) tot weights (replicate (length weights) 0))"

section \<open>Walking the schedule\<close>

text \<open>
  \<open>n\<close> is \<open>len(b.targets)\<close> and \<open>w\<close> the counter \<open>nextIndex\<close>, which wraps at 64 bits. The result
  is the target index and the new counter.
\<close>

definition schedule_slots :: "nat \<Rightarrow> nat list \<Rightarrow> nat" where
  "schedule_slots n schedule = (if length schedule > 0 then length schedule else n)"

definition slot_target :: "nat list \<Rightarrow> nat \<Rightarrow> nat" where
  "slot_target schedule i = (if length schedule > 0 then schedule ! i else i)"

definition nextScheduledTargetIndex :: "nat \<Rightarrow> nat list \<Rightarrow> 64 word \<Rightarrow> nat \<times> 64 word" where
  "nextScheduledTargetIndex n schedule w =
     (let count = schedule_slots n schedule in
      if count = 1 then (if length schedule > 0 then schedule ! 0 else 0, w)
      else (slot_target schedule (unat (w mod of_nat count)), w + 1))"

section \<open>Validated weights\<close>

lemma validate_weights_iff:
  "validate_weights_from i tot ws = Inr () \<longleftrightarrow>
     (\<forall>w \<in> set ws. 1 \<le> w \<and> w \<le> maxTargetWeight) \<and>
     (\<forall>k \<le> length ws. 0 < k \<longrightarrow> tot + sum_list (take k ws) \<le> maxTargetWeightTotal)"
proof (induction ws arbitrary: i tot)
  case Nil
  then show ?case by simp
next
  case (Cons w ws)
  have all: "(\<forall>k \<le> length (w # ws). 0 < k \<longrightarrow> tot + sum_list (take k (w # ws)) \<le> maxTargetWeightTotal) \<longleftrightarrow>
      (\<forall>k \<le> length ws. tot + w + sum_list (take k ws) \<le> maxTargetWeightTotal)"
    by (auto simp: take_Cons' add.assoc)
  have zero: "(\<forall>k \<le> length ws. P k) \<longleftrightarrow> P 0 \<and> (\<forall>k \<le> length ws. 0 < k \<longrightarrow> P k)" for P
    by (metis gr0I le0)
  show ?case
    unfolding validate_weights_from.simps all zero [of "\<lambda>k. tot + w + sum_list (take k ws) \<le> _"]
    by (auto simp: Cons)
qed

lemma validateTargetWeights_iff:
  assumes "validateTargetWeights ws n = Inr ()"
  shows "ws \<noteq> []" "length ws = n" "\<forall>w \<in> set ws. 1 \<le> w" "sum_list ws \<le> maxTargetWeightTotal"
proof -
  show "ws \<noteq> []" "length ws = n" using assms by (auto simp: validateTargetWeights_def split: if_splits)
  then have v: "validate_weights_from 0 0 ws = Inr ()"
    using assms by (simp add: validateTargetWeights_def split: if_splits)
  then show "\<forall>w \<in> set ws. 1 \<le> w" by (simp add: validate_weights_iff)
  from v \<open>ws \<noteq> []\<close> have "0 + sum_list (take (length ws) ws) \<le> maxTargetWeightTotal"
    unfolding validate_weights_iff by (metis length_greater_0_conv order_refl)
  then show "sum_list ws \<le> maxTargetWeightTotal" by simp
qed

section \<open>One round\<close>

lemma pick_target_spec:
  assumes "i + length ws = length cur" and "cur \<noteq> []"
    and "0 < i \<Longrightarrow> sel < i \<and> (\<forall>j < i. cur ! j \<le> cur ! sel)"
    and "ws = [] \<Longrightarrow> 0 < i"
    and "pick_target i sel cur ws = (s, c)"
  shows "c = take i cur @ map2 (+) (drop i cur) ws \<and> s < length cur \<and> (\<forall>j < length cur. c ! j \<le> c ! s)"
  using assms
proof (induction ws arbitrary: i sel cur)
  case Nil
  then show ?case by auto
next
  case (Cons w ws)
  define cur' where "cur' = cur[i := cur ! i + w]"
  define sel' where "sel' = (if i = 0 \<or> cur' ! i > cur' ! sel then i else sel)"
  have i: "i < length cur" using Cons.prems(1) by simp
  have "pick_target (Suc i) sel' cur' ws = (s, c)"
    using Cons.prems(5) by (simp add: cur'_def sel'_def Let_def)
  moreover have "sel' < Suc i \<and> (\<forall>j < Suc i. cur' ! j \<le> cur' ! sel')"
  proof (cases "i = 0")
    case True
    then show ?thesis by (simp add: sel'_def)
  next
    case False
    then have s: "sel < i" "\<forall>j < i. cur ! j \<le> cur ! sel" using Cons.prems(3) by auto
    then have same: "\<forall>j < i. cur' ! j = cur ! j" by (simp add: cur'_def)
    show ?thesis
    proof (cases "cur' ! i > cur' ! sel")
      case True
      with s same show ?thesis
        by (auto simp: sel'_def less_Suc_eq)
    next
      case gt: False
      with s same False show ?thesis by (auto simp: sel'_def less_Suc_eq)
    qed
  qed
  ultimately have 1: "c = take (Suc i) cur' @ map2 (+) (drop (Suc i) cur') ws \<and> s < length cur' \<and>
      (\<forall>j < length cur'. c ! j \<le> c ! s)"
    using Cons.IH [of "Suc i" cur' sel'] Cons.prems(1,2) by (auto simp: cur'_def)
  then have "c = take (Suc i) cur' @ map2 (+) (drop (Suc i) cur') ws" by blast
  moreover have "take (Suc i) cur' = take i cur @ [cur ! i + w]" "drop (Suc i) cur' = drop (Suc i) cur"
    using i by (simp_all add: cur'_def take_Suc_conv_app_nth)
  moreover have "drop i cur = cur ! i # drop (Suc i) cur" using i by (simp add: Cons_nth_drop_Suc)
  ultimately have "c = take i cur @ map2 (+) (drop i cur) (w # ws)" by (simp add: cur'_def)
  moreover from 1 have "s < length cur \<and> (\<forall>j < length cur. c ! j \<le> c ! s)"
    unfolding cur'_def length_list_update by blast
  ultimately show ?case by blast
qed

lemma pick_target_max:
  assumes "length cur = length ws" and "ws \<noteq> []" and "pick_target 0 0 cur ws = (s, c)"
  shows "c = map2 (+) cur ws" "s < length ws" "\<forall>j < length ws. c ! j \<le> c ! s"
proof -
  have "cur \<noteq> []" using assms(1,2) by auto
  then show "c = map2 (+) cur ws" "s < length ws" "\<forall>j < length ws. c ! j \<le> c ! s"
    using pick_target_spec [of 0 ws cur 0 s c] assms by auto
qed

lemma sum_list_map2_add:
  "length xs = length ys \<Longrightarrow> sum_list (map2 (+) xs ys) = sum_list xs + (sum_list ys :: int)"
  by (induction xs ys rule: list_induct2) auto

lemma sum_list_le_length_times:
  "\<forall>x \<in> set xs. x \<le> (b::int) \<Longrightarrow> sum_list xs \<le> int (length xs) * b"
  by (induction xs) (auto simp: algebra_simps)

lemma sum_list_upd: "i < length xs \<Longrightarrow> sum_list (xs[i := x]) = sum_list xs - xs ! i + (x::int)"
  by (induction xs arbitrary: i) (auto split: nat.splits)

lemma round_spec:
  assumes len: "length cur = length ws" and ne: "ws \<noteq> []" and pos: "\<forall>w \<in> set ws. 1 \<le> w"
    and tot: "tot = sum_list ws" and zero: "sum_list cur = 0"
    and low: "\<forall>i < length ws. - tot < cur ! i"
    and p: "pick_target 0 0 cur ws = (s, c)"
  shows "s < length ws"
    and "i < length ws \<Longrightarrow> (c[s := c ! s - tot]) ! i = cur ! i + ws ! i - (if i = s then tot else 0)"
    and "sum_list (c[s := c ! s - tot]) = 0"
    and "\<forall>i < length ws. - tot < (c[s := c ! s - tot]) ! i"
    and "length (c[s := c ! s - tot]) = length ws"
proof -
  note m = pick_target_max [OF len ne p]
  show s: "s < length ws" by (rule m)
  have nth: "c ! i = cur ! i + ws ! i" if "i < length ws" for i
    using that len by (simp add: m(1))
  have lc: "length c = length ws" using len by (simp add: m(1))
  show "length (c[s := c ! s - tot]) = length ws" by (simp add: lc)
  show "i < length ws \<Longrightarrow> (c[s := c ! s - tot]) ! i = cur ! i + ws ! i - (if i = s then tot else 0)"
    using lc by (auto simp: nth nth_list_update)
  have sum: "sum_list c = tot" using len tot zero by (simp add: m(1) sum_list_map2_add)
  then show "sum_list (c[s := c ! s - tot]) = 0" using s lc by (simp add: sum_list_upd)
  have "0 < sum_list ws"
  proof -
    have "0 \<le> sum_list (tl ws)" using pos by (intro sum_list_nonneg) (cases ws; force)
    moreover have "1 \<le> hd ws" using pos ne by simp
    moreover have "sum_list ws = hd ws + sum_list (tl ws)" using ne by (cases ws) simp_all
    ultimately show ?thesis by linarith
  qed
  then have "0 < sum_list c" using sum tot by simp
  moreover have "sum_list c \<le> int (length c) * c ! s"
    using m(3) lc by (intro sum_list_le_length_times) (auto simp: in_set_conv_nth)
  ultimately have "0 < c ! s" by (metis less_le_trans mult_nonneg_nonpos not_less of_nat_0_le_iff)
  show "\<forall>i < length ws. - tot < (c[s := c ! s - tot]) ! i"
  proof (intro allI impI)
    fix i assume i: "i < length ws"
    then have "1 \<le> ws ! i" using pos by simp
    then show "- tot < (c[s := c ! s - tot]) ! i"
      using low i s lc \<open>0 < c ! s\<close> nth [OF i] by (cases "i = s") auto
  qed
qed

section \<open>The whole schedule\<close>

lemma schedule_rounds_length [simp]: "length (schedule_rounds n tot ws cur) = n"
  by (induction n tot ws cur rule: schedule_rounds.induct) (auto simp: Let_def split: prod.splits)

lemma schedule_rounds_spec:
  assumes "length cur = length ws" and "ws \<noteq> []" and "\<forall>w \<in> set ws. 1 \<le> w"
    and "tot = sum_list ws" and "sum_list cur = 0" and "\<forall>i < length ws. - tot < cur ! i"
  shows "set (schedule_rounds n tot ws cur) \<subseteq> {..<length ws} \<and>
    (\<forall>m \<le> n. \<forall>i < length ws. - tot < cur ! i + int m * ws ! i
       - tot * int (count_list (take m (schedule_rounds n tot ws cur)) i))"
  using assms
proof (induction n arbitrary: cur)
  case 0
  then show ?case by simp
next
  case (Suc n)
  obtain s c where p: "pick_target 0 0 cur ws = (s, c)" by fastforce
  define cur2 where "cur2 = c[s := c ! s - tot]"
  let ?R = "schedule_rounds n tot ws cur2"
  have R: "schedule_rounds (Suc n) tot ws cur = s # ?R" by (simp add: p Let_def cur2_def)
  note r = round_spec [OF Suc.prems p, folded cur2_def]
  have IH: "set ?R \<subseteq> {..<length ws}" "\<And>m i. m \<le> n \<Longrightarrow> i < length ws \<Longrightarrow>
      - tot < cur2 ! i + int m * ws ! i - tot * int (count_list (take m ?R) i)"
    using Suc.IH [OF r(5) Suc.prems(2-4) r(3,4)] by blast+
  have "- tot < cur ! i + int m * ws ! i - tot * int (count_list (take m (s # ?R)) i)"
    if mi: "m \<le> Suc n" "i < length ws" for m i
  proof (cases m)
    case 0
    then show ?thesis using Suc.prems(6) mi by simp
  next
    case (Suc k)
    then have "- tot < cur2 ! i + int k * ws ! i - tot * int (count_list (take k ?R) i)"
      using IH(2) mi by simp
    then show ?thesis using r(2) [OF mi(2)] Suc by (auto simp: algebra_simps split: if_splits)
  qed
  then show ?case unfolding R using IH(1) r(1) by auto
qed

lemma schedule_spec:
  assumes "validateTargetWeights ws n = Inr ()"
  shows "length (buildTargetSchedule ws) = nat (sum_list ws)"
    and "set (buildTargetSchedule ws) \<subseteq> {..<n}"
    and "m \<le> length (buildTargetSchedule ws) \<Longrightarrow> i < n \<Longrightarrow>
      sum_list ws * int (count_list (take m (buildTargetSchedule ws)) i) < int m * ws ! i + sum_list ws"
proof -
  note v = validateTargetWeights_iff [OF assms]
  show "length (buildTargetSchedule ws) = nat (sum_list ws)"
    by (simp add: buildTargetSchedule_def Let_def)
  have "0 < sum_list ws"
    using v(1,3) by (cases ws) (auto intro!: add_pos_nonneg sum_list_nonneg)
  then have "set (buildTargetSchedule ws) \<subseteq> {..<length ws} \<and>
    (\<forall>m \<le> nat (sum_list ws). \<forall>i < length ws. - sum_list ws < replicate (length ws) 0 ! i + int m * ws ! i
       - sum_list ws * int (count_list (take m (buildTargetSchedule ws)) i))"
    unfolding buildTargetSchedule_def Let_def
    using v by (intro schedule_rounds_spec) (auto simp: sum_list_replicate)
  then show "set (buildTargetSchedule ws) \<subseteq> {..<n}"
    "m \<le> length (buildTargetSchedule ws) \<Longrightarrow> i < n \<Longrightarrow>
      sum_list ws * int (count_list (take m (buildTargetSchedule ws)) i) < int m * ws ! i + sum_list ws"
    using v(2) \<open>length (buildTargetSchedule ws) = nat (sum_list ws)\<close> by (auto simp: algebra_simps)
qed

lemma sum_count_list:
  "set xs \<subseteq> {..<n::nat} \<Longrightarrow> (\<Sum>i<n. count_list xs i) = length xs"
  by (rule sum_count_set) auto

section \<open>Walking it\<close>

text \<open>The results of \<open>k\<close> calls in a row.\<close>

fun scheduled_targets :: "nat \<Rightarrow> nat \<Rightarrow> nat list \<Rightarrow> 64 word \<Rightarrow> nat list" where
  "scheduled_targets 0 n schedule w = []"
| "scheduled_targets (Suc k) n schedule w =
     (case nextScheduledTargetIndex n schedule w of
        (t, w') \<Rightarrow> t # scheduled_targets k n schedule w')"

lemma unat_mod_count:
  assumes "0 < c" and "c < 2 ^ 64"
  shows "unat ((w::64 word) mod of_nat c) = unat w mod c"
  using assms by (simp add: unat_mod unat_of_nat)

lemma next_scheduled:
  assumes "0 < schedule_slots n schedule" and "schedule_slots n schedule < 2 ^ 64"
  shows "fst (nextScheduledTargetIndex n schedule w) =
      slot_target schedule (unat w mod schedule_slots n schedule)"
  using assms
  by (auto simp: nextScheduledTargetIndex_def Let_def unat_mod_count slot_target_def schedule_slots_def
      split: if_splits)

lemma scheduled_targets_slots:
  assumes "0 < schedule_slots n schedule" and "schedule_slots n schedule < 2 ^ 64"
    and "unat w + k \<le> 2 ^ 64"
  shows "scheduled_targets k n schedule w =
    map (\<lambda>j. slot_target schedule ((unat w + j) mod schedule_slots n schedule)) [0..<k]"
  using assms(3)
proof (induction k arbitrary: w)
  case 0
  then show ?case by simp
next
  case (Suc k)
  let ?c = "schedule_slots n schedule"
  obtain t w' where n: "nextScheduledTargetIndex n schedule w = (t, w')" by fastforce
  have t: "t = slot_target schedule (unat w mod ?c)" using next_scheduled [OF assms(1,2), of w] n by simp
  have shift: "map (\<lambda>j. slot_target schedule ((unat w + j) mod ?c)) [0..<Suc k] =
      slot_target schedule (unat w mod ?c)
        # map (\<lambda>j. slot_target schedule ((Suc (unat w) + j) mod ?c)) [0..<k]"
    by (simp add: upt_conv_Cons map_Suc_upt [symmetric] comp_def del: upt_Suc)
  show ?case
  proof (cases "?c = 1 \<or> k = 0")
    case True
    then show ?thesis
    proof
      assume "k = 0"
      then show ?thesis using n t by simp
    next
      assume c: "?c = 1"
      then have w': "w' = w" using n by (auto simp: nextScheduledTargetIndex_def)
      have "scheduled_targets k n schedule w = map (\<lambda>j. slot_target schedule 0) [0..<k]"
        using Suc.IH [of w] Suc.prems c by simp
      then show ?thesis using n t c w' shift by simp
    qed
  next
    case False
    then have w': "w' = w + 1" using n by (auto simp: nextScheduledTargetIndex_def Let_def split: if_splits)
    have "unat w + 1 < 2 ^ 64" using Suc.prems False by simp
    then have "unat w' = Suc (unat w)"
      unfolding w' by (simp add: unat_word_ariths)
    moreover have "unat w' + k \<le> 2 ^ 64" using Suc.prems calculation by simp
    ultimately show ?thesis using Suc.IH [of w'] n t shift by simp
  qed
qed

lemma count_list_rotate: "count_list (rotate m xs) i = count_list xs i"
proof -
  have "count_list (rotate m xs) i = count_list (drop (m mod length xs) xs @ take (m mod length xs) xs) i"
    by (simp add: rotate_drop_take)
  also have "\<dots> = count_list (take (m mod length xs) xs @ drop (m mod length xs) xs) i"
    by (simp only: count_list_append add.commute)
  finally show ?thesis by (simp only: append_take_drop_id)
qed

lemma scheduled_cycle:
  assumes "schedule \<noteq> []" and "length schedule < 2 ^ 64" and "unat w + length schedule \<le> 2 ^ 64"
  shows "scheduled_targets (length schedule) n schedule w = rotate (unat w) schedule"
proof (rule nth_equalityI)
  have s: "schedule_slots n schedule = length schedule" using assms(1) by (simp add: schedule_slots_def)
  note t = scheduled_targets_slots [of n schedule w "length schedule", unfolded s]
  show "length (scheduled_targets (length schedule) n schedule w) = length (rotate (unat w) schedule)"
    using t assms by simp
  fix i assume "i < length (scheduled_targets (length schedule) n schedule w)"
  then show "scheduled_targets (length schedule) n schedule w ! i = rotate (unat w) schedule ! i"
    using t assms by (simp add: nth_rotate slot_target_def)
qed

section \<open>Properties\<close>

lemma sum_list_pos: "ws \<noteq> [] \<Longrightarrow> \<forall>w \<in> set ws. (1::int) \<le> w \<Longrightarrow> 0 < sum_list ws"
  by (cases ws) (auto intro!: add_pos_nonneg sum_list_nonneg)

lemma sums_agree:
  assumes "\<And>i. i < (n::nat) \<Longrightarrow> (f i :: int) \<le> g i" and "sum f {..<n} = sum g {..<n}" and "i < n"
  shows "f i = g i"
proof (rule ccontr)
  assume "f i \<noteq> g i"
  with assms(1,3) have "f i < g i" by (simp add: order_less_le)
  then have "sum f {..<n} < sum g {..<n}"
    using assms(1,3) by (intro sum_strict_mono_ex1) auto
  with assms(2) show False by simp
qed

lemma schedule_counts:
  assumes "validateTargetWeights ws n = Inr ()"
  shows "\<forall>i < n. int (count_list (buildTargetSchedule ws) i) = ws ! i"
proof -
  let ?S = "buildTargetSchedule ws"
  note v = validateTargetWeights_iff [OF assms] and s = schedule_spec [OF assms]
  have pos: "0 < sum_list ws" using v by (intro sum_list_pos) auto
  have le: "int (count_list ?S i) \<le> ws ! i" if "i < n" for i
  proof -
    have "sum_list ws * int (count_list ?S i) < sum_list ws * (ws ! i + 1)"
      using s(3) [of "length ?S" i] that s(1) pos by (simp add: algebra_simps)
    then show ?thesis using pos by (simp add: mult_less_cancel_left_pos)
  qed
  have "(\<Sum>i<n. int (count_list ?S i)) = int (length ?S)"
    using sum_count_list [OF s(2)] by (metis of_nat_sum)
  also have "\<dots> = (\<Sum>i<n. ws ! i)"
    using s(1) pos v(2) by (simp add: sum_list_sum_nth atLeast0LessThan)
  finally show ?thesis
    using sums_agree [of n "\<lambda>i. int (count_list ?S i)" "\<lambda>i. ws ! i"] le by blast
qed

lemma schedule_set:
  assumes "validateTargetWeights ws n = Inr ()"
  shows "set (buildTargetSchedule ws) = {..<n}"
proof -
  let ?S = "buildTargetSchedule ws"
  note v = validateTargetWeights_iff [OF assms] and s = schedule_spec [OF assms]
  note eq = schedule_counts [OF assms]
  have "i \<in> set ?S" if "i < n" for i
  proof -
    have "1 \<le> ws ! i" using that v(2,3) by simp
    then show ?thesis using eq that count_list_0_iff [of ?S i] by fastforce
  qed
  with s(2) show ?thesis by auto
qed

text \<open>C20. Smooth weighted round robin is exact: the schedule of validated weights holds each target
  exactly as often as its weight says, and nothing else.\<close>

theorem schedule_realises_weights:
  assumes "validateTargetWeights ws n = Inr ()"
  shows "length (buildTargetSchedule ws) = nat (sum_list ws) \<and>
    set (buildTargetSchedule ws) = {..<n} \<and>
    (\<forall>i < n. int (count_list (buildTargetSchedule ws) i) = ws ! i)"
  using schedule_spec(1) [OF assms] schedule_counts [OF assms] schedule_set [OF assms] by auto

theorem schedule_realises_weights_witness:
  "count_list (buildTargetSchedule [2, 1]) 0 = 2 \<and> buildTargetSchedule [2, 1] = [0, 1, 0]"
proof -
  have "validateTargetWeights [2, 1] 2 = Inr ()"
    by (simp add: validateTargetWeights_def maxTargetWeight_def maxTargetWeightTotal_def)
  note schedule_realises_weights [OF this, THEN conjunct2, THEN conjunct2, rule_format, of 0]
  then have "int (count_list (buildTargetSchedule [2, 1]) 0) = [2, 1] ! 0"
    using zero_less_numeral [of "num.Bit0 num.One"] by (simp only:)
  then have "count_list (buildTargetSchedule [2, 1]) 0 = 2" by simp
  moreover have "buildTargetSchedule [2, 1] = [0, 1, 0]"
    by (simp add: buildTargetSchedule_def numeral_eq_Suc)
  ultimately show ?thesis by blast
qed

text \<open>No target runs ahead of its share: after any number of turns, a target was chosen less
  than one time more often than its fraction of the total weight.\<close>

theorem schedule_is_smooth:
  assumes "validateTargetWeights ws n = Inr ()" and "m \<le> length (buildTargetSchedule ws)" and "i < n"
  shows "sum_list ws * int (count_list (take m (buildTargetSchedule ws)) i) < int m * ws ! i + sum_list ws"
  by (rule schedule_spec(3) [OF assms])

theorem schedule_is_smooth_witness:
  "7 * int (count_list (take 2 (buildTargetSchedule [5, 1, 1])) 0) < int 2 * 5 + 7"
proof -
  have v: "validateTargetWeights [5, 1, 1] 3 = Inr ()"
    by (simp add: validateTargetWeights_def maxTargetWeight_def maxTargetWeightTotal_def)
  have len: "2 \<le> length (buildTargetSchedule [5, 1, 1])"
    using schedule_spec(1) [OF v] by simp
  have sum: "sum_list [5, 1, 1 :: int] = 7" "[5, 1, 1 :: int] ! 0 = 5" by simp_all
  have "(0::nat) < 3" by simp
  from schedule_is_smooth [OF v len this] show ?thesis by (simp only: sum)
qed

text \<open>Wherever the shared counter stands, as long as it does not wrap around, one cycle of calls
  of \<open>nextScheduledTargetIndex\<close> returns every target exactly as often as its weight says.\<close>

theorem scheduled_cycle_serves_weights:
  assumes "validateTargetWeights ws n = Inr ()" and "unat w + nat (sum_list ws) \<le> 2 ^ 64" and "i < n"
  shows "int (count_list (scheduled_targets (nat (sum_list ws)) n (buildTargetSchedule ws) w) i) = ws ! i"
proof -
  let ?S = "buildTargetSchedule ws"
  note v = validateTargetWeights_iff [OF assms(1)] and s = schedule_spec(1) [OF assms(1)]
  have pos: "0 < sum_list ws" using v by (intro sum_list_pos) auto
  have "length ?S < 2 ^ 64" using v(4) s by (simp add: maxTargetWeightTotal_def)
  moreover have "?S \<noteq> []" using s(1) pos by auto
  ultimately have "scheduled_targets (length ?S) n ?S w = rotate (unat w) ?S"
    using scheduled_cycle [of ?S w n] assms(2) s(1) by simp
  moreover have "int (count_list ?S i) = ws ! i" using schedule_counts [OF assms(1)] assms(3) by blast
  ultimately show ?thesis using s(1) by (simp add: count_list_rotate)
qed

theorem scheduled_cycle_serves_weights_witness:
  "int (count_list (scheduled_targets (nat 7) 3 (buildTargetSchedule [5, 1, 1]) 12345) 0) = 5"
proof -
  have v: "validateTargetWeights [5, 1, 1] 3 = Inr ()"
    by (simp add: validateTargetWeights_def maxTargetWeight_def maxTargetWeightTotal_def)
  have sum: "sum_list [5, 1, 1 :: int] = 7" "[5, 1, 1 :: int] ! 0 = 5" by simp_all
  have "unat (12345 :: 64 word) + nat (sum_list [5, 1, 1]) \<le> 2 ^ 64" by simp
  from scheduled_cycle_serves_weights [OF v this, of 0] show ?thesis
    by (simp only: sum zero_less_numeral simp_thms)
qed

end
