(* ===== verification/Health.thy ===== *)
theory Health
  imports Schedule RateLimit
begin

text \<open>
  Passive and active health of a backend's targets and the choice of a target
  (\<open>src/proxy.go\<close>): \<open>available\<close>, \<open>observe\<close>, \<open>observeProbe\<close>, \<open>observeFailureLocked\<close>,
  \<open>nextTargetIndex\<close>, \<open>nextHealthyTargetIndex\<close>, \<open>retryTargetIndex\<close>, and the retry budget. Times are
  nanoseconds; \<open>None\<close> is the zero \<open>time.Time\<close>. Each operation holds the target's mutex, so the
  operations on one target form a sequence; every operation gets the clock reading it makes, and a
  context's error is a boolean (or an option where the error is returned). The choice of a target
  is many such operations; here it is the call whose steps follow each other directly, and
  \<open>TargetChoice\<close> interleaves them.
\<close>

section \<open>Target health\<close>

record targetHealth =
  failures :: int
  until :: "int option"

record backendHealth =
  fail_limit :: int
  cool :: int

definition resetTargetHealth :: "targetHealth \<Rightarrow> targetHealth" where
  "resetTargetHealth t = t\<lparr>failures := 0, until := None\<rparr>"

definition fresh_target :: targetHealth where
  "fresh_target = \<lparr>failures = 0, until = None\<rparr>"

definition target_available :: "int \<Rightarrow> targetHealth \<Rightarrow> bool \<times> targetHealth" where
  "target_available now t =
     (case until t of
        None \<Rightarrow> (True, t)
      | Some u \<Rightarrow> if now < u then (False, t) else (True, t\<lparr>until := None, failures := 0\<rparr>))"

definition count_failure :: "backendHealth \<Rightarrow> int \<Rightarrow> targetHealth \<Rightarrow> targetHealth" where
  "count_failure h now t =
     (let t' = t\<lparr>failures := failures t + 1\<rparr> in
      if failures t' \<ge> fail_limit h then t'\<lparr>failures := 0, until := Some (now + cool h)\<rparr> else t')"

definition observeFailureLocked :: "backendHealth \<Rightarrow> int \<Rightarrow> targetHealth \<Rightarrow> targetHealth" where
  "observeFailureLocked h now t =
     (case until t of
        None \<Rightarrow> count_failure h now t
      | Some u \<Rightarrow>
          if now < u then t\<lparr>until := Some (u + cool h)\<rparr>
          else count_failure h now (t\<lparr>until := None, failures := 0\<rparr>))"

definition observe ::
  "backendHealth \<Rightarrow> int \<Rightarrow> bool \<Rightarrow> bool \<Rightarrow> bool \<Rightarrow> targetHealth \<Rightarrow> targetHealth" where
  "observe h now ctxErr response err t =
     (if response \<or> \<not> err then resetTargetHealth t
      else if ctxErr then t
      else observeFailureLocked h now t)"

definition observeProbe ::
  "backendHealth \<Rightarrow> int \<Rightarrow> bool \<Rightarrow> bool \<Rightarrow> bool \<Rightarrow> bool \<Rightarrow> targetHealth \<Rightarrow> targetHealth" where
  "observeProbe h now generationErr retired probeErr responseHealthy t =
     (if generationErr \<or> retired then t
      else if responseHealthy \<and> \<not> probeErr then resetTargetHealth t
      else observeFailureLocked h now t)"

text \<open>What one target goes through: availability checks, request attempts and probes.\<close>

datatype health_op =
    Check int
  | Attempt int bool bool bool
  | Probe int bool bool bool bool

fun health_step :: "backendHealth \<Rightarrow> health_op \<Rightarrow> targetHealth \<Rightarrow> targetHealth" where
  "health_step h (Check now) t = snd (target_available now t)"
| "health_step h (Attempt now ctxErr response err) t = observe h now ctxErr response err t"
| "health_step h (Probe now genErr retired probeErr healthy) t =
     observeProbe h now genErr retired probeErr healthy t"

definition run_health :: "backendHealth \<Rightarrow> health_op list \<Rightarrow> targetHealth \<Rightarrow> targetHealth" where
  "run_health h ops t = fold (health_step h) ops t"

text \<open>The verdict an operation delivers on its target: a success, a failure or nothing.\<close>

datatype verdict = Good | Bad | NoVerdict

fun verdict_of :: "health_op \<Rightarrow> verdict" where
  "verdict_of (Check now) = NoVerdict"
| "verdict_of (Attempt now ctxErr response err) =
     (if response \<or> \<not> err then Good else if ctxErr then NoVerdict else Bad)"
| "verdict_of (Probe now genErr retired probeErr healthy) =
     (if genErr \<or> retired then NoVerdict else if healthy \<and> \<not> probeErr then Good else Bad)"

fun op_time :: "health_op \<Rightarrow> int" where
  "op_time (Check now) = now"
| "op_time (Attempt now _ _ _) = now"
| "op_time (Probe now _ _ _ _) = now"

text \<open>Failures since the last success, newest operation last.\<close>

definition failure_step :: "health_op \<Rightarrow> int \<Rightarrow> int" where
  "failure_step op n = (case verdict_of op of Good \<Rightarrow> 0 | Bad \<Rightarrow> n + 1 | NoVerdict \<Rightarrow> n)"

definition failures_in_a_row :: "health_op list \<Rightarrow> int" where
  "failures_in_a_row ops = fold failure_step ops 0"

definition health_ok :: "backendHealth \<Rightarrow> targetHealth \<Rightarrow> bool" where
  "health_ok h t \<longleftrightarrow> 0 \<le> failures t \<and> failures t < fail_limit h \<and> (until t \<noteq> None \<longrightarrow> failures t = 0)"

lemma health_step_verdict:
  "health_step h op t =
     (case verdict_of op of
        Good \<Rightarrow> resetTargetHealth t
      | Bad \<Rightarrow> observeFailureLocked h (op_time op) t
      | NoVerdict \<Rightarrow> (case op of Check now \<Rightarrow> snd (target_available now t) | _ \<Rightarrow> t))"
  by (cases op) (auto simp: observe_def observeProbe_def)

lemma health_ok_step:
  assumes "health_ok h t" and "1 \<le> fail_limit h"
  shows "health_ok h (health_step h op t)"
  using assms
  by (cases op)
     (auto simp: health_ok_def observe_def observeProbe_def resetTargetHealth_def target_available_def
       observeFailureLocked_def count_failure_def Let_def split: option.splits)

lemma run_health_snoc: "run_health h (ops @ [op]) t = health_step h op (run_health h ops t)"
  by (simp add: run_health_def)

lemma failures_in_a_row_snoc:
  "failures_in_a_row (ops @ [op]) = failure_step op (failures_in_a_row ops)"
  by (simp add: failures_in_a_row_def)

lemma failures_in_a_row_nonneg: "0 \<le> failures_in_a_row ops"
  by (induction ops rule: rev_induct)
     (auto simp: failures_in_a_row_snoc failure_step_def failures_in_a_row_def split: verdict.splits)

lemma failures_bounded_step:
  assumes "failures t \<le> n" and "0 \<le> n"
  shows "failures (health_step h op t) \<le> failure_step op n"
  using assms
  by (cases op)
     (auto simp: failure_step_def observe_def observeProbe_def resetTargetHealth_def target_available_def
       observeFailureLocked_def count_failure_def Let_def split: option.splits)

lemma run_health_ok:
  assumes "1 \<le> fail_limit h"
  shows "health_ok h (run_health h ops fresh_target) \<and>
    failures (run_health h ops fresh_target) \<le> failures_in_a_row ops"
proof (induction ops rule: rev_induct)
  case Nil
  show ?case using assms
    by (simp add: run_health_def health_ok_def fresh_target_def failures_in_a_row_def)
next
  case (snoc op ops)
  then show ?case
    using health_ok_step [OF _ assms] failures_bounded_step failures_in_a_row_nonneg
    by (simp add: run_health_snoc failures_in_a_row_snoc)
qed

lemma newly_ejected:
  assumes "until t = None" and "until (health_step h op t) \<noteq> None"
  shows "verdict_of op = Bad \<and> fail_limit h \<le> failures t + 1 \<and>
    until (health_step h op t) = Some (op_time op + cool h)"
  using assms
  by (cases op)
     (auto simp: observe_def observeProbe_def resetTargetHealth_def target_available_def
       observeFailureLocked_def count_failure_def Let_def split: option.splits if_splits)

section \<open>Choosing a target\<close>

text \<open>
  \<open>scan_healthy\<close> asks the generated targets in turn and stops at the first available one; both
  loops of the code are instances. \<open>clocked\<close> is the health of all targets with the clock
  readings to come.
\<close>

type_synonym clocked = "targetHealth list \<times> (nat \<Rightarrow> int)"

definition available :: "nat \<Rightarrow> clocked \<Rightarrow> bool \<times> clocked" where
  "available i s =
     (let (hs, clk) = s; (ok, t) = target_available (clk 0) (hs ! i)
      in (ok, (hs[i := t], \<lambda>k. clk (Suc k))))"

fun scan_healthy ::
  "(nat \<Rightarrow> 's \<Rightarrow> bool \<times> 's) \<Rightarrow> ('c \<Rightarrow> nat \<times> 'c) \<Rightarrow> nat \<Rightarrow> 'c \<Rightarrow> 's \<Rightarrow> nat option \<times> 'c \<times> 's" where
  "scan_healthy ask gen 0 c s = (None, c, s)"
| "scan_healthy ask gen (Suc k) c s =
     (let (i, c') = gen c; (ok, s') = ask i s
      in if ok then (Some i, c', s') else scan_healthy ask gen k c' s')"

definition nextHealthyTargetIndex ::
  "nat \<Rightarrow> nat list \<Rightarrow> nat \<Rightarrow> 64 word \<Rightarrow> clocked \<Rightarrow> nat \<times> 64 word \<times> clocked" where
  "nextHealthyTargetIndex n schedule first w s =
     (let (ok, s1) = available first s in
      if ok then (first, w, s1)
      else (case scan_healthy available (nextScheduledTargetIndex n schedule)
                   (schedule_slots n schedule - 1) w s1 of
              (Some i, w', s') \<Rightarrow> (i, w', s')
            | (None, w', s') \<Rightarrow> (first, w', s')))"

definition nextTargetIndex ::
  "nat \<Rightarrow> nat list \<Rightarrow> 64 word \<Rightarrow> clocked option \<Rightarrow> nat \<times> 64 word \<times> clocked option" where
  "nextTargetIndex n schedule w health =
     (let (first, w1) = nextScheduledTargetIndex n schedule w in
      case health of
        None \<Rightarrow> (first, w1, None)
      | Some s \<Rightarrow>
          (case nextHealthyTargetIndex n schedule first w1 s of
             (i, w2, s') \<Rightarrow> (i, w2, Some s')))"

definition ring_next :: "nat \<Rightarrow> nat \<Rightarrow> nat \<times> nat" where
  "ring_next n i = (i, if Suc i = n then 0 else Suc i)"

definition retryTargetIndex :: "nat \<Rightarrow> nat \<Rightarrow> nat \<Rightarrow> clocked option \<Rightarrow> nat \<times> clocked option" where
  "retryTargetIndex n start attempt health =
     (let index = (start + attempt) mod n in
      case health of
        None \<Rightarrow> (index, None)
      | Some s \<Rightarrow>
          (case scan_healthy available (ring_next n) n index s of
             (Some i, _, s') \<Rightarrow> (i, Some s')
           | (None, _, s') \<Rightarrow> (index, Some s')))"

section \<open>Retry budget\<close>

record retryBudget =
  bmax :: int
  bwindow :: int
  started :: "int option"
  used :: int

datatype 'e budget_result = Reserved | Exhausted | Cancelled 'e

text \<open>\<open>err1\<close> and \<open>err2\<close> are the context's errors before and after the lock is taken.\<close>

definition budget_open :: "int \<Rightarrow> retryBudget \<Rightarrow> retryBudget" where
  "budget_open now b =
     (if (case started b of None \<Rightarrow> True | Some t \<Rightarrow> time_sub now t \<ge> bwindow b)
      then b\<lparr>started := Some now, used := 0\<rparr> else b)"

definition budget_reserve ::
  "'e option \<Rightarrow> 'e option \<Rightarrow> int \<Rightarrow> retryBudget \<Rightarrow> 'e budget_result \<times> retryBudget" where
  "budget_reserve err1 err2 now b =
     (case err1 of Some e \<Rightarrow> (Cancelled e, b)
      | None \<Rightarrow>
        (case err2 of Some e \<Rightarrow> (Cancelled e, b)
         | None \<Rightarrow>
           (let b1 = budget_open now b in
            if used b1 \<ge> bmax b1 then (Exhausted, b1)
            else (Reserved, b1\<lparr>used := used b1 + 1\<rparr>))))"

section \<open>The interface the target choice relies on\<close>

text \<open>
  Asking a target answers whether it is up, and never takes an up target down. Under these laws
  a scan finds an up target whenever one is among those it asks.
\<close>

fun generated :: "('c \<Rightarrow> nat \<times> 'c) \<Rightarrow> nat \<Rightarrow> 'c \<Rightarrow> nat list" where
  "generated gen 0 c = []"
| "generated gen (Suc k) c = (case gen c of (i, c') \<Rightarrow> i # generated gen k c')"

locale availability = stateful_test ask up inv
  for ask :: "nat \<Rightarrow> 's \<Rightarrow> bool \<times> 's"
    and up :: "'s \<Rightarrow> nat \<Rightarrow> bool"
    and inv :: "'s \<Rightarrow> bool" +
  assumes ask_keeps: "inv s \<Longrightarrow> up s j \<Longrightarrow> up (snd (ask i s)) j"
begin

lemma scan_Some:
  assumes "inv s" and "scan_healthy ask gen k c s = (Some i, c', s')"
  shows "i \<in> set (generated gen k c) \<and> up s' i"
  using assms
proof (induction k arbitrary: c s)
  case 0
  then show ?case by simp
next
  case (Suc k)
  obtain j d where g: "gen c = (j, d)" by fastforce
  obtain ok s1 where a: "ask j s = (ok, s1)" by fastforce
  show ?case
  proof (cases ok)
    case True
    then have "up s j" "j = i" "s1 = s'" using ask_iff [OF Suc.prems(1), of j] Suc.prems(2) g a by auto
    then show ?thesis using ask_keeps [OF Suc.prems(1), of j j] a g by simp
  next
    case False
    then have "scan_healthy ask gen k d s1 = (Some i, c', s')" using Suc.prems(2) g a by simp
    moreover have "inv s1" using ask_inv [OF Suc.prems(1), of j] a by simp
    ultimately show ?thesis using Suc.IH [of s1 d] g by auto
  qed
qed

lemma scan_None:
  assumes "inv s" and "scan_healthy ask gen k c s = (None, c', s')" and "i \<in> set (generated gen k c)"
  shows "\<not> up s i"
  using assms
proof (induction k arbitrary: c s)
  case 0
  then show ?case by simp
next
  case (Suc k)
  obtain j d where g: "gen c = (j, d)" by fastforce
  obtain ok s1 where a: "ask j s = (ok, s1)" by fastforce
  then have r: "scan_healthy ask gen k d s1 = (None, c', s')" "\<not> ok"
    using Suc.prems(2) g by (auto split: if_splits)
  have inv1: "inv s1" using ask_inv [OF Suc.prems(1), of j] a by simp
  show ?case
  proof (cases "i = j")
    case True
    then show ?thesis using ask_iff [OF Suc.prems(1), of j] a r(2) by simp
  next
    case False
    then have "\<not> up s1 i" using Suc.IH [OF inv1 r(1)] Suc.prems(3) g by simp
    then show ?thesis using ask_keeps [OF Suc.prems(1), of i j] a by auto
  qed
qed

end

definition target_up :: "int \<Rightarrow> targetHealth \<Rightarrow> bool" where
  "target_up now t \<longleftrightarrow> (case until t of None \<Rightarrow> True | Some u \<Rightarrow> u \<le> now)"

fun up_now :: "clocked \<Rightarrow> nat \<Rightarrow> bool" where
  "up_now (hs, clk) i = target_up (clk 0) (hs ! i)"

fun clock_forward :: "clocked \<Rightarrow> bool" where
  "clock_forward (hs, clk) = (\<forall>k. clk k \<le> clk (Suc k))"

lemma target_available_up:
  "fst (target_available now t) = target_up now t"
  "target_up now t \<Longrightarrow> now \<le> now' \<Longrightarrow> target_up now' (snd (target_available now t))"
  "target_up now t \<Longrightarrow> now \<le> now' \<Longrightarrow> target_up now' t"
  by (auto simp: target_available_def target_up_def split: option.splits)

interpretation pool: availability available up_now clock_forward
proof (unfold_locales, goal_cases)
  case (1 s i)
  then show ?case
    by (cases s) (auto simp: available_def target_available_up(1) [symmetric] split: prod.splits)
next
  case (2 s i)
  then show ?case by (cases s) (auto simp: available_def split: prod.splits)
next
  case (3 s j i)
  then show ?case
    using target_available_up(2) [of "snd s 0" "fst s ! i" "snd s (Suc 0)"]
      target_available_up(3) [of "snd s 0" "fst s ! j" "snd s (Suc 0)"]
    by (cases s; cases "i < length (fst s)"; cases "i = j")
       (auto simp: available_def nth_list_update list_update_beyond split: prod.splits)
qed

section \<open>The targets the two loops ask\<close>

lemma generated_scheduled:
  "generated (nextScheduledTargetIndex n schedule) k w = scheduled_targets k n schedule w"
  by (induction k arbitrary: w) (auto split: prod.splits)

lemma generated_ring:
  assumes "0 < n" and "i < n"
  shows "generated (ring_next n) k i = map (\<lambda>j. (i + j) mod n) [0..<k]"
  using assms(2)
proof (induction k arbitrary: i)
  case 0
  then show ?case by simp
next
  case (Suc k)
  let ?i = "if Suc i = n then 0 else Suc i"
  have "?i < n" using Suc.prems assms(1) by auto
  then have "generated (ring_next n) (Suc k) i = i # map (\<lambda>j. (?i + j) mod n) [0..<k]"
    using Suc.IH [of ?i] by (simp only: generated.simps ring_next_def [of n i] prod.case)
  also have "map (\<lambda>j. (?i + j) mod n) [0..<k] = map (\<lambda>j. (Suc i + j) mod n) [0..<k]"
    using mod_add_self1 [of n] by (cases "Suc i = n") (auto simp del: mod_add_self1)
  also have "i # map (\<lambda>j. (Suc i + j) mod n) [0..<k] = map (\<lambda>j. (i + j) mod n) [0..<Suc k]"
    using Suc.prems by (simp add: upt_conv_Cons map_Suc_upt [symmetric] comp_def del: upt_Suc)
  finally show ?case .
qed

lemma ring_covers:
  assumes "0 < n" and "i < n"
  shows "set (generated (ring_next n) n i) = {..<n}"
proof -
  have "j \<in> (\<lambda>j. (i + j) mod n) ` {0..<n}" if "j < n" for j
  proof
    show "j = (i + (n + j - i) mod n) mod n"
      using that assms by (simp add: mod_add_right_eq)
    show "(n + j - i) mod n \<in> {0..<n}" using assms(1) by simp
  qed
  then show ?thesis using assms by (auto simp: generated_ring)
qed

lemma scan_healthy_asked:
  "scan_healthy ask gen k c s = (Some i, c', s') \<Longrightarrow> i \<in> set (generated gen k c)"
proof (induction k arbitrary: c s)
  case (Suc k)
  obtain j d where g: "gen c = (j, d)" by fastforce
  obtain ok s1 where a: "ask j s = (ok, s1)" by fastforce
  show ?case
  proof (cases ok)
    case True
    with Suc.prems g a show ?thesis by simp
  next
    case False
    with Suc.prems g a have "scan_healthy ask gen k d s1 = (Some i, c', s')" by simp
    from Suc.IH [OF this] g show ?thesis by simp
  qed
qed simp

lemma retryTargetIndex_less:
  assumes n: "0 < n" and r: "retryTargetIndex n start attempt h = (i, h')"
  shows "i < n"
proof (cases h)
  case None
  with r n show ?thesis by (auto simp: retryTargetIndex_def)
next
  case (Some s)
  let ?i = "(start + attempt) mod n"
  obtain k d s2 where k: "scan_healthy available (ring_next n) n ?i s = (k, d, s2)" by (metis prod_cases3)
  show ?thesis
  proof (cases k)
    case None
    with r n Some k show ?thesis by (auto simp: retryTargetIndex_def)
  next
    case (Some j)
    then have "j \<in> set (generated (ring_next n) n ?i)" using k scan_healthy_asked by metis
    then have "j < n" using ring_covers [OF n, of ?i] n by simp
    with r \<open>h = _\<close> k Some show ?thesis by (simp add: retryTargetIndex_def)
  qed
qed

section \<open>The budget as an admission control\<close>

text \<open>
  A fixed-window budget is an admission control too: the state is paired with the latest clock
  reading, a retry costs one window and the credit grows by \<open>max\<close> per unit of time.
\<close>

definition budget_step :: "retryBudget \<times> int \<Rightarrow> int \<Rightarrow> (retryBudget \<times> int) \<times> bool" where
  "budget_step s now =
     (let (r, b) = budget_reserve (None :: unit option) None now (fst s)
      in ((b, max (snd s) now), r = Reserved))"

definition budget_ok :: "int \<Rightarrow> int \<Rightarrow> retryBudget \<times> int \<Rightarrow> bool" where
  "budget_ok m w s \<longleftrightarrow>
     bmax (fst s) = m \<and> bwindow (fst s) = w \<and> 1 \<le> m \<and> 0 < w \<and> 0 \<le> used (fst s) \<and>
     used (fst s) \<le> m \<and> (\<exists>t \<le> snd s. started (fst s) = Some t)"

definition budget_credit :: "int \<Rightarrow> int \<Rightarrow> retryBudget \<times> int \<Rightarrow> int" where
  "budget_credit m w s = (m - used (fst s)) * w + (snd s - the (started (fst s))) * m"

lemma time_sub_le:
  assumes "0 < w" and "w \<le> time_sub a b"
  shows "w \<le> a - b"
  using assms by (auto simp: time_sub_def maxInt64_def split: if_splits)

text \<open>Opening a window leaves the budget alone or, when one has passed, renews it.\<close>

lemma budget_open_ok:
  assumes "budget_ok m w (b, hi)"
  shows "budget_ok m w (budget_open t b, max hi t)"
    and "budget_credit m w (budget_open t b, max hi t) \<le> budget_credit m w (b, hi) + max 0 (t - hi) * m"
proof -
  obtain u where u: "started b = Some u" "u \<le> hi" and b: "bmax b = m" "bwindow b = w" "1 \<le> m" "0 < w"
    "0 \<le> used b" "used b \<le> m"
    using assms by (auto simp: budget_ok_def)
  have clock: "max hi t = hi + max 0 (t - hi)" by simp
  show "budget_ok m w (budget_open t b, max hi t)"
    using u b by (auto simp: budget_ok_def budget_open_def)
  show "budget_credit m w (budget_open t b, max hi t) \<le> budget_credit m w (b, hi) + max 0 (t - hi) * m"
  proof (cases "w \<le> time_sub t u")
    case True
    then have "w * m \<le> (t - u) * m"
      using time_sub_le [OF b(4)] b(3) by (intro mult_right_mono) auto
    moreover have "used b * w \<le> m * w" using b by (intro mult_right_mono) auto
    ultimately have "used b * w \<le> (t - u) * m" by (simp only: mult.commute [of w m])
    then show ?thesis
      using True u b unfolding clock by (simp add: budget_credit_def budget_open_def algebra_simps)
  next
    case False
    then show ?thesis
      using u b unfolding clock by (simp add: budget_credit_def budget_open_def algebra_simps)
  qed
qed

lemma budget_step_ok:
  assumes "budget_ok m w s"
  shows "budget_ok m w (fst (budget_step s t))"
    and "budget_credit m w (fst (budget_step s t)) + (if snd (budget_step s t) then w else 0)
      \<le> budget_credit m w s + max 0 (t - snd s) * m"
proof -
  obtain b hi where s: "s = (b, hi)" by fastforce
  note o = budget_open_ok [OF assms [unfolded s], of t]
  show "budget_ok m w (fst (budget_step s t))"
    using o(1) by (auto simp: s budget_step_def budget_reserve_def Let_def budget_ok_def)
  show "budget_credit m w (fst (budget_step s t)) + (if snd (budget_step s t) then w else 0)
      \<le> budget_credit m w s + max 0 (t - snd s) * m"
    using o(2) by (auto simp: s budget_step_def budget_reserve_def Let_def budget_credit_def algebra_simps)
qed

interpretation budget: admission_control
  budget_step "budget_ok m w" "budget_credit m w" snd w "max 0 m" for m w
proof (unfold_locales, goal_cases)
  case (1 s t)
  then show ?case by (rule budget_step_ok(1))
next
  case (2 s t)
  then show ?case by (simp add: budget_step_def split_beta)
next
  case (3 s)
  then show ?case by (auto simp: budget_ok_def budget_credit_def intro!: add_nonneg_nonneg mult_nonneg_nonneg)
next
  case 4
  then show ?case by simp
next
  case (5 s t)
  then show ?case using budget_step_ok(2) [of m w s t] by (simp add: budget_ok_def max_def)
qed

section \<open>Properties\<close>

text \<open>C14. A target is ejected only by \<open>fail\<close> failures in a row: whatever sequence of checks, attempts
  and probes a target went through, an operation that ejects it is a failure, at least \<open>fail\<close>
  failures happened since the last success, and the ejection ends \<open>cool\<close> after it.\<close>

theorem ejection_needs_failures_in_a_row:
  assumes "1 \<le> fail_limit h"
    and "until (run_health h ops fresh_target) = None"
    and "until (run_health h (ops @ [op]) fresh_target) \<noteq> None"
  shows "verdict_of op = Bad \<and> fail_limit h \<le> failures_in_a_row (ops @ [op]) \<and>
    until (run_health h (ops @ [op]) fresh_target) = Some (op_time op + cool h)"
  using newly_ejected [of "run_health h ops fresh_target" h op] assms run_health_ok [OF assms(1), of ops]
  by (simp add: run_health_snoc failures_in_a_row_snoc failure_step_def)

definition demo_health :: backendHealth where
  "demo_health = \<lparr>fail_limit = 2, cool = 100\<rparr>"

theorem ejection_needs_failures_in_a_row_witness:
  "until (run_health demo_health [Attempt 1 False False True, Attempt 2 False False True] fresh_target)
      = Some 102 \<and>
   2 \<le> failures_in_a_row [Attempt 1 False False True, Attempt 2 False False True]"
proof -
  have "until (run_health demo_health [Attempt 1 False False True] fresh_target) = None"
    "until (run_health demo_health ([Attempt 1 False False True] @ [Attempt 2 False False True]) fresh_target)
      \<noteq> None"
    by (simp_all add: run_health_def demo_health_def fresh_target_def observe_def
        observeFailureLocked_def count_failure_def)
  from ejection_needs_failures_in_a_row [OF _ this] show ?thesis by (simp add: demo_health_def)
qed

text \<open>A target that keeps failing.\<close>

definition failing :: "int list \<Rightarrow> health_op list" where
  "failing ts = map (\<lambda>t. Attempt t False False True) ts"

lemma failing_run:
  assumes "until t = None" and "0 \<le> failures t" and "failures t + int (length ts) < fail_limit h"
  shows "until (run_health h (failing ts) t) = None \<and>
    failures (run_health h (failing ts) t) = failures t + int (length ts)"
  using assms
proof (induction ts arbitrary: t)
  case Nil
  then show ?case by (simp add: failing_def run_health_def)
next
  case (Cons x ts)
  let ?t = "health_step h (Attempt x False False True) t"
  have "until ?t = None \<and> failures ?t = failures t + 1"
    using Cons.prems by (simp add: observe_def observeFailureLocked_def count_failure_def Let_def)
  with Cons show ?case by (simp add: failing_def run_health_def)
qed

text \<open>Ejection works: a fresh target that fails \<open>fail\<close> times in a row stays available until the
  last of them, and from then on is refused until its cool-down has passed and accepted after.\<close>

theorem failing_target_is_ejected:
  assumes "1 \<le> fail_limit h" and "int (length ts) + 1 = fail_limit h"
  shows "fst (target_available now (run_health h (failing ts) fresh_target)) \<and>
    (fst (target_available now (run_health h (failing (ts @ [t])) fresh_target))
      \<longleftrightarrow> t + cool h \<le> now)"
proof -
  let ?s = "run_health h (failing ts) fresh_target"
  have 1: "until ?s = None" "failures ?s + 1 = fail_limit h"
    using failing_run [of fresh_target ts h] assms by (simp_all add: fresh_target_def)
  then have "until (run_health h (failing (ts @ [t])) fresh_target) = Some (t + cool h)"
    by (simp add: failing_def run_health_snoc observe_def observeFailureLocked_def count_failure_def
        Let_def)
  with 1 show ?thesis by (simp add: target_available_def not_less)
qed

theorem failing_target_is_ejected_witness:
  "\<not> fst (target_available 101 (run_health demo_health (failing ([1] @ [2])) fresh_target))"
  using failing_target_is_ejected [of demo_health "[1]" 101 2] by (simp add: demo_health_def)

lemma rotated_residues:
  assumes "0 < (c::nat)"
  shows "(\<lambda>j. (a + j) mod c) ` {0..<c} = {0..<c}"
proof
  show "{0..<c} \<subseteq> (\<lambda>j. (a + j) mod c) ` {0..<c}"
  proof
    fix x assume x: "x \<in> {0..<c}"
    let ?j = "(x + c - a mod c) mod c"
    have "(a + ?j) mod c = (a mod c + (x + c - a mod c)) mod c"
      by (simp add: mod_add_left_eq mod_add_right_eq)
    also have "a mod c + (x + c - a mod c) = x + c"
      using mod_less_divisor [OF assms, of a] by linarith
    finally have "x = (a + ?j) mod c" using x by simp
    then show "x \<in> (\<lambda>j. (a + j) mod c) ` {0..<c}"
      using assms by (intro image_eqI [of _ _ ?j]) auto
  qed
qed (use assms in auto)

definition pool_targets :: "nat \<Rightarrow> nat list \<Rightarrow> nat set" where
  "pool_targets n schedule = (if schedule = [] then {..<n} else set schedule)"

lemma scheduled_targets_cover:
  assumes "0 < schedule_slots n schedule" and "schedule_slots n schedule < 2 ^ 64"
    and "unat w + schedule_slots n schedule \<le> 2 ^ 64"
  shows "set (scheduled_targets (schedule_slots n schedule) n schedule w) = pool_targets n schedule"
proof -
  have "set (scheduled_targets (schedule_slots n schedule) n schedule w) =
      slot_target schedule ` (\<lambda>j. (unat w + j) mod schedule_slots n schedule) ` {0..<schedule_slots n schedule}"
    by (simp add: scheduled_targets_slots [OF assms] image_image)
  also have "\<dots> = slot_target schedule ` {0..<schedule_slots n schedule}"
    by (simp only: rotated_residues [OF assms(1)])
  also have "\<dots> = pool_targets n schedule"
  proof (cases "schedule = []")
    case True
    then show ?thesis by (auto simp: slot_target_def schedule_slots_def pool_targets_def)
  next
    case False
    then have "slot_target schedule = (!) schedule" by (simp add: slot_target_def fun_eq_iff)
    with False show ?thesis
      by (simp add: schedule_slots_def pool_targets_def nth_image)
  qed
  finally show ?thesis .
qed

text \<open>The chosen target is a healthy one whenever there is one, for a call that nobody interrupts:
  with a clock that does not run backwards and a counter that does not wrap during the call,
  \<open>nextTargetIndex\<close> returns a target that is available, or all targets were ejected and it returns
  the scheduled one. \<open>TargetChoice\<close> has the calls that interrupt each other.\<close>

theorem nextTargetIndex_prefers_healthy:
  assumes "0 < n" and "n < 2 ^ 64" and "length schedule < 2 ^ 64"
    and "unat w + schedule_slots n schedule \<le> 2 ^ 64" and "clock_forward s"
    and "nextTargetIndex n schedule w (Some s) = (i, w', Some s')"
  shows "up_now s' i \<or>
    (\<forall>j \<in> pool_targets n schedule. \<not> up_now s j) \<and> i = fst (nextScheduledTargetIndex n schedule w)"
proof -
  let ?c = "schedule_slots n schedule" and ?gen = "nextScheduledTargetIndex n schedule"
  obtain f w1 where f: "?gen w = (f, w1)" by fastforce
  obtain ok s1 where a: "available f s = (ok, s1)" by (cases "available f s")
  have c: "0 < ?c" "?c < 2 ^ 64" using assms(1-3) by (auto simp: schedule_slots_def)
  have inv1: "clock_forward s1" using pool.ask_inv [OF assms(5), of f] a by simp
  have keeps: "up_now s j \<Longrightarrow> up_now s1 j" for j using pool.ask_keeps [OF assms(5), of j f] a by simp
  have ok: "ok = up_now s f" using pool.ask_iff [OF assms(5), of f] a by simp
  have "scheduled_targets ?c n schedule w = f # generated ?gen (?c - 1) w1"
    using c(1) f by (cases ?c) (auto simp: generated_scheduled)
  then have asked: "pool_targets n schedule = insert f (set (generated ?gen (?c - 1) w1))"
    using scheduled_targets_cover [OF c assms(4)] by simp
  obtain r d s2 where r: "scan_healthy available ?gen (?c - 1) w1 s1 = (r, d, s2)" by (metis prod_cases3)
  have res: "(i, s') = (if ok then (f, s1) else (case r of Some k \<Rightarrow> (k, s2) | None \<Rightarrow> (f, s2)))"
    using assms(6) f a r
    by (auto simp: nextTargetIndex_def nextHealthyTargetIndex_def split: option.splits if_splits)
  show ?thesis
  proof (cases "ok \<or> r \<noteq> None")
    case True
    then show ?thesis using res ok keeps pool.scan_Some [OF inv1, of ?gen "?c - 1" w1] r
      by (auto split: if_splits)
  next
    case False
    have "\<not> up_now s j" if "j \<in> pool_targets n schedule" for j
      using that pool.scan_None [OF inv1, of ?gen "?c - 1" w1 d s2 j] r keeps ok False
      unfolding asked by auto
    then show ?thesis using res False f by auto
  qed
qed

text \<open>A retry goes to a healthy target whenever there is one: \<open>retryTargetIndex\<close> returns a target of
  the backend that is available, or all of them were ejected and it is the one in turn.\<close>

theorem retryTargetIndex_prefers_healthy:
  assumes "0 < n" and "clock_forward s" and "retryTargetIndex n start attempt (Some s) = (i, Some s')"
  shows "i < n \<and> (up_now s' i \<or> (\<forall>j < n. \<not> up_now s j) \<and> i = (start + attempt) mod n)"
proof -
  let ?i = "(start + attempt) mod n"
  have cover: "set (generated (ring_next n) n ?i) = {..<n}" using assms(1) by (intro ring_covers) auto
  obtain r d s2 where r: "scan_healthy available (ring_next n) n ?i s = (r, d, s2)" by (metis prod_cases3)
  then have res: "(i, s') = (case r of Some k \<Rightarrow> (k, s2) | None \<Rightarrow> (?i, s2))"
    using assms(3) by (auto simp: retryTargetIndex_def Let_def split: option.splits)
  show ?thesis
  proof (cases r)
    case None
    then show ?thesis
      using res pool.scan_None [OF assms(2), of "ring_next n" n ?i d s2] r cover assms(1) by auto
  next
    case (Some k)
    then show ?thesis
      using res pool.scan_Some [OF assms(2), of "ring_next n" n ?i k d s2] r cover by auto
  qed
qed

text \<open>Without health, the attempts of one request go to different targets: up to as many
  attempts as there are targets, in ring order from the first.\<close>

theorem retry_targets_distinct:
  assumes "start < n" and "tries \<le> n"
  shows "distinct (map (\<lambda>attempt. fst (retryTargetIndex n start attempt None)) [0..<tries]) \<and>
    fst (retryTargetIndex n start 0 None) = start"
proof -
  have "(start + a) mod n \<noteq> (start + b) mod n" if "a < b" "b < n" for a b
  proof
    assume "(start + a) mod n = (start + b) mod n"
    then have "n dvd (start + b) - (start + a)" using that mod_eq_dvd_iff_nat [of "start + a" "start + b" n] by simp
    then show False using that nat_dvd_not_less [of "b - a" n] by simp
  qed
  then have "inj_on (\<lambda>a. (start + a) mod n) {0..<tries}"
    using assms(2) by (auto simp: inj_on_def) (metis linorder_neqE_nat order_less_le_trans)
  then show ?thesis using assms(1) by (simp add: retryTargetIndex_def distinct_map)
qed

text \<open>C26. The retry budget holds: over any sequence of reservations from the first, at any clock
  readings, the retries admitted number at most \<open>max\<close> for one window plus \<open>max\<close> per window of
  elapsed time.\<close>

theorem budget_bounds_retries:
  assumes "1 \<le> m" and "0 < w"
  shows "int (snd (run_steps budget_step (\<lparr>bmax = m, bwindow = w, started = None, used = 0\<rparr>, t0) (t0 # ts))) * w
    \<le> m * w + (fold max ts t0 - t0) * m"
proof -
  let ?b = "\<lparr>bmax = m, bwindow = w, started = None, used = 0\<rparr>"
  let ?s = "(\<lparr>bmax = m, bwindow = w, started = Some t0, used = 1\<rparr>, t0)"
  have first: "budget_step (?b, t0) t0 = (?s, True)"
    using assms by (simp add: budget_step_def budget_reserve_def budget_open_def)
  have "budget_ok m w ?s" using assms by (simp add: budget_ok_def)
  from budget.run_bound [OF this, of ts] have
    "int (snd (run_steps budget_step ?s ts)) * w \<le> (m - 1) * w + (fold max ts t0 - t0) * m"
    using assms by (simp add: budget_credit_def max_def)
  then show ?thesis using first by (simp add: split_beta algebra_simps)
qed

section \<open>Witnesses\<close>

definition demo_pool :: clocked where
  "demo_pool = ([\<lparr>failures = 0, until = Some 100\<rparr>, fresh_target], \<lambda>_. 50)"

lemma demo_pool_steps:
  "available 0 demo_pool = (False, demo_pool)"
  "available 1 demo_pool = (True, demo_pool)"
  "available (Suc 0) demo_pool = (True, demo_pool)"
  "clock_forward demo_pool"
  by (simp_all add: demo_pool_def available_def target_available_def fresh_target_def)

lemma demo_pool_choice:
  "nextTargetIndex 2 [] 0 (Some demo_pool) = (1, 2, Some demo_pool)"
  "retryTargetIndex 2 1 1 (Some demo_pool) = (1, Some demo_pool)"
  by (simp_all add: nextTargetIndex_def nextHealthyTargetIndex_def nextScheduledTargetIndex_def
      schedule_slots_def slot_target_def demo_pool_steps retryTargetIndex_def ring_next_def numeral_2_eq_2
      del: One_nat_def)

theorem nextTargetIndex_prefers_healthy_witness:
  "up_now demo_pool 1 \<or>
   (\<forall>j \<in> pool_targets 2 []. \<not> up_now demo_pool j) \<and> 1 = fst (nextScheduledTargetIndex 2 [] 0)"
  by (rule nextTargetIndex_prefers_healthy [OF _ _ _ _ demo_pool_steps(4) demo_pool_choice(1)])
     (simp_all add: schedule_slots_def)

theorem retryTargetIndex_prefers_healthy_witness:
  "(1::nat) < 2 \<and> (up_now demo_pool 1 \<or> (\<forall>j < 2. \<not> up_now demo_pool j) \<and> (1::nat) = (1 + 1) mod 2)"
  by (rule retryTargetIndex_prefers_healthy [OF _ demo_pool_steps(4) demo_pool_choice(2)]) simp

theorem retry_targets_distinct_witness:
  "distinct (map (\<lambda>attempt. fst (retryTargetIndex 3 2 attempt None)) [0..<3]) \<and>
   map (\<lambda>attempt. fst (retryTargetIndex 3 2 attempt None)) [0..<3] = [2, 0, 1]"
  using retry_targets_distinct [of 2 3 3] by (simp add: retryTargetIndex_def upt_rec)

theorem budget_bounds_retries_witness:
  "int (snd (run_steps budget_step (\<lparr>bmax = 2, bwindow = 10, started = None, used = 0\<rparr>, 0) (0 # [0, 0, 5]))) * 10
    \<le> 2 * 10 + (5 - 0) * 2"
  using budget_bounds_retries [of 2 10 0 "[0, 0, 5]"] by (simp only: fold.simps comp_def id_apply) simp

end
