(* ===== verification/TargetChoice.thy ===== *)
theory TargetChoice
  imports Health
begin

text \<open>
  \<open>nextTargetIndex\<close> of \<open>src/proxy.go\<close> with any number of requests at once. The schedule cursor
  \<open>nextIndex\<close> is shared and advanced by an atomic \<open>Add\<close>, every availability check locks its
  target alone, and attempts and probes change the health of the targets in between. Each step
  of the relation is one of these atomic actions; \<open>Health.nextTargetIndex\<close> is the call that
  nobody interrupts. A request logs what it looked at: the cursor it drew, the target, the
  clock reading, and the health it found under the lock.
\<close>

section \<open>State\<close>

record look =
  ticket :: "64 word"
  looked_at :: nat
  look_time :: int
  seen :: targetHealth

datatype chooser =
    Asking nat nat "64 word" nat "look list"
  | Drawing nat nat "look list"
  | Chosen nat "look list"

record choice_world =
  cursor :: "64 word"
  pool_state :: "targetHealth list"
  choosers :: "nat \<Rightarrow> chooser option"
  claims :: "nat list"

text \<open>\<open>Asking first k c t looks\<close> is about to check target \<open>t\<close>, drawn at cursor \<open>c\<close>;
  \<open>Drawing first k looks\<close> has \<open>k\<close> attempts of the loop left. \<open>claims\<close> is a ghost field, the
  targets of the claimed slots in the order of the cursor.\<close>

definition choice_start :: "64 word \<Rightarrow> targetHealth list \<Rightarrow> choice_world" where
  "choice_start c hs = \<lparr>cursor = c, pool_state = hs, choosers = (\<lambda>_. None), claims = []\<rparr>"

section \<open>Steps\<close>

definition claim_slot :: "nat \<Rightarrow> chooser \<Rightarrow> nat \<Rightarrow> 64 word \<Rightarrow> choice_world \<Rightarrow> choice_world" where
  "claim_slot i k t c w =
     w\<lparr>cursor := c, choosers := (choosers w)(i \<mapsto> k), claims := claims w @ [t]\<rparr>"

definition check_target :: "nat \<Rightarrow> chooser \<Rightarrow> nat \<Rightarrow> targetHealth \<Rightarrow> choice_world \<Rightarrow> choice_world" where
  "check_target i k t u w =
     w\<lparr>pool_state := (pool_state w)[t := u], choosers := (choosers w)(i \<mapsto> k)\<rparr>"

inductive choice_step ::
  "backendHealth \<Rightarrow> nat \<Rightarrow> nat list \<Rightarrow> choice_world \<Rightarrow> choice_world \<Rightarrow> bool" for h n schedule where
  draw_first: "choosers w i = None \<Longrightarrow> nextScheduledTargetIndex n schedule (cursor w) = (t, c) \<Longrightarrow>
    choice_step h n schedule w
      (claim_slot i (Asking t (schedule_slots n schedule - 1) (cursor w) t []) t c w)"
| found: "choosers w i = Some (Asking first k d t ls) \<Longrightarrow>
    target_available now (pool_state w ! t) = (True, u) \<Longrightarrow>
    choice_step h n schedule w
      (check_target i (Chosen t (ls @ [\<lparr>ticket = d, looked_at = t, look_time = now, seen = pool_state w ! t\<rparr>])) t u w)"
| ejected: "choosers w i = Some (Asking first k d t ls) \<Longrightarrow>
    target_available now (pool_state w ! t) = (False, u) \<Longrightarrow>
    choice_step h n schedule w
      (check_target i (Drawing first k (ls @ [\<lparr>ticket = d, looked_at = t, look_time = now, seen = pool_state w ! t\<rparr>])) t u w)"
| draw_again: "choosers w i = Some (Drawing first (Suc k) ls) \<Longrightarrow>
    nextScheduledTargetIndex n schedule (cursor w) = (t, c) \<Longrightarrow>
    choice_step h n schedule w (claim_slot i (Asking first k (cursor w) t ls) t c w)"
| fall_back: "choosers w i = Some (Drawing first 0 ls) \<Longrightarrow>
    choice_step h n schedule w (w\<lparr>choosers := (choosers w)(i \<mapsto> Chosen first ls)\<rparr>)"
| observed: "t < length (pool_state w) \<Longrightarrow>
    choice_step h n schedule w (w\<lparr>pool_state := (pool_state w)[t := health_step h op (pool_state w ! t)]\<rparr>)"

inductive choice_reachable ::
  "backendHealth \<Rightarrow> nat \<Rightarrow> nat list \<Rightarrow> 64 word \<Rightarrow> choice_world \<Rightarrow> bool" for h n schedule c where
  start: "choice_reachable h n schedule c (choice_start c hs)"
| step: "choice_reachable h n schedule c w \<Longrightarrow> choice_step h n schedule w w' \<Longrightarrow>
    choice_reachable h n schedule c w'"

lemma world_simps [simp]:
  "cursor (claim_slot i k t c w) = c" "pool_state (claim_slot i k t c w) = pool_state w"
  "choosers (claim_slot i k t c w) = (choosers w)(i \<mapsto> k)" "claims (claim_slot i k t c w) = claims w @ [t]"
  "cursor (check_target i k t u w) = cursor w" "pool_state (check_target i k t u w) = (pool_state w)[t := u]"
  "choosers (check_target i k t u w) = (choosers w)(i \<mapsto> k)" "claims (check_target i k t u w) = claims w"
  by (simp_all add: claim_slot_def check_target_def)

section \<open>What a request has seen\<close>

definition look_up :: "look \<Rightarrow> bool" where
  "look_up l \<longleftrightarrow> target_up (look_time l) (seen l)"

definition slot_at :: "nat \<Rightarrow> nat list \<Rightarrow> 64 word \<Rightarrow> nat" where
  "slot_at n schedule c = fst (nextScheduledTargetIndex n schedule c)"

definition looks_ok :: "nat \<Rightarrow> nat list \<Rightarrow> nat \<Rightarrow> look list \<Rightarrow> bool" where
  "looks_ok n schedule first ls \<longleftrightarrow>
     (\<forall>l \<in> set ls. looked_at l = slot_at n schedule (ticket l)) \<and> (ls \<noteq> [] \<longrightarrow> looked_at (hd ls) = first)"

definition all_down :: "look list \<Rightarrow> bool" where
  "all_down ls \<longleftrightarrow> (\<forall>l \<in> set ls. \<not> look_up l)"

fun chooser_ok :: "nat \<Rightarrow> nat list \<Rightarrow> chooser \<Rightarrow> bool" where
  "chooser_ok n schedule (Asking first k d t ls) \<longleftrightarrow>
     looks_ok n schedule first ls \<and> all_down ls \<and> t = slot_at n schedule d \<and> (ls = [] \<longrightarrow> t = first) \<and>
     length ls + k + 1 = schedule_slots n schedule"
| "chooser_ok n schedule (Drawing first k ls) \<longleftrightarrow>
     looks_ok n schedule first ls \<and> all_down ls \<and> ls \<noteq> [] \<and> length ls + k = schedule_slots n schedule"
| "chooser_ok n schedule (Chosen t ls) \<longleftrightarrow>
     (\<exists>first. looks_ok n schedule first ls \<and>
       ((\<exists>front l. ls = front @ [l] \<and> looked_at l = t \<and> look_up l \<and> all_down front) \<or>
        (t = first \<and> all_down ls \<and> ls \<noteq> [] \<and> length ls = schedule_slots n schedule)))"

definition choosers_ok :: "nat \<Rightarrow> nat list \<Rightarrow> choice_world \<Rightarrow> bool" where
  "choosers_ok n schedule w \<longleftrightarrow> (\<forall>i k. choosers w i = Some k \<longrightarrow> chooser_ok n schedule k)"

lemma looks_ok_snoc:
  "looks_ok n schedule first (ls @ [l]) \<longleftrightarrow>
     looks_ok n schedule first ls \<and> looked_at l = slot_at n schedule (ticket l) \<and> (ls = [] \<longrightarrow> looked_at l = first)"
  by (cases ls) (auto simp: looks_ok_def)

lemma all_down_snoc: "all_down (ls @ [l]) \<longleftrightarrow> all_down ls \<and> \<not> look_up l"
  by (auto simp: all_down_def)

lemma choosers_okD: "choosers_ok n schedule w \<Longrightarrow> choosers w i = Some k \<Longrightarrow> chooser_ok n schedule k"
  by (simp add: choosers_ok_def)

lemma choosers_ok_upd:
  "choosers_ok n schedule w \<Longrightarrow> chooser_ok n schedule k \<Longrightarrow> choosers w' = (choosers w)(i \<mapsto> k) \<Longrightarrow>
     choosers_ok n schedule w'"
  by (simp add: choosers_ok_def)

lemma choosers_ok_step:
  assumes "choice_step h n schedule w w'" and "choosers_ok n schedule w" and "0 < schedule_slots n schedule"
  shows "choosers_ok n schedule w'"
  using assms
proof (induction rule: choice_step.induct)
  case (draw_first w i t c)
  then have "chooser_ok n schedule (Asking t (schedule_slots n schedule - 1) (cursor w) t [])"
    by (simp add: looks_ok_def all_down_def slot_at_def)
  then show ?case by (rule choosers_ok_upd [OF draw_first.prems(1)]) simp
next
  case (found w i first k d t ls now u)
  let ?l = "\<lparr>ticket = d, looked_at = t, look_time = now, seen = pool_state w ! t\<rparr>"
  have up: "look_up ?l"
    using found.hyps(2) target_available_up(1) [of now "pool_state w ! t"] by (simp add: look_up_def)
  have "chooser_ok n schedule (Asking first k d t ls)" by (rule choosers_okD [OF found.prems(1) found.hyps(1)])
  then have "looks_ok n schedule first (ls @ [?l])" "all_down ls" by (auto simp: looks_ok_snoc)
  with up have "chooser_ok n schedule (Chosen t (ls @ [?l]))" by fastforce
  then show ?case by (rule choosers_ok_upd [OF found.prems(1)]) simp
next
  case (ejected w i first k d t ls now u)
  let ?l = "\<lparr>ticket = d, looked_at = t, look_time = now, seen = pool_state w ! t\<rparr>"
  have down: "\<not> look_up ?l"
    using ejected.hyps(2) target_available_up(1) [of now "pool_state w ! t"] by (simp add: look_up_def)
  have "chooser_ok n schedule (Asking first k d t ls)" by (rule choosers_okD [OF ejected.prems(1) ejected.hyps(1)])
  with down have "chooser_ok n schedule (Drawing first k (ls @ [?l]))"
    by (auto simp: looks_ok_snoc all_down_snoc)
  then show ?case by (rule choosers_ok_upd [OF ejected.prems(1)]) simp
next
  case (draw_again w i first k ls t c)
  have "chooser_ok n schedule (Drawing first (Suc k) ls)"
    by (rule choosers_okD [OF draw_again.prems(1) draw_again.hyps(1)])
  with draw_again.hyps(2) have "chooser_ok n schedule (Asking first k (cursor w) t ls)"
    by (simp add: slot_at_def)
  then show ?case by (rule choosers_ok_upd [OF draw_again.prems(1)]) simp
next
  case (fall_back w i first ls)
  have "chooser_ok n schedule (Drawing first 0 ls)"
    by (rule choosers_okD [OF fall_back.prems(1) fall_back.hyps(1)])
  then have "chooser_ok n schedule (Chosen first ls)" by auto
  then show ?case by (rule choosers_ok_upd [OF fall_back.prems(1)]) simp
next
  case (observed t w op)
  then show ?case by (simp add: choosers_ok_def)
qed

lemma choosers_ok_reachable:
  assumes "choice_reachable h n schedule c w" and "0 < schedule_slots n schedule"
  shows "choosers_ok n schedule w"
  using assms(1)
proof (induction rule: choice_reachable.induct)
  case (start hs)
  show ?case by (simp add: choosers_ok_def choice_start_def)
next
  case (step w w')
  then show ?case using choosers_ok_step assms(2) by blast
qed

text \<open>Consecutive tickets: nobody else advanced the cursor while the request looked, and it did not
  wrap.\<close>

definition consecutive :: "look list \<Rightarrow> bool" where
  "consecutive ls \<longleftrightarrow> unat (ticket (hd ls)) + length ls \<le> 2 ^ 64 \<and>
     (\<forall>j < length ls. ticket (ls ! j) = ticket (hd ls) + of_nat j)"

lemma consecutive_covers:
  assumes "0 < schedule_slots n schedule" and "schedule_slots n schedule < 2 ^ 64"
    and "length ls = schedule_slots n schedule" and "consecutive ls" and "looks_ok n schedule first ls"
  shows "looked_at ` set ls = pool_targets n schedule"
proof -
  let ?c = "schedule_slots n schedule" and ?w = "ticket (hd ls)"
  have fits: "unat ?w + ?c \<le> 2 ^ 64" using assms(3,4) by (simp add: consecutive_def)
  have "looked_at (ls ! j) = slot_target schedule ((unat ?w + j) mod ?c)" if "j < ?c" for j
  proof -
    have "unat (?w + of_nat j) = unat ?w + j"
      using fits that by (simp add: unat_word_ariths unat_of_nat)
    then show ?thesis
      using assms that next_scheduled [OF assms(1,2), of "?w + of_nat j"]
      by (simp add: looks_ok_def consecutive_def slot_at_def)
  qed
  then have "map looked_at ls = scheduled_targets ?c n schedule ?w"
    using assms(3) by (simp add: scheduled_targets_slots [OF assms(1,2) fits] list_eq_iff_nth_eq)
  then show ?thesis
    using scheduled_targets_cover [OF assms(1,2) fits] by (metis list.set_map)
qed

section \<open>The cursor hands out the schedule\<close>

definition cursor_after :: "nat \<Rightarrow> nat \<Rightarrow> nat list \<Rightarrow> 64 word \<Rightarrow> 64 word" where
  "cursor_after k n schedule c = ((\<lambda>x. snd (nextScheduledTargetIndex n schedule x)) ^^ k) c"

lemma scheduled_targets_snoc:
  "scheduled_targets (Suc k) n schedule c =
     scheduled_targets k n schedule c @ [slot_at n schedule (cursor_after k n schedule c)]"
proof (induction k arbitrary: c)
  case 0
  show ?case by (simp add: slot_at_def cursor_after_def split_beta)
next
  case (Suc k)
  obtain t d where d: "nextScheduledTargetIndex n schedule c = (t, d)" by fastforce
  then have "cursor_after (Suc k) n schedule c = cursor_after k n schedule d"
    by (simp add: cursor_after_def funpow_Suc_right del: funpow.simps)
  moreover have "scheduled_targets (Suc (Suc k)) n schedule c = t # scheduled_targets (Suc k) n schedule d"
    "scheduled_targets (Suc k) n schedule c = t # scheduled_targets k n schedule d"
    using d by (simp_all only: scheduled_targets.simps prod.case)
  ultimately show ?case using Suc.IH [of d] by simp
qed

lemma claim_keeps_order:
  assumes "claims w = scheduled_targets (length (claims w)) n schedule c0"
    and "cursor w = cursor_after (length (claims w)) n schedule c0"
    and "nextScheduledTargetIndex n schedule (cursor w) = (t, c)"
  shows "claims w @ [t] = scheduled_targets (Suc (length (claims w))) n schedule c0 \<and>
    c = cursor_after (Suc (length (claims w))) n schedule c0"
  using assms(1,3) unfolding scheduled_targets_snoc assms(2)
  by (simp add: slot_at_def cursor_after_def)

lemma claims_reachable:
  assumes "choice_reachable h n schedule c w"
  shows "claims w = scheduled_targets (length (claims w)) n schedule c \<and>
    cursor w = cursor_after (length (claims w)) n schedule c"
  using assms
proof (induction rule: choice_reachable.induct)
  case (start hs)
  show ?case by (simp add: choice_start_def cursor_after_def)
next
  case (step w w')
  from step.hyps(2) step.IH show ?case
  proof (cases rule: choice_step.cases)
    case (draw_first i t d)
    then have "claims w' = claims w @ [t]" "cursor w' = d" by simp_all
    with claim_keeps_order [of w n schedule c t d] step.IH draw_first(3) show ?thesis
      by (metis length_append_singleton)
  next
    case (draw_again i first k ls t d)
    then have "claims w' = claims w @ [t]" "cursor w' = d" by simp_all
    with claim_keeps_order [of w n schedule c t d] step.IH draw_again(3) show ?thesis
      by (metis length_append_singleton)
  qed simp_all
qed

section \<open>A call that nobody interrupts\<close>

lemma available_pair:
  "target_available (clk 0) (hs ! i) = (ok, u) \<Longrightarrow>
     available i (hs, clk) = (ok, (hs[i := u], \<lambda>k. clk (Suc k)))"
  by (simp add: available_def)

lemma undisturbed_scan:
  assumes "choosers w i = Some (Drawing first k ls)"
    and "scan_healthy available (nextScheduledTargetIndex n schedule) k (cursor w) (pool_state w, clk) =
      (r, c, (hs, clk'))"
  shows "\<exists>w' ls'. (choice_step h n schedule)\<^sup>*\<^sup>* w w' \<and> cursor w' = c \<and> pool_state w' = hs \<and>
    choosers w' = (choosers w)(i \<mapsto> Chosen (case r of None \<Rightarrow> first | Some j \<Rightarrow> j) ls')"
  using assms
proof (induction k arbitrary: w ls clk)
  case 0
  have "(choice_step h n schedule)\<^sup>*\<^sup>* w (w\<lparr>choosers := (choosers w)(i \<mapsto> Chosen first ls)\<rparr>)"
    by (rule r_into_rtranclp, rule fall_back [OF 0(1)])
  moreover have "r = None" "c = cursor w" "hs = pool_state w" using 0(2) by simp_all
  ultimately show ?case
    by (intro exI [of _ "w\<lparr>choosers := (choosers w)(i \<mapsto> Chosen first ls)\<rparr>"] exI [of _ ls]) simp
next
  case (Suc k)
  obtain t d where d: "nextScheduledTargetIndex n schedule (cursor w) = (t, d)" by fastforce
  obtain ok u where u: "target_available (clk 0) (pool_state w ! t) = (ok, u)" by fastforce
  define l where "l = \<lparr>ticket = cursor w, looked_at = t, look_time = clk 0, seen = pool_state w ! t\<rparr>"
  let ?w1 = "claim_slot i (Asking first k (cursor w) t ls) t d w"
  have 1: "choice_step h n schedule w ?w1" by (rule draw_again [OF Suc.prems(1) d])
  show ?case
  proof (cases ok)
    case True
    let ?w2 = "check_target i (Chosen t (ls @ [l])) t u ?w1"
    have "choice_step h n schedule ?w1 ?w2"
      using found [of ?w1 i first k "cursor w" t ls "clk 0" u] u True by (simp add: l_def)
    with 1 have "(choice_step h n schedule)\<^sup>*\<^sup>* w ?w2" by (meson converse_rtranclp_into_rtranclp r_into_rtranclp)
    moreover have "r = Some t" "c = d" "hs = (pool_state w)[t := u]"
      using Suc.prems(2) d available_pair [where clk = clk, OF u] True by simp_all
    ultimately show ?thesis by (intro exI [of _ ?w2] exI [of _ "ls @ [l]"]) simp
  next
    case False
    let ?w2 = "check_target i (Drawing first k (ls @ [l])) t u ?w1"
    have 2: "choice_step h n schedule ?w1 ?w2"
      using ejected [of ?w1 i first k "cursor w" t ls "clk 0" u] u False by (simp add: l_def)
    have at: "choosers ?w2 i = Some (Drawing first k (ls @ [l]))" "cursor ?w2 = d"
      "pool_state ?w2 = (pool_state w)[t := u]"
      "(choosers ?w2)(i \<mapsto> x) = (choosers w)(i \<mapsto> x)" for x by simp_all
    have "scan_healthy available (nextScheduledTargetIndex n schedule) k d
        ((pool_state w)[t := u], \<lambda>j. clk (Suc j)) = (r, c, (hs, clk'))"
      using Suc.prems(2) d available_pair [where clk = clk, OF u] False by simp
    from Suc.IH [OF at(1), unfolded at(2-4), OF this] obtain w' ls' where
      "(choice_step h n schedule)\<^sup>*\<^sup>* ?w2 w'" and rest: "cursor w' = c" "pool_state w' = hs"
      "choosers w' = (choosers w)(i \<mapsto> Chosen (case r of None \<Rightarrow> first | Some j \<Rightarrow> j) ls')"
      by blast
    from this(1) 1 2 have "(choice_step h n schedule)\<^sup>*\<^sup>* w w'"
      by (meson converse_rtranclp_into_rtranclp)
    with rest show ?thesis by blast
  qed
qed

text \<open>\<open>Health.nextTargetIndex\<close>, which the proxies use, is the run of a call whose steps follow each
  other directly.\<close>

theorem undisturbed_choice:
  assumes "choosers w i = None"
    and "nextTargetIndex n schedule (cursor w) (Some (pool_state w, clk)) = (t, c, Some (hs, clk'))"
  shows "\<exists>w' ls. (choice_step h n schedule)\<^sup>*\<^sup>* w w' \<and> cursor w' = c \<and> pool_state w' = hs \<and>
    choosers w' = (choosers w)(i \<mapsto> Chosen t ls)"
proof -
  obtain f d where d: "nextScheduledTargetIndex n schedule (cursor w) = (f, d)" by fastforce
  obtain ok u where u: "target_available (clk 0) (pool_state w ! f) = (ok, u)" by fastforce
  define k where "k = schedule_slots n schedule - 1"
  define l where "l = \<lparr>ticket = cursor w, looked_at = f, look_time = clk 0, seen = pool_state w ! f\<rparr>"
  let ?w1 = "claim_slot i (Asking f k (cursor w) f []) f d w"
  have 1: "choice_step h n schedule w ?w1" unfolding k_def by (rule draw_first [OF assms(1) d])
  show ?thesis
  proof (cases ok)
    case True
    let ?w2 = "check_target i (Chosen f [l]) f u ?w1"
    have "choice_step h n schedule ?w1 ?w2"
      using found [of ?w1 i f k "cursor w" f "[]" "clk 0" u] u True by (simp add: l_def)
    with 1 have "(choice_step h n schedule)\<^sup>*\<^sup>* w ?w2" by (meson converse_rtranclp_into_rtranclp r_into_rtranclp)
    moreover have "t = f" "c = d" "hs = (pool_state w)[f := u]"
      using assms(2) d available_pair [where clk = clk, OF u] True
      by (auto simp: nextTargetIndex_def nextHealthyTargetIndex_def)
    ultimately show ?thesis by (intro exI [of _ ?w2] exI [of _ "[l]"]) simp
  next
    case False
    let ?w2 = "check_target i (Drawing f k [l]) f u ?w1"
    have 2: "choice_step h n schedule ?w1 ?w2"
      using ejected [of ?w1 i f k "cursor w" f "[]" "clk 0" u] u False by (simp add: l_def)
    obtain r c2 s2 where r: "scan_healthy available (nextScheduledTargetIndex n schedule) k d
        ((pool_state w)[f := u], \<lambda>j. clk (Suc j)) = (r, c2, s2)" by (metis prod_cases3)
    then have res: "t = (case r of None \<Rightarrow> f | Some j \<Rightarrow> j)" "c2 = c" "s2 = (hs, clk')"
      using assms(2) d available_pair [where clk = clk, OF u] False
      by (auto simp: nextTargetIndex_def nextHealthyTargetIndex_def k_def split: option.splits)
    have at: "choosers ?w2 i = Some (Drawing f k [l])" "cursor ?w2 = d"
      "pool_state ?w2 = (pool_state w)[f := u]"
      "(choosers ?w2)(i \<mapsto> x) = (choosers w)(i \<mapsto> x)" for x by simp_all
    from r undisturbed_scan [OF at(1), unfolded at(2-4)] res obtain w' ls' where
      "(choice_step h n schedule)\<^sup>*\<^sup>* ?w2 w'" and rest: "cursor w' = c" "pool_state w' = hs"
      "choosers w' = (choosers w)(i \<mapsto> Chosen t ls')"
      by blast
    from this(1) 1 2 have "(choice_step h n schedule)\<^sup>*\<^sup>* w w'"
      by (meson converse_rtranclp_into_rtranclp)
    with rest show ?thesis by blast
  qed
qed

section \<open>Properties\<close>

text \<open>C25. However many requests, attempts and probes interleave, and whatever the clocks read, a
  chosen target either was available when the request looked, and every target it had looked at
  before was ejected then; or the request looked at a whole cycle of slots, every one was ejected
  when it looked, and the choice is the first it had claimed. The slots are the ones of the
  schedule at the cursor the request drew. If nobody else advanced the cursor meanwhile, a
  request that falls back has found every target of the pool ejected. (If somebody did, the
  cycle may miss a target: \<open>interference_misses_available\<close>.)\<close>

theorem concurrent_choice_prefers_available:
  assumes "choice_reachable h n schedule c w" and "0 < n" and "n < 2 ^ 64" and "length schedule < 2 ^ 64"
    and "choosers w i = Some (Chosen t looks)"
  shows "(\<forall>l \<in> set looks. looked_at l = fst (nextScheduledTargetIndex n schedule (ticket l))) \<and>
    ((\<exists>front l. looks = front @ [l] \<and> looked_at l = t \<and> look_up l \<and> (\<forall>k \<in> set front. \<not> look_up k)) \<or>
     (length looks = schedule_slots n schedule \<and> (\<forall>l \<in> set looks. \<not> look_up l) \<and> t = looked_at (hd looks) \<and>
      (consecutive looks \<longrightarrow> looked_at ` set looks = pool_targets n schedule)))"
proof -
  have slots: "0 < schedule_slots n schedule" "schedule_slots n schedule < 2 ^ 64"
    using assms(2-4) by (auto simp: schedule_slots_def)
  have "chooser_ok n schedule (Chosen t looks)"
    by (rule choosers_okD [OF choosers_ok_reachable [OF assms(1) slots(1)] assms(5)])
  then obtain first where f: "looks_ok n schedule first looks"
    "(\<exists>front l. looks = front @ [l] \<and> looked_at l = t \<and> look_up l \<and> all_down front) \<or>
     (t = first \<and> all_down looks \<and> looks \<noteq> [] \<and> length looks = schedule_slots n schedule)" by auto
  moreover from f(1) have "\<forall>l \<in> set looks. looked_at l = fst (nextScheduledTargetIndex n schedule (ticket l))"
    by (simp add: looks_ok_def slot_at_def)
  moreover have "looks \<noteq> [] \<longrightarrow> looked_at (hd looks) = first" using f(1) unfolding looks_ok_def by blast
  ultimately show ?thesis
    using consecutive_covers [OF slots] unfolding all_down_def by blast
qed

text \<open>Concurrent claims follow the schedule: in the order of the cursor, the slots handed out to all
  requests together are those of one request after the other.\<close>

theorem claims_follow_schedule:
  assumes "choice_reachable h n schedule c w"
  shows "claims w = scheduled_targets (length (claims w)) n schedule c"
  using claims_reachable [OF assms] by blast

section \<open>Two runs\<close>

text \<open>Target 0 of two is ejected until 100, target 1 is up; the clock reads 50.\<close>

definition demo_hs :: "targetHealth list" where
  "demo_hs = [\<lparr>failures = 0, until = Some 100\<rparr>, fresh_target]"

definition look0 :: "64 word \<Rightarrow> look" where
  "look0 c = \<lparr>ticket = c, looked_at = 0, look_time = 50, seen = \<lparr>failures = 0, until = Some 100\<rparr>\<rparr>"

definition look1 :: "64 word \<Rightarrow> look" where
  "look1 c = \<lparr>ticket = c, looked_at = 1, look_time = 50, seen = fresh_target\<rparr>"

definition demo_at :: "64 word \<Rightarrow> (nat \<Rightarrow> chooser option) \<Rightarrow> nat list \<Rightarrow> choice_world" where
  "demo_at c cs ts = \<lparr>cursor = c, pool_state = demo_hs, choosers = cs, claims = ts\<rparr>"

abbreviation demo_run :: "choice_world \<Rightarrow> bool" where
  "demo_run \<equiv> choice_reachable demo_health 2 [] 0"

lemma demo_slots:
  "nextScheduledTargetIndex 2 [] 0 = (0, 1)" "nextScheduledTargetIndex 2 [] 1 = (1, 2)"
  "nextScheduledTargetIndex 2 [] 2 = (0, 3)" "schedule_slots 2 [] = 2"
  by (simp_all add: nextScheduledTargetIndex_def schedule_slots_def slot_target_def)

lemma demo_moves:
  assumes "demo_run (demo_at c cs ts)"
  shows "cs i = None \<Longrightarrow> nextScheduledTargetIndex 2 [] c = (t, d) \<Longrightarrow>
      demo_run (demo_at d (cs(i \<mapsto> Asking t 1 c t [])) (ts @ [t]))"
    and "cs i = Some (Asking first k e 0 ls) \<Longrightarrow>
      demo_run (demo_at c (cs(i \<mapsto> Drawing first k (ls @ [look0 e]))) ts)"
    and "cs i = Some (Asking first k e 1 ls) \<Longrightarrow>
      demo_run (demo_at c (cs(i \<mapsto> Chosen 1 (ls @ [look1 e]))) ts)"
    and "cs i = Some (Drawing first (Suc k) ls) \<Longrightarrow> nextScheduledTargetIndex 2 [] c = (t, d) \<Longrightarrow>
      demo_run (demo_at d (cs(i \<mapsto> Asking first k c t ls)) (ts @ [t]))"
    and "cs i = Some (Drawing first 0 ls) \<Longrightarrow> demo_run (demo_at c (cs(i \<mapsto> Chosen first ls)) ts)"
proof -
  note step = choice_reachable.step [OF assms]
  let ?w = "demo_at c cs ts"
  have w: "choosers ?w = cs" "cursor ?w = c" "pool_state ?w = demo_hs" by (simp_all add: demo_at_def)
  have avail: "target_available 50 (demo_hs ! 0) = (False, demo_hs ! 0)"
    "target_available 50 (demo_hs ! 1) = (True, demo_hs ! 1)"
    by (simp_all add: demo_hs_def target_available_def fresh_target_def)
  show "demo_run (demo_at d (cs(i \<mapsto> Asking t 1 c t [])) (ts @ [t]))"
    if "cs i = None" "nextScheduledTargetIndex 2 [] c = (t, d)"
    using step [OF draw_first [of ?w i 2 "[]" t d]] that
    by (simp add: w demo_slots claim_slot_def demo_at_def)
  show "demo_run (demo_at c (cs(i \<mapsto> Drawing first k (ls @ [look0 e]))) ts)"
    if "cs i = Some (Asking first k e 0 ls)"
    using step [OF ejected [of ?w i first k e 0 ls 50]] that avail
    by (simp add: w check_target_def demo_at_def look0_def demo_hs_def)
  show "demo_run (demo_at c (cs(i \<mapsto> Chosen 1 (ls @ [look1 e]))) ts)"
    if "cs i = Some (Asking first k e 1 ls)"
    using step [OF found [of ?w i first k e 1 ls 50]] that avail
    by (simp add: w check_target_def demo_at_def look1_def demo_hs_def)
  show "demo_run (demo_at d (cs(i \<mapsto> Asking first k c t ls)) (ts @ [t]))"
    if "cs i = Some (Drawing first (Suc k) ls)" "nextScheduledTargetIndex 2 [] c = (t, d)"
    using step [OF draw_again [of ?w i first k ls 2 "[]" t d]] that
    by (simp add: w claim_slot_def demo_at_def)
  show "demo_run (demo_at c (cs(i \<mapsto> Chosen first ls)) ts)" if "cs i = Some (Drawing first 0 ls)"
    using step [OF fall_back [of ?w i first ls]] that by (simp add: w demo_at_def)
qed

lemma demo_start: "demo_run (demo_at 0 Map.empty [])"
  using choice_reachable.start [of demo_health 2 "[]" 0 demo_hs] by (simp add: choice_start_def demo_at_def)

text \<open>Request 7 looks at target 0 and takes target 1.\<close>

lemma demo_alone: "\<exists>w. demo_run w \<and> choosers w 7 = Some (Chosen 1 [look0 0, look1 1])"
proof -
  have 1: "demo_run (demo_at 1 [7 \<mapsto> Asking 0 1 0 0 []] [0])"
    using demo_moves(1) [OF demo_start, where i = 7, OF _ demo_slots(1)] by simp
  have 2: "demo_run (demo_at 1 [7 \<mapsto> Drawing 0 1 [look0 0]] [0])"
    using demo_moves(2) [OF 1, where i = 7 and ls = "[]"] by simp
  have 3: "demo_run (demo_at 2 [7 \<mapsto> Asking 0 0 1 1 [look0 0]] [0, 1])"
    using demo_moves(4) [OF 2, where i = 7 and k = 0 and ls = "[look0 0]", OF _ demo_slots(2)] by simp
  from demo_moves(3) [OF 3, where i = 7 and ls = "[look0 0]"] show ?thesis
    by (intro exI [of _ "demo_at 2 [7 \<mapsto> Chosen 1 [look0 0, look1 1]] [0, 1]"]) (simp add: demo_at_def)
qed

theorem concurrent_choice_prefers_available_witness:
  "\<exists>w. demo_run w \<and> choosers w 7 = Some (Chosen 1 [look0 0, look1 1]) \<and>
     (\<exists>front l. [look0 0, look1 1] = front @ [l] \<and> looked_at l = 1 \<and> look_up l)"
proof -
  obtain w where w: "demo_run w" "choosers w 7 = Some (Chosen 1 [look0 0, look1 1])"
    using demo_alone by blast
  have "look_up (look1 1)" by (simp add: look_up_def look1_def target_up_def fresh_target_def)
  with concurrent_choice_prefers_available [OF w(1) _ _ _ w(2)] w show ?thesis by fastforce
qed

text \<open>Request 8 takes the slot of target 1 between the two claims of request 7, which then sees only
  target 0 and falls back to it, although target 1 was up all the time.\<close>

theorem interference_misses_available:
  "\<exists>w. demo_run w \<and> choosers w 7 = Some (Chosen 0 [look0 0, look0 2]) \<and>
     pool_state w = demo_hs \<and> target_up 50 (demo_hs ! 1)"
proof -
  have 1: "demo_run (demo_at 1 [7 \<mapsto> Asking 0 1 0 0 []] [0])"
    using demo_moves(1) [OF demo_start, where i = 7, OF _ demo_slots(1)] by simp
  have 2: "demo_run (demo_at 1 [7 \<mapsto> Drawing 0 1 [look0 0]] [0])"
    using demo_moves(2) [OF 1, where i = 7 and ls = "[]"] by simp
  have 3: "demo_run (demo_at 2 [8 \<mapsto> Asking 1 1 1 1 [], 7 \<mapsto> Drawing 0 1 [look0 0]] [0, 1])"
    using demo_moves(1) [OF 2, where i = 8, OF _ demo_slots(2)] by (simp add: fun_upd_twist)
  have 4: "demo_run (demo_at 3 [8 \<mapsto> Asking 1 1 1 1 [], 7 \<mapsto> Asking 0 0 2 0 [look0 0]] [0, 1, 0])"
    using demo_moves(4) [OF 3, where i = 7 and k = 0 and ls = "[look0 0]", OF _ demo_slots(3)] by simp
  have 5: "demo_run (demo_at 3 [8 \<mapsto> Asking 1 1 1 1 [], 7 \<mapsto> Drawing 0 0 [look0 0, look0 2]] [0, 1, 0])"
    using demo_moves(2) [OF 4, where i = 7 and ls = "[look0 0]"] by simp
  have 6: "demo_run (demo_at 3 [8 \<mapsto> Asking 1 1 1 1 [], 7 \<mapsto> Chosen 0 [look0 0, look0 2]] [0, 1, 0])"
    using demo_moves(5) [OF 5, where i = 7 and ls = "[look0 0, look0 2]"] by simp
  have "target_up 50 (demo_hs ! 1)" by (simp add: demo_hs_def target_up_def fresh_target_def)
  with 6 show ?thesis
    by (intro exI [of _ "demo_at 3 [8 \<mapsto> Asking 1 1 1 1 [], 7 \<mapsto> Chosen 0 [look0 0, look0 2]] [0, 1, 0]"])
       (simp add: demo_at_def)
qed

end
