(* ===== verification/Retry.thy ===== *)
theory Retry
  imports Health Http
begin

text \<open>
  Retries of a backend (\<open>src/proxy.go\<close>): which requests may be retried
  (\<open>retryableBackendRequest\<close>, \<open>upgradeRequest\<close>), buffering a body for replay
  (\<open>prepareRetryBody\<close>), back-off (\<open>buildBackoffDelays\<close>, \<open>waitRetryBackoff\<close>), and the attempt loops of
  \<open>RoundTrip\<close> and \<open>roundTripWithStatusRetry\<close>.

  The transport, the contexts, the clock and the random source are the environment \<open>env\<close>: each is a
  function of a tick that every reading advances, so a context may end between any two
  readings. \<open>ctx_err\<close> is the request's context and \<open>timed_err\<close> the one derived with
  \<open>retry.deadline\<close>. What the code does to the outside (requests sent, bodies closed, waits) is
  recorded in \<open>trace\<close>, newest last.
\<close>

section \<open>Which requests may be retried\<close>

definition idempotent_method :: "string \<Rightarrow> bool" where
  "idempotent_method m \<longleftrightarrow> m = ''GET'' \<or> m = ''HEAD'' \<or> m = ''OPTIONS'' \<or> m = ''TRACE''"

definition upgradeRequest :: "request \<Rightarrow> bool" where
  "upgradeRequest req =
     (if \<not> list_ex (\<lambda>v. trim_space v \<noteq> []) (header_values (Header req) ''Upgrade'') then False
      else list_ex (\<lambda>v. list_ex (\<lambda>token. equal_fold (trim_space token) ''upgrade'') (split_on CHR '','' v))
             (header_values (Header req) ''Connection''))"

definition retryableBodylessRequest :: "request \<Rightarrow> bool" where
  "retryableBodylessRequest req =
     (if \<not> idempotent_method (Method req) then False
      else if ContentLength req \<noteq> 0 \<or> length (TransferEncoding req) \<noteq> 0 \<or> length (Trailer req) \<noteq> 0
        \<or> has_body (Body req) then False
      else \<not> upgradeRequest req)"

definition retryableBackendRequest :: "request \<Rightarrow> string list option \<Rightarrow> int \<Rightarrow> bool" where
  "retryableBackendRequest req methods bodyMax =
     (if methods = None \<and> bodyMax = 0 then retryableBodylessRequest req
      else if Method req = ''CONNECT'' then False
      else if (case methods of
                 None \<Rightarrow> \<not> idempotent_method (Method req)
               | Some ms \<Rightarrow> Method req \<notin> set ms) then False
      else if upgradeRequest req then False
      else if \<not> has_body (Body req)
      then ContentLength req = 0 \<and> length (TransferEncoding req) = 0 \<and> length (Trailer req) = 0
      else bodyMax > 0 \<and> length (Trailer req) = 0)"

section \<open>Buffering the request body\<close>

datatype ctx_error = Canceled | DeadlineExceeded

datatype 'e rterror =
    Upstream 'e
  | Context ctx_error
  | RetryBodyTooLarge
  | NoProgress
  | BodyRead string
  | GetBodyFailed string
  | AttemptsExhausted

text \<open>The outgoing request: \<open>GetBody\<close> is nil or a function with a fixed result.\<close>

record retry_request = request +
  GetBody :: "(string + body) option"

definition proxyBufferSize :: nat where
  "proxyBufferSize = 32768"

text \<open>
  One \<open>Read\<close> into a buffer of \<open>sz\<close> bytes: the bytes, the error (\<open>Some None\<close> is EOF) and what the
  reader has left. A result that does not fit is delivered in pieces, and a drained reader is at EOF.
\<close>

fun read_chunk ::
  "nat \<Rightarrow> read_result list \<Rightarrow> string \<times> string option option \<times> read_result list" where
  "read_chunk sz [] = ([], Some None, [])"
| "read_chunk sz (ReadSome d # rs) =
     (if length d \<le> sz then (d, None, rs) else (take sz d, None, ReadSome (drop sz d) # rs))"
| "read_chunk sz (ReadEOF d # rs) =
     (if length d \<le> sz then (d, Some None, rs) else (take sz d, None, ReadEOF (drop sz d) # rs))"
| "read_chunk sz (ReadErr d e # rs) =
     (if length d \<le> sz then (d, Some (Some e), rs)
      else (take sz d, None, ReadErr (drop sz d) e # rs))"

fun reader_size :: "read_result list \<Rightarrow> nat" where
  "reader_size [] = 0"
| "reader_size (ReadSome d # rs) = Suc (length d + reader_size rs)"
| "reader_size (ReadEOF d # rs) = Suc (length d + reader_size rs)"
| "reader_size (ReadErr d e # rs) = Suc (length d + reader_size rs)"

definition read_size :: "nat \<Rightarrow> string \<Rightarrow> nat" where
  "read_size limit payload =
     (let remaining = limit - length payload
      in if remaining + 1 < proxyBufferSize then remaining + 1 else proxyBufferSize)"

lemma read_size_pos: "0 < read_size limit payload"
  by (simp add: read_size_def proxyBufferSize_def Let_def)

lemma read_chunk_smaller:
  "read_chunk (read_size limit payload) rs = (d, None, rs') \<Longrightarrow> reader_size rs' < reader_size rs"
  using read_size_pos [of limit payload]
  by (cases "(read_size limit payload, rs)" rule: read_chunk.cases) (auto split: if_splits)

text \<open>
  The loop of \<open>prepareRetryBody\<close>. \<open>ctx\<close> is the context's error at each tick, read before and after
  every \<open>Read\<close>. The result is an error or the payload.
\<close>

function read_body_loop ::
  "(nat \<Rightarrow> ctx_error option) \<Rightarrow> nat \<Rightarrow> nat \<Rightarrow> string \<Rightarrow> nat \<Rightarrow> read_result list \<Rightarrow> 'e rterror + string" where
  "read_body_loop ctx tick limit payload emptyReads rs =
     (case ctx tick of
        Some e \<Rightarrow> Inl (Context e)
      | None \<Rightarrow>
          (case read_chunk (read_size limit payload) rs of
             (d, err, rs') \<Rightarrow>
               (case ctx (tick + 1) of
                  Some e \<Rightarrow> Inl (Context e)
                | None \<Rightarrow>
                    if length d > limit - length payload then Inl RetryBodyTooLarge
                    else
                      (case err of
                         Some None \<Rightarrow> Inr (payload @ d)
                       | Some (Some e) \<Rightarrow> Inl (BodyRead e)
                       | None \<Rightarrow>
                           if d = [] \<and> emptyReads + 1 = 100 then Inl NoProgress
                           else read_body_loop ctx (tick + 2) limit (payload @ d)
                                  (if d = [] then emptyReads + 1 else 0) rs'))))"
  by pat_completeness auto
termination
  by (relation "measure (\<lambda>(ctx, tick, limit, payload, emptyReads, rs). reader_size rs)")
     (auto dest: read_chunk_smaller sym)

declare read_body_loop.simps [simp del]

definition fail_body :: "retry_request \<Rightarrow> retry_request" where
  "fail_body req = req\<lparr>Body := NoBody, GetBody := None\<rparr>"

definition reader_of :: "body \<Rightarrow> read_result list" where
  "reader_of b = (case b of Reader rs \<Rightarrow> rs | _ \<Rightarrow> [])"

text \<open>The error of \<open>prepareRetryBody\<close> (if any) and the request it leaves.\<close>

definition prepareRetryBody ::
  "(nat \<Rightarrow> ctx_error option) \<Rightarrow> nat \<Rightarrow> retry_request \<Rightarrow> int \<Rightarrow> 'e rterror option \<times> retry_request" where
  "prepareRetryBody ctx tick req limit =
     (case ctx tick of
        Some e \<Rightarrow> (Some (Context e), fail_body req)
      | None \<Rightarrow>
          if ContentLength req > limit then
            (case ctx (tick + 1) of
               Some e \<Rightarrow> (Some (Context e), fail_body req)
             | None \<Rightarrow> (Some RetryBodyTooLarge, fail_body req))
          else
            (case read_body_loop ctx (tick + 1) (nat limit) [] 0 (reader_of (Body req)) of
               Inl e \<Rightarrow> (Some e, fail_body req)
             | Inr payload \<Rightarrow>
                 (None, req\<lparr>Body := Reader [ReadEOF payload], GetBody := Some (Inr (Reader [ReadEOF payload])),
                     ContentLength := int (length payload), TransferEncoding := [], Trailer := []\<rparr>)))"

section \<open>Back-off\<close>

record backoffConfig =
  Base :: int
  Cap :: int
  Jitter :: bool

text \<open>\<open>n\<close> entries are left to fill; durations are 64-bit.\<close>

fun backoff_from :: "int \<Rightarrow> int \<Rightarrow> nat \<Rightarrow> int list" where
  "backoff_from cap delay 0 = []"
| "backoff_from cap delay (Suc n) =
     delay # backoff_from cap
       (if delay \<ge> cap then delay else if delay > cap div 2 then cap else i64 (delay * 2)) n"

definition buildBackoffDelays :: "backoffConfig \<Rightarrow> nat \<Rightarrow> int list" where
  "buildBackoffDelays backoff tries = backoff_from (Cap backoff) (Base backoff) (tries - 1)"

definition validateBackoff :: "backoffConfig option \<Rightarrow> unit res" where
  "validateBackoff backoff =
     (case backoff of
        None \<Rightarrow> Inr ()
      | Some b \<Rightarrow>
          if Base b \<le> 0 then Inl (Err ''base must be greater than zero'' [])
          else if Cap b < Base b then Inl (Err ''cap must be greater than or equal to base'' [])
          else Inr ())"

section \<open>The attempts of a request\<close>

record backend =
  targets :: "url list"
  schedule :: "nat list"
  tries :: nat
  retryStatuses :: "int list option"
  retryMethods :: "string list option"
  retryBodyMax :: int
  backoffDelays :: "int list option"
  backoffJitter :: bool
  retryDeadline :: int
  health :: "backendHealth option"

record response =
  StatusCode :: int
  resp_body :: bool

datatype 'e sent = Got response | Lost 'e

record 'e env =
  send :: "nat \<Rightarrow> url \<Rightarrow> body \<Rightarrow> 'e sent \<times> bool"
  left_over :: "nat \<Rightarrow> body \<Rightarrow> body"
  ctx_err :: "nat \<Rightarrow> ctx_error option"
  timed_err :: "nat \<Rightarrow> ctx_error option"
  clock_at :: "nat \<Rightarrow> int"
  random :: "nat \<Rightarrow> int \<Rightarrow> int"

text \<open>\<open>Send tick attempt url body result informational\<close>, with the URL the request is addressed to; the
  other events name the attempt.\<close>

datatype 'e event =
    Send nat nat url body "'e sent" bool
  | CloseBody nat
  | Pause nat int
  | CloseOriginal
  | ReleaseBody

record 'e rt =
  tick :: nat
  pool :: "clocked option"
  rbudget :: "retryBudget option"
  trace :: "'e event list"

text \<open>What follows an attempt: the loop is left with an outcome, or goes on.\<close>

datatype ('e, 'a) step_result = Stop "'e rterror + 'a" | Again

definition emit :: "'e event \<Rightarrow> 'e rt \<Rightarrow> 'e rt" where
  "emit ev s = s\<lparr>trace := trace s @ [ev]\<rparr>"

text \<open>Reading the error of the context in use, and the clock.\<close>

definition read_ctx :: "(nat \<Rightarrow> ctx_error option) \<Rightarrow> 'e rt \<Rightarrow> ctx_error option \<times> 'e rt" where
  "read_ctx ctx s = (ctx (tick s), s\<lparr>tick := tick s + 1\<rparr>)"

definition read_clock :: "'e env \<Rightarrow> 'e rt \<Rightarrow> int \<times> 'e rt" where
  "read_clock env s = (clock_at env (tick s), s\<lparr>tick := tick s + 1\<rparr>)"

definition observeAttempt ::
  "backend \<Rightarrow> (nat \<Rightarrow> ctx_error option) \<Rightarrow> nat \<Rightarrow> bool \<Rightarrow> 'e sent \<Rightarrow> 'e rt \<Rightarrow> 'e rt" where
  "observeAttempt b ctx target informational result s =
     (case (health b, pool s) of
        (Some h, Some (hs, clk)) \<Rightarrow>
          (let (e, s1) = read_ctx ctx s;
               got = (case result of Got _ \<Rightarrow> True | Lost _ \<Rightarrow> False);
               t = observe h (clk 0) (e \<noteq> None) (informational \<or> got) (\<not> got) (hs ! target)
           in s1\<lparr>pool := Some (hs[target := t], \<lambda>k. clk (Suc k))\<rparr>)
      | _ \<Rightarrow> s)"

text \<open>One \<open>transport.RoundTrip\<close> and the observation of its result.\<close>

definition send_attempt ::
  "backend \<Rightarrow> 'e env \<Rightarrow> (nat \<Rightarrow> ctx_error option) \<Rightarrow> nat \<Rightarrow> nat \<Rightarrow> url \<Rightarrow> body \<Rightarrow> 'e rt \<Rightarrow>
   'e sent \<times> bool \<times> 'e rt" where
  "send_attempt b env ctx attempt target address bod s =
     (let (result, informational) = send env (tick s) address bod;
          s1 = emit (Send (tick s) attempt address bod result informational) (s\<lparr>tick := tick s + 1\<rparr>)
      in (result, informational, observeAttempt b ctx target informational result s1))"

text \<open>The target of a further attempt and the URL of its clone: that of the request, with the scheme
  and the host of the target.\<close>

definition retry_target :: "backend \<Rightarrow> url \<Rightarrow> nat \<Rightarrow> nat \<Rightarrow> 'e rt \<Rightarrow> nat \<times> url \<times> 'e rt" where
  "retry_target b requestURL start attempt s =
     (case retryTargetIndex (length (targets b)) start attempt (pool s) of
        (i, p) \<Rightarrow>
          (i, requestURL\<lparr>Scheme := Scheme (targets b ! i), UHost := UHost (targets b ! i)\<rparr>, s\<lparr>pool := p\<rparr>))"

definition reserveRetry ::
  "'e env \<Rightarrow> (nat \<Rightarrow> ctx_error option) \<Rightarrow> 'e rt \<Rightarrow> ctx_error budget_result \<times> 'e rt" where
  "reserveRetry env ctx s =
     (case rbudget s of
        None \<Rightarrow> (Reserved, s)
      | Some bu \<Rightarrow>
          (let (e1, s1) = read_ctx ctx s; (e2, s2) = read_ctx ctx s1; (now, s3) = read_clock env s2;
               (r, bu') = budget_reserve e1 e2 now bu
           in (r, s3\<lparr>rbudget := Some bu'\<rparr>)))"

definition waitRetryBackoff ::
  "'e env \<Rightarrow> (nat \<Rightarrow> ctx_error option) \<Rightarrow> int list \<Rightarrow> bool \<Rightarrow> nat \<Rightarrow> 'e rt \<Rightarrow> ctx_error option \<times> 'e rt" where
  "waitRetryBackoff env ctx delays jitter attempt s =
     (let delay0 = delays ! (attempt - 1);
          delay = (if jitter then random env (tick s) delay0 else delay0);
          s1 = s\<lparr>tick := tick s + 1\<rparr>
      in if delay = 0 then read_ctx ctx s1
         else read_ctx ctx (emit (Pause attempt delay) s1))"

text \<open>The pause before the next attempt, if back-off is configured.\<close>

definition backoff_pause ::
  "backend \<Rightarrow> 'e env \<Rightarrow> (nat \<Rightarrow> ctx_error option) \<Rightarrow> nat \<Rightarrow> 'e rt \<Rightarrow> ('e, 'a) step_result \<times> 'e rt" where
  "backoff_pause b env ctx attempt s =
     (case backoffDelays b of
        None \<Rightarrow> (Again, s)
      | Some delays \<Rightarrow>
          (case waitRetryBackoff env ctx delays (backoffJitter b) (attempt + 1) s of
             (Some e, s') \<Rightarrow> (Stop (Inl (Context e)), s')
           | (None, s') \<Rightarrow> (Again, s')))"

definition close_response :: "nat \<Rightarrow> response \<Rightarrow> 'e rt \<Rightarrow> 'e rt" where
  "close_response attempt resp s = (if resp_body resp then emit (CloseBody attempt) s else s)"

definition after_error ::
  "backend \<Rightarrow> 'e env \<Rightarrow> (nat \<Rightarrow> ctx_error option) \<Rightarrow> nat \<Rightarrow> bool \<Rightarrow> 'e \<Rightarrow> 'e rt \<Rightarrow>
   ('e, nat \<times> response) step_result \<times> 'e rt" where
  "after_error b env ctx attempt informational err s =
     (let (e1, s1) = (if informational then (None, s) else read_ctx ctx s) in
      if informational \<or> e1 \<noteq> None \<or> attempt + 1 = tries b then
        (case read_ctx ctx s1 of
           (Some e, s2) \<Rightarrow>
             (Stop (Inl (if retryDeadline b > 0 \<or> rbudget s2 \<noteq> None then Context e else Upstream err)), s2)
         | (None, s2) \<Rightarrow> (Stop (Inl (Upstream err)), s2))
      else
        (case reserveRetry env ctx s1 of
           (Cancelled e, s2) \<Rightarrow> (Stop (Inl (Context e)), s2)
         | (Exhausted, s2) \<Rightarrow> (Stop (Inl (Upstream err)), s2)
         | (Reserved, s2) \<Rightarrow> backoff_pause b env ctx attempt s2))"

definition after_response ::
  "backend \<Rightarrow> 'e env \<Rightarrow> (nat \<Rightarrow> ctx_error option) \<Rightarrow> nat \<Rightarrow> bool \<Rightarrow> response \<Rightarrow> 'e rt \<Rightarrow>
   ('e, nat \<times> response) step_result \<times> 'e rt" where
  "after_response b env ctx attempt informational resp s =
     (if attempt + 1 = tries b \<or> informational then (Stop (Inr (attempt, resp)), s)
      else if (case retryStatuses b of None \<Rightarrow> True | Some ss \<Rightarrow> StatusCode resp \<notin> set ss)
      then (Stop (Inr (attempt, resp)), s)
      else
        (case read_ctx ctx s of
           (Some e, s1) \<Rightarrow> (Stop (Inl (Context e)), close_response attempt resp s1)
         | (None, s1) \<Rightarrow>
             (case reserveRetry env ctx s1 of
                (Cancelled e, s2) \<Rightarrow> (Stop (Inl (Context e)), close_response attempt resp s2)
              | (Exhausted, s2) \<Rightarrow> (Stop (Inr (attempt, resp)), s2)
              | (Reserved, s2) \<Rightarrow>
                  (case read_ctx ctx (close_response attempt resp s2) of
                     (Some e, s3) \<Rightarrow> (Stop (Inl (Context e)), s3)
                   | (None, s3) \<Rightarrow> backoff_pause b env ctx attempt s3))))"

text \<open>
  \<open>cloneRetryRequest\<close>: the body of a further attempt. A clone without \<open>GetBody\<close> shares the
  request's body, of which the attempts before may have read any part: what is left of it when the
  clone is made is \<open>left_over\<close>, about which nothing is known.
\<close>

definition shared_body :: "'e env \<Rightarrow> nat \<Rightarrow> body \<Rightarrow> body" where
  "shared_body env t bod = (if has_body bod then left_over env t bod else bod)"

definition cloned_body :: "'e env \<Rightarrow> nat \<Rightarrow> retry_request \<Rightarrow> string + body" where
  "cloned_body env t req =
     (case GetBody req of None \<Rightarrow> Inr (shared_body env t (Body req)) | Some r \<Rightarrow> r)"

text \<open>
  The loop of \<open>roundTripWithStatusRetry\<close> from \<open>attempt\<close> on, with \<open>left\<close> iterations to go. A returned
  response is paired with the attempt it answers.
\<close>

fun status_retry_loop ::
  "backend \<Rightarrow> 'e env \<Rightarrow> (nat \<Rightarrow> ctx_error option) \<Rightarrow> retry_request \<Rightarrow> nat \<Rightarrow> nat \<Rightarrow> nat \<Rightarrow> 'e rt \<Rightarrow>
   ('e rterror + nat \<times> response) \<times> 'e rt" where
  "status_retry_loop b env ctx req start 0 attempt s = (Inl AttemptsExhausted, s)"
| "status_retry_loop b env ctx req start (Suc left) attempt s =
     (case (if attempt > 0 then cloned_body env (tick s) req else Inr (Body req)) of
        Inl e \<Rightarrow> (Inl (GetBodyFailed e), s)
      | Inr bod \<Rightarrow>
          (let (target, address, s1) =
                 (if attempt > 0 then retry_target b (URL req) start attempt s else (start, URL req, s));
               (result, informational, s2) = send_attempt b env ctx attempt target address bod s1;
               (step, s3) = (case result of
                  Lost err \<Rightarrow> after_error b env ctx attempt informational err s2
                | Got resp \<Rightarrow> after_response b env ctx attempt informational resp s2)
           in case step of
                Stop outcome \<Rightarrow> (outcome, s3)
              | Again \<Rightarrow> status_retry_loop b env ctx req start left (attempt + 1) s3))"

definition roundTripWithStatusRetry ::
  "backend \<Rightarrow> 'e env \<Rightarrow> (nat \<Rightarrow> ctx_error option) \<Rightarrow> retry_request \<Rightarrow> nat \<Rightarrow> 'e rt \<Rightarrow>
   ('e rterror + nat \<times> response) \<times> 'e rt" where
  "roundTripWithStatusRetry b env ctx req start s =
     status_retry_loop b env ctx req start (tries b) 0 s"

text \<open>The loop of a backend without \<open>retry\<close>: transport errors only, no budget and no pause.\<close>

fun error_retry_loop ::
  "backend \<Rightarrow> 'e env \<Rightarrow> retry_request \<Rightarrow> nat \<Rightarrow> nat \<Rightarrow> nat \<Rightarrow> 'e \<Rightarrow> 'e rt \<Rightarrow>
   ('e rterror + nat \<times> response) \<times> 'e rt" where
  "error_retry_loop b env req start 0 attempt lastErr s = (Inl (Upstream lastErr), s)"
| "error_retry_loop b env req start (Suc left) attempt lastErr s =
     (let (target, address, s1) = retry_target b (URL req) start attempt s;
          (result, informational, s2) =
            send_attempt b env (ctx_err env) attempt target address (shared_body env (tick s) (Body req)) s1
      in case result of
           Got resp \<Rightarrow> (Inr (attempt, resp), s2)
         | Lost err \<Rightarrow>
             (let (e, s3) = (if informational then (None, s2) else read_ctx (ctx_err env) s2) in
              if informational \<or> e \<noteq> None then (Inl (Upstream err), s3)
              else error_retry_loop b env req start left (attempt + 1) err s3))"

text \<open>\<open>backendRetryState\<close>: the first target and whether the request may be retried.\<close>

record backendRetryState =
  start_target :: nat
  may_retry :: bool

definition ctx_after_cancel :: "ctx_error option \<Rightarrow> ctx_error" where
  "ctx_after_cancel e = (case e of Some x \<Rightarrow> x | None \<Rightarrow> Canceled)"

text \<open>The deadline branch: the context derived with \<open>retry.deadline\<close> is cancelled on every error.\<close>

definition with_deadline ::
  "backend \<Rightarrow> 'e env \<Rightarrow> retry_request \<Rightarrow> nat \<Rightarrow> 'e rt \<Rightarrow> ('e rterror + nat \<times> response) \<times> 'e rt" where
  "with_deadline b env req start s =
     (case roundTripWithStatusRetry b env (timed_err env) req start s of
        (Inl err, s1) \<Rightarrow>
          (case read_ctx (timed_err env) s1 of
             (e, s2) \<Rightarrow> (Inl (Context (ctx_after_cancel e)), s2))
      | (Inr r, s1) \<Rightarrow> (Inr r, s1))"

definition status_retry :: 
  "backend \<Rightarrow> 'e env \<Rightarrow> retry_request \<Rightarrow> nat \<Rightarrow> 'e rt \<Rightarrow> ('e rterror + nat \<times> response) \<times> 'e rt" where
  "status_retry b env req start s =
     (if retryDeadline b = 0 then roundTripWithStatusRetry b env (ctx_err env) req start s
      else with_deadline b env req start s)"

text \<open>
  \<open>prepareRetryBody\<close> closes the request's own body when it is done, and reads the context at most
  twice per \<open>Read\<close> and twice before the first: later readings come after those ticks.
\<close>

definition after_body :: "retry_request \<Rightarrow> 'e rt \<Rightarrow> 'e rt" where
  "after_body req s =
     emit CloseOriginal (s\<lparr>tick := tick s + 2 * reader_size (reader_of (Body req)) + 4\<rparr>)"

definition RoundTrip ::
  "backend \<Rightarrow> 'e env \<Rightarrow> backendRetryState option \<Rightarrow> retry_request \<Rightarrow> 'e rt \<Rightarrow>
   ('e rterror + nat \<times> response) \<times> 'e rt" where
  "RoundTrip b env state req s =
     (case state of
        None \<Rightarrow>
          (let (result, informational) = send env (tick s) (URL req) (Body req)
           in ((case result of Got r \<Rightarrow> Inr (0, r) | Lost e \<Rightarrow> Inl (Upstream e)),
               emit (Send (tick s) 0 (URL req) (Body req) result informational) (s\<lparr>tick := tick s + 1\<rparr>)))
      | Some st \<Rightarrow>
          if \<not> may_retry st then
            (case send_attempt b env (ctx_err env) 0 (start_target st) (URL req) (Body req) s of
               (result, informational, s1) \<Rightarrow>
                 ((case result of Got r \<Rightarrow> Inr (0, r) | Lost e \<Rightarrow> Inl (Upstream e)), s1))
          else if retryStatuses b = None then
            (case send_attempt b env (ctx_err env) 0 (start_target st) (URL req) (Body req) s of
               (Got r, informational, s1) \<Rightarrow> (Inr (0, r), s1)
             | (Lost err, informational, s1) \<Rightarrow>
                 (let (e, s2) = (if informational then (None, s1) else read_ctx (ctx_err env) s1) in
                  if informational \<or> e \<noteq> None then (Inl (Upstream err), s2)
                  else error_retry_loop b env req (start_target st) (tries b - 1) 1 err s2))
          else if retryBodyMax b > 0 \<and> has_body (Body req) then
            (case prepareRetryBody (ctx_err env) (tick s) req (retryBodyMax b) of
               (Some err, req1) \<Rightarrow> (Inl err, after_body req s)
             | (None, req1) \<Rightarrow>
                 (case status_retry b env req1 (start_target st) (after_body req s) of
                    (outcome, s1) \<Rightarrow> (outcome, emit ReleaseBody s1)))
          else status_retry b env req (start_target st) s)"

section \<open>What an attempt sequence may do\<close>

text \<open>
  The specification: the events an eligible request may cause from attempt \<open>n\<close> on, and its outcome.
  A further attempt needs a free attempt, no informational response, a context seen alive after
  the previous attempt, and a transport error or a response with a retry status; such a response is
  closed before anything else happens.
\<close>

definition closes :: "nat \<Rightarrow> response \<Rightarrow> 'e event list" where
  "closes n r = (if resp_body r then [CloseBody n] else [])"

definition pauses :: "backend \<Rightarrow> nat \<Rightarrow> 'e event list \<Rightarrow> bool" where
  "pauses b n ps \<longleftrightarrow> ps = [] \<or>
     (\<exists>delays d. backoffDelays b = Some delays \<and> ps = [Pause (Suc n) d] \<and> 0 \<le> d \<and> d \<le> delays ! n)"

definition retry_status :: "backend \<Rightarrow> response \<Rightarrow> bool" where
  "retry_status b r \<longleftrightarrow> (\<exists>ss. retryStatuses b = Some ss \<and> StatusCode r \<in> set ss)"

inductive attempts_spec ::
  "backend \<Rightarrow> (nat \<Rightarrow> ctx_error option) \<Rightarrow> body set \<Rightarrow> nat \<Rightarrow> 'e event list \<Rightarrow>
   ('e rterror + nat \<times> response) \<Rightarrow> bool"
  for b ctx B where
  no_attempt: "attempts_spec b ctx B n [] (Inl e)"
| failed: "\<lbrakk>bod \<in> B; pauses b n ps\<rbrakk>
    \<Longrightarrow> attempts_spec b ctx B n (Send t n i bod (Lost err) seen # ps) (Inl e)"
| retried: "\<lbrakk>bod \<in> B; Suc n < tries b; t < t'; ctx t' = None; pauses b n ps;
      attempts_spec b ctx B (Suc n) tr out\<rbrakk>
    \<Longrightarrow> attempts_spec b ctx B n (Send t n i bod (Lost err) False # ps @ tr) out"
| returned: "bod \<in> B \<Longrightarrow> attempts_spec b ctx B n [Send t n i bod (Got r) seen] (Inr (n, r))"
| dropped: "\<lbrakk>bod \<in> B; retry_status b r; pauses b n ps\<rbrakk>
    \<Longrightarrow> attempts_spec b ctx B n (Send t n i bod (Got r) seen # closes n r @ ps) (Inl (Context e))"
| replaced: "\<lbrakk>bod \<in> B; Suc n < tries b; t < t'; ctx t' = None; retry_status b r; pauses b n ps;
      attempts_spec b ctx B (Suc n) tr out\<rbrakk>
    \<Longrightarrow> attempts_spec b ctx B n (Send t n i bod (Got r) False # closes n r @ ps @ tr) out"

inductive_cases attempts_nilE: "attempts_spec b ctx B n [] out"

section \<open>The loops implement it\<close>

lemma emit_fields [simp]:
  "trace (emit ev s) = trace s @ [ev]" "tick (emit ev s) = tick s" "pool (emit ev s) = pool s"
  "rbudget (emit ev s) = rbudget s"
  by (simp_all add: emit_def)

lemma read_ctx_fields [simp]:
  "fst (read_ctx ctx s) = ctx (tick s)" "trace (snd (read_ctx ctx s)) = trace s"
  "tick (snd (read_ctx ctx s)) = Suc (tick s)"
  by (simp_all add: read_ctx_def)

lemma observeAttempt_fields [simp]:
  "trace (observeAttempt b ctx i seen r s) = trace s" "tick s \<le> tick (observeAttempt b ctx i seen r s)"
  by (auto simp: observeAttempt_def read_ctx_def Let_def split: option.splits prod.splits)

lemma retry_target_fields:
  "retry_target b u start n s = (i, a, s') \<Longrightarrow> trace s' = trace s \<and> tick s' = tick s"
  by (auto simp: retry_target_def split: prod.splits)

lemma reserveRetry_fields:
  "reserveRetry env ctx s = (r, s') \<Longrightarrow> trace s' = trace s \<and> tick s \<le> tick s'"
  by (auto simp: reserveRetry_def read_ctx_def read_clock_def Let_def split: option.splits prod.splits)

text \<open>The random source: \<open>rand.Int64N(n)\<close> lies in \<open>[0, n)\<close> for positive \<open>n\<close>.\<close>

definition random_ok :: "'e env \<Rightarrow> bool" where
  "random_ok env \<longleftrightarrow> (\<forall>t d. 0 < d \<longrightarrow> 0 \<le> random env t d \<and> random env t d < d)"

definition delays_ok :: "backend \<Rightarrow> bool" where
  "delays_ok b \<longleftrightarrow>
     (\<forall>ds. backoffDelays b = Some ds \<longrightarrow> length ds = tries b - 1 \<and> (\<forall>d \<in> set ds. 0 < d))"

lemma backoff_pause_trace:
  assumes "random_ok env" and "delays_ok b" and "Suc n < tries b"
    and "backoff_pause b env ctx n s = (step, s')"
  shows "\<exists>ps. trace s' = trace s @ ps \<and> pauses b n ps \<and> tick s \<le> tick s' \<and>
    (step = Again \<or> (\<exists>e. step = Stop (Inl (Context e))))"
proof (cases "backoffDelays b")
  case None
  then show ?thesis using assms(4) by (auto simp: backoff_pause_def pauses_def)
next
  case (Some ds)
  then have "length ds = tries b - 1" "\<forall>d \<in> set ds. 0 < d" using assms(2) by (auto simp: delays_ok_def)
  then have pos: "0 < ds ! n" using assms(3) by simp
  define d where "d = (if backoffJitter b then random env (tick s) (ds ! n) else ds ! n)"
  have d: "0 \<le> d \<and> d \<le> ds ! n" using assms(1) pos by (auto simp: d_def random_ok_def less_imp_le)
  have "pauses b n ([] :: 'a event list)" "pauses b n ([Pause (Suc n) d] :: 'a event list)"
    using Some d by (auto simp: pauses_def)
  then show ?thesis
    using assms(4) Some
    by (auto simp: backoff_pause_def waitRetryBackoff_def read_ctx_def d_def [symmetric] Let_def
        split: option.splits if_splits)
qed

lemma after_error_trace:
  assumes env: "random_ok env" "delays_ok b" and n: "Suc n \<le> tries b"
    and run: "after_error b env ctx n seen err s = (step, s')"
  shows "\<exists>ps. trace s' = trace s @ ps \<and> pauses b n ps \<and> tick s \<le> tick s' \<and>
    ((\<exists>e. step = Stop (Inl e)) \<or>
     step = Again \<and> \<not> seen \<and> Suc n < tries b \<and> (\<exists>t \<ge> tick s. ctx t = None))"
proof (cases "seen \<or> ctx (tick s) \<noteq> None \<or> n + 1 = tries b")
  case True
  have "pauses b n ([] :: 'a event list)" by (simp add: pauses_def)
  with True run show ?thesis
    by (auto simp: after_error_def read_ctx_def Let_def split: option.splits if_splits)
next
  case False
  define s1 where "s1 = s\<lparr>tick := tick s + 1\<rparr>"
  have s1: "trace s1 = trace s" "tick s \<le> tick s1" by (simp_all add: s1_def)
  obtain r s2 where r: "reserveRetry env ctx s1 = (r, s2)" by fastforce
  note f = reserveRetry_fields [OF r]
  have nil: "pauses b n ([] :: 'a event list)" by (simp add: pauses_def)
  have lt: "Suc n < tries b" using False n by simp
  have step: "(step, s') = (case r of Cancelled e \<Rightarrow> (Stop (Inl (Context e)), s2)
      | Exhausted \<Rightarrow> (Stop (Inl (Upstream err)), s2) | Reserved \<Rightarrow> backoff_pause b env ctx n s2)"
    using run False r by (auto simp: after_error_def read_ctx_def s1_def split: budget_result.splits)
  show ?thesis
  proof (cases r)
    case Reserved
    with step have "backoff_pause b env ctx n s2 = (step, s')" by simp
    from backoff_pause_trace [OF env lt this] f s1 False lt show ?thesis
      by (fastforce intro: exI [of _ "tick s"] order_trans)
  qed (use step f s1 nil in auto)
qed

lemma after_response_trace:
  assumes env: "random_ok env" "delays_ok b" and n: "Suc n \<le> tries b"
    and run: "after_response b env ctx n seen r s = (step, s')"
  shows "trace s' = trace s \<and> step = Stop (Inr (n, r)) \<or>
    (\<exists>ps. trace s' = trace s @ closes n r @ ps \<and> pauses b n ps \<and> retry_status b r \<and> tick s \<le> tick s' \<and>
      ((\<exists>e. step = Stop (Inl (Context e))) \<or>
       step = Again \<and> \<not> seen \<and> Suc n < tries b \<and> (\<exists>t \<ge> tick s. ctx t = None)))"
proof (cases "n + 1 = tries b \<or> seen \<or> \<not> retry_status b r")
  case True
  then show ?thesis using run
    by (auto simp: after_response_def retry_status_def split: option.splits if_splits)
next
  case False
  then have lt: "Suc n < tries b" and st: "retry_status b r" and unseen: "\<not> seen" using n by auto
  have cl: "trace (close_response n r x) = trace x @ closes n r" "tick (close_response n r x) = tick x" for x
    by (simp_all add: close_response_def closes_def)
  have nil: "pauses b n ([] :: 'a event list)" by (simp add: pauses_def)
  define s1 where "s1 = s\<lparr>tick := tick s + 1\<rparr>"
  have s1: "trace s1 = trace s" "tick s \<le> tick s1" by (simp_all add: s1_def)
  obtain q s2 where q: "reserveRetry env ctx s1 = (q, s2)" by fastforce
  note f = reserveRetry_fields [OF q]
  define s3 where "s3 = (close_response n r s2)\<lparr>tick := tick s2 + 1\<rparr>"
  have s3: "trace s3 = trace s @ closes n r" "tick s \<le> tick s3" using f s1 by (simp_all add: s3_def cl)
  have step: "(step, s') = (case ctx (tick s) of
       Some e \<Rightarrow> (Stop (Inl (Context e)), close_response n r s1)
     | None \<Rightarrow> (case q of Cancelled e \<Rightarrow> (Stop (Inl (Context e)), close_response n r s2)
        | Exhausted \<Rightarrow> (Stop (Inr (n, r)), s2)
        | Reserved \<Rightarrow> (case ctx (tick s2) of Some e \<Rightarrow> (Stop (Inl (Context e)), s3)
            | None \<Rightarrow> backoff_pause b env ctx n s3)))"
    using run lt st unseen q
    by (auto simp: after_response_def retry_status_def read_ctx_def s1_def s3_def cl
        split: option.splits budget_result.splits)
  show ?thesis
  proof (cases "ctx (tick s)")
    case (Some e)
    with step s1 nil st show ?thesis by (auto simp: cl)
  next
    case None
    note alive = None
    show ?thesis
    proof (cases q)
      case Reserved
      show ?thesis
      proof (cases "ctx (tick s2)")
        case (Some e)
        with step s3 nil st alive Reserved show ?thesis by auto
      next
        case None
        with step alive Reserved have "backoff_pause b env ctx n s3 = (step, s')" by simp
        from backoff_pause_trace [OF env lt this] s3 st alive lt unseen show ?thesis
          by (fastforce intro: exI [of _ "tick s"] order_trans)
      qed
    qed (use step alive f s1 nil st in \<open>auto simp: cl\<close>)
  qed
qed

lemma send_attempt_trace:
  assumes "send_attempt b env ctx n i a bod s = (result, seen, s')"
  shows "trace s' = trace s @ [Send (tick s) n a bod result seen] \<and> tick s < tick s'"
  using assms observeAttempt_fields(2) [of "emit (Send (tick s) n a bod result seen) (s\<lparr>tick := tick s + 1\<rparr>)" b ctx i seen result]
  by (auto simp: send_attempt_def Let_def split: prod.splits)

text \<open>The bodies a request can be sent with.\<close>

definition clone_bodies :: "'e env \<Rightarrow> retry_request \<Rightarrow> body set" where
  "clone_bodies env req = {bd. \<exists>t. cloned_body env t req = Inr bd}"

definition request_bodies :: "'e env \<Rightarrow> retry_request \<Rightarrow> body set" where
  "request_bodies env req = insert (Body req) (clone_bodies env req)"

definition shared_bodies :: "'e env \<Rightarrow> retry_request \<Rightarrow> body set" where
  "shared_bodies env req = insert (Body req) (range (\<lambda>t. shared_body env t (Body req)))"

lemma status_retry_loop_spec:
  assumes env: "random_ok env" "delays_ok b" and bodies: "request_bodies env req \<subseteq> B"
    and "n + left = tries b" and "status_retry_loop b env ctx req start left n s = (out, s')"
  shows "\<exists>tr. trace s' = trace s @ tr \<and> attempts_spec b ctx B n tr out"
  using assms(4,5)
proof (induction left arbitrary: n s)
  case 0
  then show ?case by (auto intro: no_attempt)
next
  case (Suc left)
  have n: "Suc n \<le> tries b" using Suc.prems(1) by simp
  show ?case
  proof (cases "if n > 0 then cloned_body env (tick s) req else Inr (Body req)")
    case (Inl e)
    then show ?thesis using Suc.prems(2) by (auto intro: no_attempt)
  next
    case (Inr bod)
    then have B: "bod \<in> B" using bodies
      by (auto simp: request_bodies_def clone_bodies_def split: if_splits)
    obtain i u s1 where i: "(if n > 0 then retry_target b (URL req) start n s else (start, URL req, s)) = (i, u, s1)"
      by (metis prod_cases3)
    then have s1: "trace s1 = trace s" "tick s1 = tick s"
      using retry_target_fields [of b "URL req" start n s i u s1] by (auto split: if_splits)
    obtain result seen s2 where a: "send_attempt b env ctx n i u bod s1 = (result, seen, s2)"
      by (metis prod_cases3)
    note s2 = send_attempt_trace [OF a]
    obtain step s3 where st: "(case result of Lost err \<Rightarrow> after_error b env ctx n seen err s2
        | Got resp \<Rightarrow> after_response b env ctx n seen resp s2) = (step, s3)" by fastforce
    have run: "(case step of Stop outcome \<Rightarrow> (outcome, s3)
        | Again \<Rightarrow> status_retry_loop b env ctx req start left (n + 1) s3) = (out, s')"
      using Suc.prems(2) Inr i a st by simp
    show ?thesis
    proof (cases result)
      case (Lost err)
      with after_error_trace [OF env n] st obtain ps where ps: "trace s3 = trace s2 @ ps" "pauses b n ps"
        "(\<exists>e. step = Stop (Inl e)) \<or>
         step = Again \<and> \<not> seen \<and> Suc n < tries b \<and> (\<exists>t \<ge> tick s2. ctx t = None)" by fastforce
      from ps(3) show ?thesis
      proof
        assume "\<exists>e. step = Stop (Inl e)"
        with run ps s2 s1 Lost show ?thesis by (auto intro: failed [OF B])
      next
        assume again: "step = Again \<and> \<not> seen \<and> Suc n < tries b \<and> (\<exists>t \<ge> tick s2. ctx t = None)"
        then obtain t where t: "tick s1 < t" "ctx t = None" using s2 by (meson order_less_le_trans)
        from again run have "status_retry_loop b env ctx req start left (Suc n) s3 = (out, s')" by simp
        with Suc.IH [of "Suc n" s3] Suc.prems(1) obtain tr where
          tr: "trace s' = trace s3 @ tr" "attempts_spec b ctx B (Suc n) tr out" by auto
        from retried [OF B _ t ps(2) tr(2)] again tr(1) ps(1) s2 s1 Lost show ?thesis by fastforce
      qed
    next
      case (Got r)
      with after_response_trace [OF env n] st consider
          (ret) "trace s3 = trace s2" "step = Stop (Inr (n, r))"
        | (drop) ps where "trace s3 = trace s2 @ closes n r @ ps" "pauses b n ps" "retry_status b r"
            "(\<exists>e. step = Stop (Inl (Context e))) \<or>
             step = Again \<and> \<not> seen \<and> Suc n < tries b \<and> (\<exists>t \<ge> tick s2. ctx t = None)"
        by fastforce
      then show ?thesis
      proof cases
        case ret
        with run s2 s1 Got show ?thesis by (auto intro: returned [OF B])
      next
        case drop
        from drop(4) show ?thesis
        proof
          assume "\<exists>e. step = Stop (Inl (Context e))"
          with run drop s2 s1 Got show ?thesis by (auto intro: dropped [OF B])
        next
          assume again: "step = Again \<and> \<not> seen \<and> Suc n < tries b \<and> (\<exists>t \<ge> tick s2. ctx t = None)"
          then obtain t where t: "tick s1 < t" "ctx t = None" using s2 by (meson order_less_le_trans)
          from again run have "status_retry_loop b env ctx req start left (Suc n) s3 = (out, s')" by simp
          with Suc.IH [of "Suc n" s3] Suc.prems(1) obtain tr where
            tr: "trace s' = trace s3 @ tr" "attempts_spec b ctx B (Suc n) tr out" by auto
          from replaced [OF B _ t drop(3,2) tr(2)] again tr(1) drop(1) s2 s1 Got show ?thesis by fastforce
        qed
      qed
    qed
  qed
qed

lemma error_retry_loop_spec:
  assumes B: "shared_bodies env req \<subseteq> B" and "n + left = tries b"
    and "error_retry_loop b env req start left n lastErr s = (out, s')"
  shows "\<exists>tr. trace s' = trace s @ tr \<and> attempts_spec b (ctx_err env) B n tr out"
  using assms(2,3)
proof (induction left arbitrary: n lastErr s)
  case 0
  then show ?case by (auto intro: no_attempt)
next
  case (Suc left)
  obtain i u s1 where i: "retry_target b (URL req) start n s = (i, u, s1)" by (metis prod_cases3)
  note s1 = retry_target_fields [OF i]
  define bod where "bod = shared_body env (tick s) (Body req)"
  have B: "bod \<in> B" using B by (auto simp: shared_bodies_def bod_def)
  obtain result seen s2 where a: "send_attempt b env (ctx_err env) n i u bod s1 = (result, seen, s2)"
    by (metis prod_cases3)
  note s2 = send_attempt_trace [OF a]
  have nil: "pauses b n ([] :: 'a event list)" by (simp add: pauses_def)
  show ?case
  proof (cases result)
    case (Got r)
    with Suc.prems(2) i a have "out = Inr (n, r)" "s' = s2" by (simp_all add: bod_def)
    with s1 s2 Got show ?thesis by (auto intro: returned [OF B])
  next
    case (Lost err)
    define s3 where "s3 = s2\<lparr>tick := tick s2 + 1\<rparr>"
    show ?thesis
    proof (cases "seen \<or> ctx_err env (tick s2) \<noteq> None \<or> \<not> Suc n < tries b")
      case True
      then have "(seen \<or> ctx_err env (tick s2) \<noteq> None) \<or> left = 0" using Suc.prems(1) by auto
      moreover have "(out, s') = (let (e, s3) = (if seen then (None, s2) else read_ctx (ctx_err env) s2) in
          if seen \<or> e \<noteq> None then (Inl (Upstream err), s3)
          else error_retry_loop b env req start left (n + 1) err s3)"
        using Suc.prems(2) i a Lost by (simp add: bod_def)
      ultimately have "\<exists>e. out = Inl e" "trace s' = trace s2"
        by (auto simp: read_ctx_def split: if_splits)
      with s1 s2 Lost nil show ?thesis by (auto intro: failed [OF B])
    next
      case False
      then have "error_retry_loop b env req start left (Suc n) err s3 = (out, s')"
        using Suc.prems i a Lost by (simp add: read_ctx_def s3_def bod_def)
      moreover have "Suc n + left = tries b" using Suc.prems(1) by simp
      ultimately obtain tr where tr: "trace s' = trace s3 @ tr" "attempts_spec b (ctx_err env) B (Suc n) tr out"
        using Suc.IH [of "Suc n" err s3] by blast
      have "tick s1 < tick s2" "ctx_err env (tick s2) = None" using s2 False by simp_all
      from retried [OF B _ this nil tr(2)] tr(1) s1 s2 Lost False show ?thesis
        by (fastforce simp: s3_def)
    qed
  qed
qed

text \<open>A deadline replaces the error of an attempt sequence by the context's.\<close>

lemma attempts_spec_masked:
  assumes "attempts_spec b ctx B n tr out" and "out = Inl e"
  shows "attempts_spec b ctx B n tr (Inl (Context e'))"
  using assms by induction (auto intro: attempts_spec.intros)

definition attempt_events :: "'e event list \<Rightarrow> 'e event list" where
  "attempt_events tr = filter (\<lambda>ev. case ev of CloseOriginal \<Rightarrow> False | ReleaseBody \<Rightarrow> False | _ \<Rightarrow> True) tr"

lemma attempt_events_id: "attempts_spec b ctx B n tr out \<Longrightarrow> attempt_events tr = tr"
proof (induction rule: attempts_spec.induct)
  case (retried bod n t t' ps tr out i err)
  then show ?case by (auto simp: attempt_events_def pauses_def)
next
  case (replaced bod n t t' r ps tr out i)
  then show ?case by (auto simp: attempt_events_def pauses_def closes_def)
qed (auto simp: attempt_events_def pauses_def closes_def)

text \<open>The context in force during the attempts.\<close>

definition attempt_ctx :: "backend \<Rightarrow> 'e env \<Rightarrow> nat \<Rightarrow> ctx_error option" where
  "attempt_ctx b env =
     (if retryStatuses b = None \<or> retryDeadline b = 0 then ctx_err env else timed_err env)"

lemma status_retry_spec:
  assumes "random_ok env" and "delays_ok b" and "retryStatuses b \<noteq> None"
    and "request_bodies env req \<subseteq> B"
    and "status_retry b env req start s = (out, s')"
  shows "\<exists>tr. trace s' = trace s @ tr \<and> attempts_spec b (attempt_ctx b env) B 0 tr out"
proof -
  obtain out1 s1 where r: "roundTripWithStatusRetry b env (attempt_ctx b env) req start s = (out1, s1)"
    by fastforce
  then obtain tr where tr: "trace s1 = trace s @ tr" "attempts_spec b (attempt_ctx b env) B 0 tr out1"
    using status_retry_loop_spec [OF assms(1,2,4), of 0 "tries b" _ start s out1 s1]
    by (auto simp: roundTripWithStatusRetry_def)
  show ?thesis
  proof (cases "retryDeadline b = 0")
    case True
    then show ?thesis using assms r tr by (auto simp: status_retry_def attempt_ctx_def)
  next
    case False
    then have "attempt_ctx b env = timed_err env" using assms(3) by (auto simp: attempt_ctx_def)
    with False r assms(5) tr have "trace s' = trace s1" "out = out1 \<or> (\<exists>e e'. out1 = Inl e \<and> out = Inl (Context e'))"
      by (auto simp: status_retry_def with_deadline_def read_ctx_def split: sum.splits)
    with tr show ?thesis using attempts_spec_masked by metis
  qed
qed

section \<open>What the specification means\<close>

fun attempt_numbers :: "'e event list \<Rightarrow> nat list" where
  "attempt_numbers [] = []"
| "attempt_numbers (Send t n i bod r seen # tr) = n # attempt_numbers tr"
| "attempt_numbers (ev # tr) = attempt_numbers tr"

fun closed_attempts :: "'e event list \<Rightarrow> nat list" where
  "closed_attempts [] = []"
| "closed_attempts (CloseBody n # tr) = n # closed_attempts tr"
| "closed_attempts (ev # tr) = closed_attempts tr"

fun received_bodies :: "'e event list \<Rightarrow> nat list" where
  "received_bodies [] = []"
| "received_bodies (Send t n i bod (Got r) seen # tr) = (if resp_body r then [n] else []) @ received_bodies tr"
| "received_bodies (ev # tr) = received_bodies tr"

lemma event_lists_append [simp]:
  "attempt_numbers (xs @ ys) = attempt_numbers xs @ attempt_numbers ys"
  "closed_attempts (xs @ ys) = closed_attempts xs @ closed_attempts ys"
  "received_bodies (xs @ ys) = received_bodies xs @ received_bodies ys"
proof -
  show "attempt_numbers (xs @ ys) = attempt_numbers xs @ attempt_numbers ys"
    by (induction xs rule: attempt_numbers.induct) auto
  show "closed_attempts (xs @ ys) = closed_attempts xs @ closed_attempts ys"
    by (induction xs rule: closed_attempts.induct) auto
  show "received_bodies (xs @ ys) = received_bodies xs @ received_bodies ys"
    by (induction xs rule: received_bodies.induct) auto
qed

lemma event_lists_pause:
  "pauses b n ps \<Longrightarrow> attempt_numbers ps = [] \<and> closed_attempts ps = [] \<and> received_bodies ps = []"
  "attempt_numbers (closes n r) = []" "received_bodies (closes n r) = []"
  "closed_attempts (closes n r) = (if resp_body r then [n] else [])"
  by (auto simp: pauses_def closes_def)

lemma spec_numbers:
  assumes "attempts_spec b ctx B n tr out"
  shows "\<exists>k. attempt_numbers tr = [n..<n + k] \<and> (k = 0 \<or> n < tries b \<longrightarrow> n + k \<le> max n (tries b))"
  using assms
proof (induction rule: attempts_spec.induct)
  case (retried bod n t t' ps tr out i err)
  then obtain k where "attempt_numbers tr = [Suc n..<Suc n + k]"
    "Suc n + k \<le> max (Suc n) (tries b)" by auto
  with retried show ?case
    by (intro exI [of _ "Suc k"]) (auto simp: event_lists_pause upt_conv_Cons)
next
  case (replaced bod n t t' r ps tr out i)
  then obtain k where "attempt_numbers tr = [Suc n..<Suc n + k]"
    "Suc n + k \<le> max (Suc n) (tries b)" by auto
  with replaced show ?case
    by (intro exI [of _ "Suc k"]) (auto simp: event_lists_pause upt_conv_Cons)
next
  case (no_attempt n e)
  then show ?case by (intro exI [of _ 0]) auto
qed (auto simp: event_lists_pause intro!: exI [of _ 1])

definition returned_attempt :: "('e rterror + nat \<times> response) \<Rightarrow> nat set" where
  "returned_attempt out = (case out of Inl e \<Rightarrow> {} | Inr (n, r) \<Rightarrow> {n})"

lemma spec_bodies:
  assumes "attempts_spec b ctx B n tr out"
  shows "distinct (closed_attempts tr) \<and> set (closed_attempts tr) = set (received_bodies tr) - returned_attempt out
    \<and> set (received_bodies tr) \<subseteq> {n..} \<and> returned_attempt out \<subseteq> {n..}"
  using assms
proof (induction rule: attempts_spec.induct)
  case (retried bod n t t' ps tr out i err)
  then show ?case by (auto simp: event_lists_pause)
next
  case (replaced bod n t t' r ps tr out i)
  then show ?case by (auto simp: event_lists_pause) 
qed (auto simp: event_lists_pause returned_attempt_def)

text \<open>A context that has ended stays ended.\<close>

definition persistent :: "(nat \<Rightarrow> ctx_error option) \<Rightarrow> bool" where
  "persistent ctx \<longleftrightarrow> (\<forall>t t'. t \<le> t' \<longrightarrow> ctx t \<noteq> None \<longrightarrow> ctx t' \<noteq> None)"

fun retries_allowed :: "backend \<Rightarrow> (nat \<Rightarrow> ctx_error option) \<Rightarrow> 'e event list \<Rightarrow> bool" where
  "retries_allowed b ctx [] = True"
| "retries_allowed b ctx (Send t n i bod result seen # tr) =
     ((attempt_numbers tr \<noteq> [] \<longrightarrow>
         \<not> seen \<and> ctx (Suc t) = None \<and> (case result of Lost _ \<Rightarrow> True | Got r \<Rightarrow> retry_status b r))
      \<and> retries_allowed b ctx tr)"
| "retries_allowed b ctx (ev # tr) = retries_allowed b ctx tr"

lemma retries_allowed_quiet:
  "retries_allowed b ctx (closes n r @ tr) = retries_allowed b ctx tr"
  "pauses b n ps \<Longrightarrow> retries_allowed b ctx (ps @ tr) = retries_allowed b ctx tr"
  "pauses b n ps \<Longrightarrow> retries_allowed b ctx ps"
  by (auto simp: closes_def pauses_def)

lemma spec_allowed:
  assumes "attempts_spec b ctx B n tr out" and "persistent ctx"
  shows "retries_allowed b ctx tr"
  using assms
proof (induction rule: attempts_spec.induct)
  case (retried bod n t t' ps tr out i err)
  then have "ctx (Suc t) = None" unfolding persistent_def by (metis Suc_leI)
  with retried show ?case by (simp add: retries_allowed_quiet)
next
  case (replaced bod n t t' r ps tr out i)
  then have "ctx (Suc t) = None" unfolding persistent_def by (metis Suc_leI)
  with replaced show ?case by (simp add: retries_allowed_quiet)
qed (auto simp: retries_allowed_quiet event_lists_pause)

lemma retries_allowed_split:
  "retries_allowed b ctx (xs @ Send t n i bod result seen # ys) \<Longrightarrow> attempt_numbers ys \<noteq> [] \<Longrightarrow>
     \<not> seen \<and> ctx (Suc t) = None \<and> (case result of Lost _ \<Rightarrow> True | Got r \<Rightarrow> retry_status b r)"
  by (induction xs rule: attempt_numbers.induct) auto

lemma attempt_events_simps [simp]:
  "attempt_events [] = []"
  "attempt_events (Send t n i bod r seen # tr) = Send t n i bod r seen # attempt_events tr"
  "attempt_events (CloseBody n # tr) = CloseBody n # attempt_events tr"
  "attempt_events (Pause n d # tr) = Pause n d # attempt_events tr"
  "attempt_events (CloseOriginal # tr) = attempt_events tr"
  "attempt_events (ReleaseBody # tr) = attempt_events tr"
  "attempt_events (xs @ ys) = attempt_events xs @ attempt_events ys"
  by (simp_all add: attempt_events_def)

lemma attempt_numbers_events [simp]: "attempt_numbers (attempt_events tr) = attempt_numbers tr"
  by (induction tr rule: attempt_numbers.induct) auto

lemma closed_attempts_events [simp]: "closed_attempts (attempt_events tr) = closed_attempts tr"
  by (induction tr rule: closed_attempts.induct) auto

lemma received_bodies_events [simp]: "received_bodies (attempt_events tr) = received_bodies tr"
  by (induction tr rule: received_bodies.induct) auto

lemma retries_allowed_events [simp]: "retries_allowed b ctx (attempt_events tr) = retries_allowed b ctx tr"
  by (induction b ctx tr rule: retries_allowed.induct) auto

text \<open>
  The bodies \<open>RoundTrip\<close> can send: with replay those of the buffered request, otherwise those of
  the request itself.
\<close>

definition sent_bodies :: "backend \<Rightarrow> 'e env \<Rightarrow> retry_request \<Rightarrow> 'e rt \<Rightarrow> body set" where
  "sent_bodies b env req s =
     (if retryStatuses b \<noteq> None \<and> retryBodyMax b > 0 \<and> has_body (Body req) then
        (case (prepareRetryBody (ctx_err env) (tick s) req (retryBodyMax b)
                 :: 'e rterror option \<times> retry_request) of
           (None, req1) \<Rightarrow> request_bodies env req1
         | _ \<Rightarrow> {})
      else if retryStatuses b = None then shared_bodies env req
      else request_bodies env req)"

lemma RoundTrip_spec:
  fixes env :: "'e env"
  assumes "random_ok env" and "delays_ok b" and "1 \<le> tries b" and "may_retry st" and "trace s = []"
    and "RoundTrip b env (Some st) req s = (out, s')"
    and "sent_bodies b env req s \<subseteq> B"
  shows "attempts_spec b (attempt_ctx b env) B 0 (attempt_events (trace s')) out"
proof (cases "retryStatuses b")
  case None
  then have Bs: "shared_bodies env req \<subseteq> B" using assms(7) by (auto simp: sent_bodies_def)
  then have B: "Body req \<in> B" by (simp add: shared_bodies_def)
  have ctx: "attempt_ctx b env = ctx_err env" using None by (simp add: attempt_ctx_def)
  obtain result seen s1 where a: "send_attempt b env (ctx_err env) 0 (start_target st) (URL req) (Body req) s = (result, seen, s1)"
    by (metis prod_cases3)
  note s1 = send_attempt_trace [OF a]
  have nil: "pauses b 0 ([] :: 'e event list)" by (simp add: pauses_def)
  have "\<exists>tr. trace s' = tr \<and> attempts_spec b (ctx_err env) B 0 tr out"
  proof (cases result)
    case (Got r)
    then show ?thesis using assms None a s1 by (auto simp: RoundTrip_def intro: returned [OF B])
  next
    case (Lost err)
    define s2 where "s2 = s1\<lparr>tick := tick s1 + 1\<rparr>"
    show ?thesis
    proof (cases "seen \<or> ctx_err env (tick s1) \<noteq> None")
      case True
      then have "out = Inl (Upstream err) \<and> trace s' = trace s1"
        using assms None a Lost by (auto simp: RoundTrip_def read_ctx_def Let_def split: if_splits)
      then show ?thesis using s1 Lost nil assms(5) by (auto intro: failed [OF B])
    next
      case False
      then have "error_retry_loop b env req (start_target st) (tries b - 1) 1 err s2 = (out, s')"
        using assms None a Lost by (simp add: RoundTrip_def read_ctx_def s2_def)
      moreover have "1 + (tries b - 1) = tries b" using assms(3) by simp
      ultimately obtain tr where tr: "trace s' = trace s2 @ tr" "attempts_spec b (ctx_err env) B (Suc 0) tr out"
        using error_retry_loop_spec [OF Bs, of 1 "tries b - 1" b "start_target st" err s2 out s'] by auto
      show ?thesis
      proof (cases "Suc 0 < tries b")
        case True
        have "tick s < tick s1" "ctx_err env (tick s1) = None" using s1 False by simp_all
        from retried [OF B True this nil tr(2)] tr(1) s1 Lost False assms(5) show ?thesis
          by (fastforce simp: s2_def)
      next
        case False
        then have "tries b - 1 = 0" by simp
        with \<open>error_retry_loop b env req (start_target st) (tries b - 1) 1 err s2 = (out, s')\<close>
        have "out = Inl (Upstream err)" "s' = s2" by simp_all
        then show ?thesis using s1 Lost nil assms(5) by (auto simp: s2_def intro: failed [OF B])
      qed
    qed
  qed
  then show ?thesis using attempt_events_id ctx by metis
next
  case (Some ss)
  show ?thesis
  proof (cases "retryBodyMax b > 0 \<and> has_body (Body req)")
    case False
    then have "status_retry b env req (start_target st) s = (out, s')"
      using assms(4,6) Some by (simp add: RoundTrip_def split: if_splits)
    moreover have "request_bodies env req \<subseteq> B" using False assms(7) Some by (simp add: sent_bodies_def split: if_splits)
    moreover have "retryStatuses b \<noteq> None" using Some by simp
    ultimately have "attempts_spec b (attempt_ctx b env) B 0 (trace s') out"
      using status_retry_spec [OF assms(1,2), of req B "start_target st" s out s'] assms(5) by simp
    then show ?thesis by (simp add: attempt_events_id)
  next
    case True
    obtain e :: "'e rterror option" and req1 where
      p: "prepareRetryBody (ctx_err env) (tick s) req (retryBodyMax b) = (e, req1)" by fastforce
    show ?thesis
    proof (cases e)
      case (Some err)
      then have "out = Inl err" "trace s' = [CloseOriginal]"
        using assms(4-6) True \<open>retryStatuses b = Some ss\<close> p by (auto simp: RoundTrip_def after_body_def)
      then show ?thesis by (auto simp: attempt_events_def intro: no_attempt)
    next
      case None
      obtain s1 where "status_retry b env req1 (start_target st) (after_body req s) = (out, s1)"
        "s' = emit ReleaseBody s1"
        using assms(4,6) True \<open>retryStatuses b = Some ss\<close> p None
        by (auto simp: RoundTrip_def split: prod.splits)
      moreover from this(1) obtain tr where "trace s1 = trace (after_body req s) @ tr"
        "attempts_spec b (attempt_ctx b env) B 0 tr out"
        using status_retry_spec [OF assms(1,2), of req1 B "start_target st" "after_body req s" out s1]
          \<open>retryStatuses b = Some ss\<close> True None p assms(7)
        by (auto simp: sent_bodies_def)
      ultimately have "attempts_spec b (attempt_ctx b env) B 0 tr out"
        "trace s' = CloseOriginal # tr @ [ReleaseBody]" using assms(5) by (simp_all add: after_body_def)
      then show ?thesis by (simp add: attempt_events_id)
    qed
  qed
qed

section \<open>Where the attempts go\<close>

text \<open>The URLs the requests of a trace are addressed to.\<close>

fun sent_urls :: "'e event list \<Rightarrow> url set" where
  "sent_urls [] = {}"
| "sent_urls (Send t n u bod r seen # tr) = insert u (sent_urls tr)"
| "sent_urls (ev # tr) = sent_urls tr"

lemma sent_urls_append [simp]: "sent_urls (xs @ ys) = sent_urls xs \<union> sent_urls ys"
  by (induction xs rule: sent_urls.induct) auto

lemma sent_urls_mem: "u \<in> sent_urls tr \<longleftrightarrow> (\<exists>t n bod r seen. Send t n u bod r seen \<in> set tr)"
  by (induction tr rule: sent_urls.induct) (simp_all, blast+)

lemma sent_urls_close [simp]: "sent_urls (trace (close_response n r s)) = sent_urls (trace s)"
  by (simp add: close_response_def)

text \<open>A retry is addressed as the request, with the scheme and host of a target.\<close>

definition retry_urls :: "backend \<Rightarrow> retry_request \<Rightarrow> url set" where
  "retry_urls b req =
     {u. \<exists>t \<in> set (targets b). u = (URL req)\<lparr>Scheme := Scheme t, UHost := UHost t\<rparr>}"

lemma retry_target_url:
  assumes "targets b \<noteq> []" and "retry_target b (URL req) start n s = (i, u, s')"
  shows "u \<in> retry_urls b req"
  using assms retryTargetIndex_less [of "length (targets b)" start n "pool s" i]
  by (force simp: retry_target_def retry_urls_def split: prod.splits)

lemma backoff_pause_urls:
  "backoff_pause b env ctx n s = (step, s') \<Longrightarrow> sent_urls (trace s') = sent_urls (trace s)"
  by (auto simp: backoff_pause_def waitRetryBackoff_def read_ctx_def Let_def split: option.splits if_splits)

lemma after_error_urls:
  assumes "after_error b env ctx n seen err s = (step, s')"
  shows "sent_urls (trace s') = sent_urls (trace s)"
proof (cases "seen \<or> ctx (tick s) \<noteq> None \<or> n + 1 = tries b")
  case True
  with assms show ?thesis
    by (auto simp: after_error_def read_ctx_def Let_def split: option.splits if_splits)
next
  case False
  obtain q s2 where q: "reserveRetry env ctx (s\<lparr>tick := tick s + 1\<rparr>) = (q, s2)" by fastforce
  have "(step, s') = (case q of Cancelled e \<Rightarrow> (Stop (Inl (Context e)), s2)
      | Exhausted \<Rightarrow> (Stop (Inl (Upstream err)), s2) | Reserved \<Rightarrow> backoff_pause b env ctx n s2)"
    using assms False q by (simp add: after_error_def read_ctx_def split: budget_result.splits)
  then have "sent_urls (trace s') = sent_urls (trace s2)"
    by (cases q) (auto dest: backoff_pause_urls [OF sym])
  then show ?thesis using reserveRetry_fields [OF q] by simp
qed

lemma after_response_urls:
  assumes "after_response b env ctx n seen r s = (step, s')"
  shows "sent_urls (trace s') = sent_urls (trace s)"
proof (cases "n + 1 = tries b \<or> seen \<or> \<not> retry_status b r \<or> ctx (tick s) \<noteq> None")
  case True
  with assms show ?thesis
    by (auto simp: after_response_def retry_status_def read_ctx_def split: option.splits if_splits)
next
  case False
  then obtain ss where ss: "retryStatuses b = Some ss" "StatusCode r \<in> set ss" by (auto simp: retry_status_def)
  obtain q s2 where q: "reserveRetry env ctx (s\<lparr>tick := tick s + 1\<rparr>) = (q, s2)" by fastforce
  define s3 where "s3 = (close_response n r s2)\<lparr>tick := tick (close_response n r s2) + 1\<rparr>"
  have s3: "sent_urls (trace s3) = sent_urls (trace s2)" using sent_urls_close [of n r s2] by (simp add: s3_def)
  have "(step, s') = (case q of Cancelled e \<Rightarrow> (Stop (Inl (Context e)), close_response n r s2)
      | Exhausted \<Rightarrow> (Stop (Inr (n, r)), s2)
      | Reserved \<Rightarrow> (case ctx (tick (close_response n r s2)) of Some e \<Rightarrow> (Stop (Inl (Context e)), s3)
          | None \<Rightarrow> backoff_pause b env ctx n s3))"
    using assms False q ss
    by (simp add: after_response_def read_ctx_def s3_def split: budget_result.splits option.splits)
  then have "sent_urls (trace s') = sent_urls (trace s2)"
    using s3 by (cases q) (auto dest: backoff_pause_urls [OF sym] split: option.splits)
  then show ?thesis using reserveRetry_fields [OF q] by simp
qed

lemma status_retry_loop_urls:
  assumes "targets b \<noteq> []" and "status_retry_loop b env ctx req start left n s = (out, s')"
  shows "sent_urls (trace s') \<subseteq> sent_urls (trace s) \<union> insert (URL req) (retry_urls b req)"
  using assms(2)
proof (induction left arbitrary: n s)
  case (Suc left)
  show ?case
  proof (cases "if n > 0 then cloned_body env (tick s) req else Inr (Body req)")
    case (Inl e)
    then show ?thesis using Suc.prems by auto
  next
    case (Inr bod)
    obtain i u s1 where i: "(if n > 0 then retry_target b (URL req) start n s else (start, URL req, s)) = (i, u, s1)"
      by (metis prod_cases3)
    then have u: "u \<in> insert (URL req) (retry_urls b req)" "trace s1 = trace s"
      using retry_target_url [OF assms(1), of req start n s i u s1]
        retry_target_fields [of b "URL req" start n s i u s1] by (auto split: if_splits)
    obtain result seen s2 where a: "send_attempt b env ctx n i u bod s1 = (result, seen, s2)"
      by (metis prod_cases3)
    obtain step s3 where st: "(case result of Lost err \<Rightarrow> after_error b env ctx n seen err s2
        | Got resp \<Rightarrow> after_response b env ctx n seen resp s2) = (step, s3)" by fastforce
    then have "sent_urls (trace s3) = sent_urls (trace s2)"
      by (cases result) (auto dest: after_error_urls after_response_urls)
    then have s3: "sent_urls (trace s3) = insert u (sent_urls (trace s))"
      using send_attempt_trace [OF a] u(2) by simp
    have run: "(case step of Stop outcome \<Rightarrow> (outcome, s3)
        | Again \<Rightarrow> status_retry_loop b env ctx req start left (n + 1) s3) = (out, s')"
      using Suc.prems Inr i a st by simp
    show ?thesis
    proof (cases step)
      case (Stop outcome)
      with run s3 u(1) show ?thesis by auto
    next
      case Again
      with run have "status_retry_loop b env ctx req start left (n + 1) s3 = (out, s')" by simp
      from Suc.IH [OF this] s3 u(1) show ?thesis by auto
    qed
  qed
qed auto

lemma error_retry_loop_urls:
  assumes "targets b \<noteq> []" and "error_retry_loop b env req start left n lastErr s = (out, s')"
  shows "sent_urls (trace s') \<subseteq> sent_urls (trace s) \<union> insert (URL req) (retry_urls b req)"
  using assms(2)
proof (induction left arbitrary: n lastErr s)
  case (Suc left)
  obtain i u s1 where i: "retry_target b (URL req) start n s = (i, u, s1)" by (metis prod_cases3)
  define bod where "bod = shared_body env (tick s) (Body req)"
  obtain result seen s2 where a: "send_attempt b env (ctx_err env) n i u bod s1 = (result, seen, s2)"
    by (metis prod_cases3)
  have s2: "sent_urls (trace s2) = insert u (sent_urls (trace s))" "u \<in> retry_urls b req"
    using send_attempt_trace [OF a] retry_target_fields [OF i] retry_target_url [OF assms(1) i] by simp_all
  show ?case
  proof (cases result)
    case (Got r)
    with Suc.prems i a have "s' = s2" by (simp add: bod_def)
    with s2 show ?thesis by auto
  next
    case (Lost err)
    define s3 where "s3 = (if seen then s2 else s2\<lparr>tick := tick s2 + 1\<rparr>)"
    have "s' = s3 \<or> error_retry_loop b env req start left (n + 1) err s3 = (out, s')"
      using Suc.prems i a Lost by (auto simp: bod_def read_ctx_def s3_def Let_def split: if_splits)
    moreover have "trace s3 = trace s2" by (simp add: s3_def)
    ultimately show ?thesis using Suc.IH [of "n + 1" err s3] s2 by auto
  qed
qed auto

lemma status_retry_urls:
  assumes "targets b \<noteq> []" and "status_retry b env req start s = (out, s')"
  shows "sent_urls (trace s') \<subseteq> sent_urls (trace s) \<union> insert (URL req) (retry_urls b req)"
  using assms(2)
  by (auto simp: status_retry_def with_deadline_def roundTripWithStatusRetry_def read_ctx_def
      dest!: status_retry_loop_urls [OF assms(1)] split: if_splits prod.splits sum.splits)

lemma prepareRetryBody_URL: "prepareRetryBody ctx t req limit = (e, req1) \<Longrightarrow> URL req1 = URL req"
  by (auto simp: prepareRetryBody_def fail_body_def split: option.splits if_splits sum.splits)

text \<open>Whatever happens, and whether or not the request may be retried, every request that
  \<open>RoundTrip\<close> hands to the transport is addressed as the request it was given, or to a target of the
  backend with the same path and query.\<close>

lemma RoundTrip_urls:
  assumes "targets b \<noteq> []" and "RoundTrip b env state req s = (out, s')"
  shows "sent_urls (trace s') \<subseteq> sent_urls (trace s) \<union> insert (URL req) (retry_urls b req)"
proof (cases state)
  case None
  then show ?thesis using assms(2) by (auto simp: RoundTrip_def split: prod.splits)
next
  case (Some st)
  obtain result seen s1 where a:
    "send_attempt b env (ctx_err env) 0 (start_target st) (URL req) (Body req) s = (result, seen, s1)"
    by (metis prod_cases3)
  then have s1: "sent_urls (trace s1) = insert (URL req) (sent_urls (trace s))"
    using send_attempt_trace [OF a] by simp
  define s2 where "s2 = (if seen then s1 else s1\<lparr>tick := tick s1 + 1\<rparr>)"
  consider (once) "\<not> may_retry st" | (errors) "may_retry st" "retryStatuses b = None"
    | (replay) "may_retry st" "retryStatuses b \<noteq> None" "retryBodyMax b > 0 \<and> has_body (Body req)"
    | (plain) "may_retry st" "retryStatuses b \<noteq> None" "\<not> (retryBodyMax b > 0 \<and> has_body (Body req))" by blast
  then show ?thesis
  proof cases
    case once
    then have "s' = s1" using assms(2) Some a by (auto simp: RoundTrip_def)
    with s1 show ?thesis by auto
  next
    case errors
    have "s' = s1 \<or> s' = s2 \<or>
        (\<exists>err. error_retry_loop b env req (start_target st) (tries b - 1) 1 err s2 = (out, s'))"
      using assms(2) Some a errors
      by (auto simp: RoundTrip_def read_ctx_def s2_def Let_def split: sent.splits if_splits)
    moreover have "trace s2 = trace s1" by (simp add: s2_def)
    ultimately show ?thesis using s1 error_retry_loop_urls [OF assms(1)] by fastforce
  next
    case replay
    obtain e :: "'a rterror option" and req1 where
      p: "prepareRetryBody (ctx_err env) (tick s) req (retryBodyMax b) = (e, req1)" by fastforce
    note same = prepareRetryBody_URL [OF p]
    show ?thesis
    proof (cases e)
      case None
      obtain s3 where r: "status_retry b env req1 (start_target st) (after_body req s) = (out, s3)"
          "s' = emit ReleaseBody s3"
        using assms(2) Some replay p None by (auto simp: RoundTrip_def split: prod.splits)
      have "retry_urls b req1 = retry_urls b req" by (simp add: retry_urls_def same)
      then show ?thesis using status_retry_urls [OF assms(1) r(1)] r(2) same by (auto simp: after_body_def)
    next
      case (Some err)
      then have "s' = after_body req s" using assms(2) \<open>state = Some st\<close> replay p by (auto simp: RoundTrip_def)
      then show ?thesis by (auto simp: after_body_def)
    qed
  next
    case plain
    then have "status_retry b env req (start_target st) s = (out, s')"
      using assms(2) Some by (auto simp: RoundTrip_def)
    from status_retry_urls [OF assms(1) this] show ?thesis .
  qed
qed

section \<open>Body replay and back-off\<close>

text \<open>The bytes a reader delivers up to its end, and the error it ends with.\<close>

fun reader_data :: "read_result list \<Rightarrow> string" where
  "reader_data [] = []"
| "reader_data (ReadSome d # rs) = d @ reader_data rs"
| "reader_data (ReadEOF d # rs) = d"
| "reader_data (ReadErr d e # rs) = d"

fun reader_error :: "read_result list \<Rightarrow> string option" where
  "reader_error [] = None"
| "reader_error (ReadSome d # rs) = reader_error rs"
| "reader_error (ReadEOF d # rs) = None"
| "reader_error (ReadErr d e # rs) = Some e"

lemma read_chunk_data:
  assumes "read_chunk sz rs = (d, err, rs')"
  shows "case err of
      None \<Rightarrow> reader_data rs = d @ reader_data rs' \<and> reader_error rs = reader_error rs'
    | Some e \<Rightarrow> reader_data rs = d \<and> reader_error rs = e"
  using assms by (cases "(sz, rs)" rule: read_chunk.cases) (auto split: if_splits)

lemma read_chunk_progress:
  assumes "read_chunk sz rs = (d, None, rs')" and "0 < sz" and "ReadSome [] \<notin> set rs"
  shows "d \<noteq> [] \<and> ReadSome [] \<notin> set rs'"
  using assms by (cases "(sz, rs)" rule: read_chunk.cases) (auto split: if_splits)

lemma read_body_loop_sound:
  assumes "(read_body_loop ctx t limit payload k rs :: 'e rterror + string) = Inr p"
    and "length payload \<le> limit"
  shows "p = payload @ reader_data rs \<and> reader_error rs = None \<and> length p \<le> limit"
  using assms
proof (induction ctx t limit payload k rs rule: read_body_loop.induct)
  case (1 ctx t limit payload k rs)
  obtain d err rs' where c: "read_chunk (read_size limit payload) rs = (d, err, rs')" by (metis prod_cases3)
  note data = read_chunk_data [OF c]
  have run: "ctx t = None" "ctx (t + 1) = None" "length d \<le> limit - length payload"
    "(case err of Some None \<Rightarrow> Inr (payload @ d) | Some (Some e) \<Rightarrow> Inl (BodyRead e)
      | None \<Rightarrow> if d = [] \<and> k + 1 = 100 then Inl NoProgress
          else read_body_loop ctx (t + 2) limit (payload @ d) (if d = [] then k + 1 else 0) rs') = (Inr p :: 'e rterror + string)"
    using "1.prems"(1) c
    by (simp_all add: read_body_loop.simps [of ctx t] split: option.splits if_splits)
  show ?case
  proof (cases err)
    case None
    with run have go: "\<not> (d = [] \<and> k + 1 = 100)"
      "read_body_loop ctx (t + 2) limit (payload @ d) (if d = [] then k + 1 else 0) rs' = (Inr p :: 'e rterror + string)"
      by (auto split: if_splits)
    have "length (payload @ d) \<le> limit" using run(3) "1.prems"(2) by simp
    from "1.IH" [OF run(1) c [symmetric] refl run(2) _ None go(1,2) this] run(3) data None
    show ?thesis by auto
  next
    case (Some e)
    with run data "1.prems"(2) show ?thesis by (auto split: option.splits)
  qed
qed

text \<open>With a context that lives and a reader that makes progress the loop decides by size first, then
  by the error the body ends with.\<close>

lemma read_body_loop_complete:
  assumes "\<forall>t. ctx t = None" and "ReadSome [] \<notin> set rs" and "length payload \<le> limit"
  shows "read_body_loop ctx t limit payload k rs =
    (if length payload + length (reader_data rs) \<le> limit
     then (case reader_error rs of None \<Rightarrow> Inr (payload @ reader_data rs) | Some e \<Rightarrow> Inl (BodyRead e))
     else Inl RetryBodyTooLarge)"
  using assms
proof (induction ctx t limit payload k rs rule: read_body_loop.induct)
  case (1 ctx t limit payload k rs)
  obtain d err rs' where c: "read_chunk (read_size limit payload) rs = (d, err, rs')" by (metis prod_cases3)
  note data = read_chunk_data [OF c]
  have ctx: "ctx t = None" "ctx (t + 1) = None" using "1.prems"(1) by blast+
  show ?case
  proof (cases "length d \<le> limit - length payload")
    case False
    moreover have "length d \<le> length (reader_data rs)" using data by (auto split: option.splits)
    ultimately have "\<not> length payload + length (reader_data rs) \<le> limit" by linarith
    with False ctx c show ?thesis by (simp add: read_body_loop.simps [of ctx t])
  next
    case True
    show ?thesis
    proof (cases err)
      case None
      note p = read_chunk_progress [OF c [unfolded None] read_size_pos "1.prems"(2)]
      have "length (payload @ d) \<le> limit" using True "1.prems"(3) by simp
      from "1.IH" [OF ctx(1) c [symmetric] refl ctx(2) _ None _ "1.prems"(1) _ this] p data None True
        ctx c
      show ?thesis by (simp add: read_body_loop.simps [of ctx t] add.assoc split: option.splits)
    next
      case (Some e)
      with data "1.prems"(3) ctx c True show ?thesis
        by (auto simp: read_body_loop.simps [of ctx t] split: option.splits)
    qed
  qed
qed

text \<open>Whatever the context and the reader do, a body is called too large only if it is.\<close>

lemma read_body_loop_too_large:
  assumes "(read_body_loop ctx t limit payload k rs :: 'e rterror + string) = Inl RetryBodyTooLarge"
    and "length payload \<le> limit"
  shows "length payload + length (reader_data rs) > limit"
  using assms
proof (induction ctx t limit payload k rs rule: read_body_loop.induct)
  case (1 ctx t limit payload k rs)
  obtain d err rs' where c: "read_chunk (read_size limit payload) rs = (d, err, rs')" by (metis prod_cases3)
  note data = read_chunk_data [OF c]
  have run: "ctx t = None" "ctx (t + 1) = None"
    using "1.prems"(1) by (auto simp: read_body_loop.simps [of ctx t] split: option.splits prod.splits)
  show ?case
  proof (cases "length d > limit - length payload")
    case True
    moreover have "length d \<le> length (reader_data rs)" using data by (auto split: option.splits)
    ultimately show ?thesis by simp
  next
    case False
    then have go: "err = None" "\<not> (d = [] \<and> k + 1 = 100)"
      "read_body_loop ctx (t + 2) limit (payload @ d) (if d = [] then k + 1 else 0) rs'
         = (Inl RetryBodyTooLarge :: 'e rterror + string)"
      using "1.prems"(1) run c by (auto simp: read_body_loop.simps [of ctx t] split: option.splits if_splits)
    have "length (payload @ d) \<le> limit" using False "1.prems"(2) by simp
    from "1.IH" [OF run(1) c [symmetric] refl run(2) False go(1,2,3) this] data go(1) show ?thesis by simp
  qed
qed

lemma prepared_request:
  assumes "prepareRetryBody ctx t req limit = (None :: 'e rterror option, req1)" and "0 \<le> limit"
  shows "\<exists>p. p = reader_data (reader_of (Body req)) \<and> reader_error (reader_of (Body req)) = None \<and>
    int (length p) \<le> limit \<and> ContentLength req \<le> limit \<and> Body req1 = Reader [ReadEOF p] \<and>
    GetBody req1 = Some (Inr (Reader [ReadEOF p])) \<and> ContentLength req1 = int (length p)"
proof -
  obtain p where
    "read_body_loop ctx (t + 1) (nat limit) [] 0 (reader_of (Body req)) = (Inr p :: 'e rterror + string)"
    "ContentLength req \<le> limit" "Body req1 = Reader [ReadEOF p]"
    "GetBody req1 = Some (Inr (Reader [ReadEOF p]))" "ContentLength req1 = int (length p)"
    using assms(1) by (auto simp: prepareRetryBody_def split: option.splits if_splits sum.splits)
  then show ?thesis using read_body_loop_sound assms(2) by fastforce
qed

lemma backoff_from_nth:
  assumes "0 < delay" and "delay \<le> cap" and "cap \<le> maxInt64" and "i < n"
  shows "length (backoff_from cap delay n) = n \<and> backoff_from cap delay n ! i = min cap (delay * 2 ^ i)"
  using assms
proof (induction n arbitrary: delay i)
  case 0
  then show ?case by simp
next
  case (Suc n)
  have le: "cap \<le> delay * 2 ^ Suc j" if "cap \<le> delay * 2" for j
  proof -
    have "delay * 2 * 1 \<le> delay * 2 * 2 ^ j" using Suc.prems(1) by (intro mult_left_mono) auto
    with that show ?thesis by simp
  qed
  define nxt where "nxt = (if delay \<ge> cap then delay else if delay > cap div 2 then cap else i64 (delay * 2))"
  have twice: "delay \<le> cap div 2 \<Longrightarrow> i64 (delay * 2) = delay * 2"
    using Suc.prems(1,3) by (intro i64_id) (auto simp: in_i64_def maxInt64_def)
  have nxt: "0 < nxt" "nxt \<le> cap" "nxt = min cap (delay * 2)"
    using Suc.prems(1,2) twice by (auto simp: nxt_def)
  have len: "length (backoff_from cap nxt n) = n" for nxt by (induction n arbitrary: nxt) auto
  show ?case
  proof (cases i)
    case 0
    then show ?thesis using Suc.prems(2) len by simp
  next
    case (Suc j)
    then have "backoff_from cap nxt n ! j = min cap (nxt * 2 ^ j)"
      using Suc.IH [OF nxt(1,2) Suc.prems(3)] Suc.prems(4) by simp
    also have "\<dots> = min cap (delay * 2 ^ i)"
    proof (cases "cap \<le> delay * 2")
      case True
      have "cap * 1 \<le> cap * 2 ^ j" using nxt by (intro mult_left_mono) auto
      with True le [OF True, of j] nxt(3) Suc show ?thesis by simp
    next
      case False
      then show ?thesis using nxt(3) Suc by simp
    qed
    finally show ?thesis using Suc len by (simp add: nxt_def)
  qed
qed

section \<open>Properties\<close>

text \<open>C5. \<open>RoundTrip\<close> implements the attempt specification: whatever the transport, the contexts, the
  clock and the random source do, the requests it sends, the bodies it closes and the pauses it makes
  are a sequence the specification allows for its outcome.\<close>

theorem RoundTrip_refines_attempts_spec:
  assumes "random_ok env" and "delays_ok b" and "1 \<le> tries b" and "may_retry st" and "trace s = []"
    and "RoundTrip b env (Some st) req s = (out, s')"
  shows "attempts_spec b (attempt_ctx b env) (sent_bodies b env req s) 0 (attempt_events (trace s')) out"
  by (rule RoundTrip_spec [OF assms order_refl])

text \<open>A request is attempted at most \<open>tries\<close> times, and the attempts are numbered in order.\<close>

theorem RoundTrip_bounds_attempts:
  assumes "random_ok env" and "delays_ok b" and "1 \<le> tries b" and "may_retry st" and "trace s = []"
    and "RoundTrip b env (Some st) req s = (out, s')"
  shows "\<exists>k \<le> tries b. attempt_numbers (trace s') = [0..<k]"
  using spec_numbers [OF RoundTrip_spec [OF assms order_refl]] assms(3) by auto

text \<open>C12. No response body leaks and none is closed under the caller: every response that was
  received with a body is closed exactly once, except the one returned, which is not closed.\<close>

theorem RoundTrip_closes_discarded_bodies:
  assumes "random_ok env" and "delays_ok b" and "1 \<le> tries b" and "may_retry st" and "trace s = []"
    and "RoundTrip b env (Some st) req s = (out, s')"
  shows "distinct (closed_attempts (trace s')) \<and>
    set (closed_attempts (trace s')) = set (received_bodies (trace s')) - returned_attempt out"
  using spec_bodies [OF RoundTrip_spec [OF assms order_refl]] by simp

text \<open>C13. A further attempt is made only when it may be: the one before sent no informational response,
  its context was still alive when it returned, and it failed or got a response with a status
  configured for retry. A cancelled or timed-out request is never retried.\<close>

theorem RoundTrip_retries_only_when_allowed:
  assumes "random_ok env" and "delays_ok b" and "1 \<le> tries b" and "may_retry st" and "trace s = []"
    and "persistent (attempt_ctx b env)"
    and "RoundTrip b env (Some st) req s = (out, s')"
    and "trace s' = xs @ Send t n i bod result seen # ys" and "attempt_numbers ys \<noteq> []"
  shows "\<not> seen \<and> attempt_ctx b env (Suc t) = None \<and>
    (case result of Lost _ \<Rightarrow> True | Got r \<Rightarrow> retry_status b r)"
proof -
  have "retries_allowed b (attempt_ctx b env) (trace s')"
    using spec_allowed [OF RoundTrip_spec [OF assms(1-5,7) order_refl] assms(6)] by simp
  then show ?thesis
    unfolding assms(8) by (rule retries_allowed_split [OF _ assms(9)])
qed

text \<open>\<open>proxyErrorHandler\<close>: the status written for an error. \<open>timed_out\<close> tells the transport errors that
  are a \<open>net.Error\<close> with \<open>Timeout()\<close>; \<open>context.DeadlineExceeded\<close> is one too.\<close>

definition proxyErrorHandler :: "('e \<Rightarrow> bool) \<Rightarrow> 'e rterror \<Rightarrow> int" where
  "proxyErrorHandler timed_out err =
     (let status = (if err = RetryBodyTooLarge then 413 else 502)
      in if (case err of Upstream e \<Rightarrow> timed_out e | _ \<Rightarrow> False) \<or> err = Context DeadlineExceeded
         then 504 else status)"

text \<open>C29. With \<open>retry.deadline\<close> configured the error of the last attempt never reaches the caller: the
  derived context is cancelled before its error is read, so an upstream time-out becomes
  \<open>context.Canceled\<close> and the client gets 502 instead of 504.\<close>

theorem deadline_masks_upstream_errors:
  assumes "may_retry st" and "retryStatuses b \<noteq> None" and "retryDeadline b > 0"
    and "\<not> (retryBodyMax b > 0 \<and> has_body (Body req))"
    and "\<forall>t. timed_err env t = None"
    and "RoundTrip b env (Some st) req s = (Inl err, s')"
  shows "err = Context Canceled \<and> proxyErrorHandler timed_out err = 502"
proof -
  have "with_deadline b env req (start_target st) s = (Inl err, s')"
    using assms(1-4,6) by (auto simp: RoundTrip_def status_retry_def split: if_splits)
  then have "err = Context Canceled"
    using assms(5) by (auto simp: with_deadline_def read_ctx_def ctx_after_cancel_def split: sum.splits prod.splits)
  then show ?thesis by (simp add: proxyErrorHandler_def)
qed

lemma spec_sent_bodies:
  assumes "attempts_spec b ctx B n tr out" and "Send t m i bod r seen \<in> set tr"
  shows "bod \<in> B"
  using assms
  by (induction rule: attempts_spec.induct) (auto simp: pauses_def closes_def split: if_splits)

lemma attempt_events_mem: "Send t m i bod r seen \<in> set (attempt_events tr) \<longleftrightarrow> Send t m i bod r seen \<in> set tr"
  by (auto simp: attempt_events_def)

text \<open>C27. A buffered body is replayed exactly: every attempt sends the bytes the client sent, all of
  them, and no more than \<open>retry.body.max\<close>.\<close>

theorem RoundTrip_replays_body_exactly:
  fixes env :: "'e env"
  assumes "random_ok env" and "delays_ok b" and "1 \<le> tries b" and "may_retry st" and "trace s = []"
    and "RoundTrip b env (Some st) req s = (out, s')"
    and "retryStatuses b \<noteq> None" and "retryBodyMax b > 0" and "has_body (Body req)"
    and "Send t n i bod result seen \<in> set (trace s')"
  shows "bod = Reader [ReadEOF (reader_data (reader_of (Body req)))] \<and>
    int (length (reader_data (reader_of (Body req)))) \<le> retryBodyMax b \<and>
    reader_error (reader_of (Body req)) = None"
proof -
  obtain e :: "'e rterror option" and req1 where
    p: "prepareRetryBody (ctx_err env) (tick s) req (retryBodyMax b) = (e, req1)" by fastforce
  have "bod \<in> sent_bodies b env req s"
    using spec_sent_bodies [OF RoundTrip_spec [OF assms(1-6) order_refl]] assms(10)
    by (simp add: attempt_events_mem)
  then have "e = None \<and> bod \<in> request_bodies env req1"
    using assms(7-9) p by (auto simp: sent_bodies_def split: option.splits)
  then show ?thesis
    using prepared_request [of "ctx_err env" "tick s" req "retryBodyMax b" req1] p assms(8)
    by (auto simp: request_bodies_def clone_bodies_def cloned_body_def)
qed

text \<open>C28. What buffering answers. Whatever the context and the reader do, an accepted body has neither
  a declared nor a real length above the maximum and ended without an error, and only a body that is
  too long, as declared or in fact, is refused as too large. As long as the context lives and the
  reader makes progress the answer is determined: too large if it is too long, otherwise the
  reader's own error, otherwise accepted. Of all errors of \<open>RoundTrip\<close> exactly this one is answered
  413.\<close>

theorem prepareRetryBody_decides_by_size:
  fixes e :: "'e rterror option"
  assumes "prepareRetryBody ctx t req limit = (e, req1)" and "0 \<le> limit"
  defines "rs \<equiv> reader_of (Body req)"
  defines "too_long \<equiv> ContentLength req > limit \<or> int (length (reader_data rs)) > limit"
  shows "(e = None \<longrightarrow> \<not> too_long \<and> reader_error rs = None) \<and>
    (e = Some RetryBodyTooLarge \<longrightarrow> too_long) \<and>
    ((\<forall>t. ctx t = None) \<and> ReadSome [] \<notin> set rs \<longrightarrow>
       e = (if too_long then Some RetryBodyTooLarge else map_option BodyRead (reader_error rs))) \<and>
    (\<forall>timed_out err. proxyErrorHandler timed_out err = 413 \<longleftrightarrow> err = (RetryBodyTooLarge :: 'e rterror))"
proof (intro conjI impI allI)
  have le: "int n \<le> limit \<longleftrightarrow> n \<le> nat limit" for n using assms(2) by linarith
  show "\<not> too_long" "reader_error rs = None" if "e = None"
    using prepared_request [of ctx t req limit req1] assms(1,2) that by (auto simp: rs_def too_long_def)
  show "too_long" if "e = Some RetryBodyTooLarge"
  proof (rule ccontr)
    assume fits: "\<not> too_long"
    then have "read_body_loop ctx (t + 1) (nat limit) [] 0 rs = (Inl RetryBodyTooLarge :: 'e rterror + string)"
      using assms(1) that
      by (auto simp: prepareRetryBody_def too_long_def rs_def split: option.splits if_splits sum.splits)
    from read_body_loop_too_large [OF this] have "length (reader_data rs) > nat limit" by simp
    with fits assms(2) show False unfolding too_long_def by linarith
  qed
  show "e = (if too_long then Some RetryBodyTooLarge else map_option BodyRead (reader_error rs))"
    if "(\<forall>t. ctx t = None) \<and> ReadSome [] \<notin> set rs"
    using read_body_loop_complete [of ctx rs "[]" "nat limit" "t + 1" 0, where 'a = 'e] assms(1,2) that
    by (auto simp: prepareRetryBody_def too_long_def rs_def le not_less [symmetric]
        split: option.splits if_splits sum.splits)
  show "proxyErrorHandler timed_out err = 413 \<longleftrightarrow> err = (RetryBodyTooLarge :: 'e rterror)" for timed_out err
    by (auto simp: proxyErrorHandler_def Let_def split: rterror.splits)
qed

text \<open>The back-off is the documented one, without overflow: the pause before the n-th further
  attempt is \<open>min(cap, base * 2^(n-1))\<close>.\<close>

theorem buildBackoffDelays_exact:
  assumes "validateBackoff (Some b) = Inr ()" and "Cap b \<le> maxInt64" and "n < m - 1"
  shows "length (buildBackoffDelays b m) = m - 1 \<and>
    buildBackoffDelays b m ! n = min (Cap b) (Base b * 2 ^ n)"
  using backoff_from_nth [of "Base b" "Cap b" n "m - 1"] assms
  by (auto simp: buildBackoffDelays_def validateBackoff_def split: if_splits)

text \<open>Which requests are retried at all: the fast path for bodyless requests and the general path
  together allow exactly the requests of an allowed method, without upgrade and trailers, whose body
  is absent or may be buffered. \<open>CONNECT\<close> is never retried.\<close>

theorem retryableBackendRequest_iff:
  assumes "0 \<le> bodyMax"
  shows "retryableBackendRequest req methods bodyMax \<longleftrightarrow>
    Method req \<noteq> ''CONNECT'' \<and>
    (case methods of None \<Rightarrow> idempotent_method (Method req) | Some ms \<Rightarrow> Method req \<in> set ms) \<and>
    \<not> upgradeRequest req \<and> Trailer req = [] \<and>
    (if has_body (Body req) then 0 < bodyMax else ContentLength req = 0 \<and> TransferEncoding req = [])"
  using assms
  by (auto simp: retryableBackendRequest_def retryableBodylessRequest_def idempotent_method_def
      split: option.splits)

section \<open>Witnesses\<close>

text \<open>Two targets: the first answers 503, the second 200; the request has a body of two bytes.\<close>

definition demo_url :: "string \<Rightarrow> url" where
  "demo_url h = \<lparr>Scheme = ''http'', UHost = h, Path = [], RawPath = [], RawQuery = [], ForceQuery = False\<rparr>"

definition demo_backend :: backend where
  "demo_backend = \<lparr>targets = [demo_url ''a'', demo_url ''b''], schedule = [], tries = 2,
     retryStatuses = Some [503], retryMethods = Some [''POST''], retryBodyMax = 4,
     backoffDelays = Some [7], backoffJitter = False, retryDeadline = 0, health = None\<rparr>"

definition demo_env :: "unit env" where
  "demo_env = \<lparr>send = (\<lambda>t u bod. (Got \<lparr>StatusCode = (if UHost u = ''a'' then 503 else 200), resp_body = True\<rparr>, False)),
     left_over = (\<lambda>t bod. Reader []),
     ctx_err = (\<lambda>t. None), timed_err = (\<lambda>t. None), clock_at = int, random = (\<lambda>t d. 0)\<rparr>"

definition demo_post :: retry_request where
  "demo_post = \<lparr>Method = ''POST'', URL = demo_url ''a'', Host = ''x'', Header = [], RemoteAddr = [],
     RequestURI = ''/'', is_tls = False, ContentLength = 2, TransferEncoding = [], Trailer = [],
     Body = Reader [ReadSome ''o'', ReadEOF ''k''], request_id = None, GetBody = None\<rparr>"

definition demo_state :: "unit rt" where
  "demo_state = \<lparr>tick = 0, pool = None, rbudget = None, trace = []\<rparr>"

definition demo_retry :: backendRetryState where
  "demo_retry = \<lparr>start_target = 0, may_retry = True\<rparr>"

definition demo_run :: "(unit rterror + nat \<times> response) \<times> unit rt" where
  "demo_run = RoundTrip demo_backend demo_env (Some demo_retry) demo_post demo_state"

definition demo_bytes :: body where
  "demo_bytes = Reader [ReadEOF ''ok'']"

lemma demo_prepared:
  "prepareRetryBody (\<lambda>t. None) 0 demo_post 4 =
     (None :: unit rterror option, demo_post\<lparr>Body := demo_bytes, GetBody := Some (Inr demo_bytes)\<rparr>)"
  by (simp add: prepareRetryBody_def demo_post_def demo_bytes_def reader_of_def read_body_loop.simps
      read_size_def proxyBufferSize_def)

lemmas demo_eval = demo_backend_def demo_env_def demo_state_def demo_retry_def demo_bytes_def
  RoundTrip_def after_body_def status_retry_def roundTripWithStatusRetry_def send_attempt_def
  observeAttempt_def emit_def after_response_def read_ctx_def reserveRetry_def close_response_def
  backoff_pause_def waitRetryBackoff_def retry_target_def retryTargetIndex_def cloned_body_def demo_url_def
  has_body_def reader_of_def

lemma demo_trace:
  "fst demo_run = Inr (1, \<lparr>StatusCode = 200, resp_body = True\<rparr>)"
  "trace (snd demo_run) =
     [CloseOriginal, Send 12 0 (demo_url ''a'') demo_bytes (Got \<lparr>StatusCode = 503, resp_body = True\<rparr>) False, CloseBody 0,
      Pause 1 7, Send 17 1 (demo_url ''b'') demo_bytes (Got \<lparr>StatusCode = 200, resp_body = True\<rparr>) False, ReleaseBody]"
  using demo_prepared
  by (simp_all add: demo_run_def demo_eval demo_post_def numeral_2_eq_2)

lemma demo_laws:
  "random_ok demo_env" "delays_ok demo_backend" "1 \<le> tries demo_backend" "may_retry demo_retry"
  "trace demo_state = []" "persistent (attempt_ctx demo_backend demo_env)"
  "RoundTrip demo_backend demo_env (Some demo_retry) demo_post demo_state = (fst demo_run, snd demo_run)"
  "retryStatuses demo_backend \<noteq> None" "retryBodyMax demo_backend > 0" "has_body (Body demo_post)"
  by (auto simp: random_ok_def delays_ok_def demo_eval persistent_def attempt_ctx_def demo_run_def
      demo_post_def)

theorem RoundTrip_refines_attempts_spec_witness:
  "attempts_spec demo_backend (attempt_ctx demo_backend demo_env)
     (sent_bodies demo_backend demo_env demo_post demo_state) 0
     [Send 12 0 (demo_url ''a'') demo_bytes (Got \<lparr>StatusCode = 503, resp_body = True\<rparr>) False, CloseBody 0, Pause 1 7,
      Send 17 1 (demo_url ''b'') demo_bytes (Got \<lparr>StatusCode = 200, resp_body = True\<rparr>) False]
     (Inr (1, \<lparr>StatusCode = 200, resp_body = True\<rparr>) :: unit rterror + nat \<times> response)"
  using RoundTrip_refines_attempts_spec [OF demo_laws(1-5,7)] unfolding demo_trace by simp

theorem RoundTrip_bounds_attempts_witness:
  "\<exists>k \<le> tries demo_backend. attempt_numbers (trace (snd demo_run)) = [0..<k]"
  by (rule RoundTrip_bounds_attempts [OF demo_laws(1-5,7)])

theorem RoundTrip_closes_discarded_bodies_witness:
  "distinct (closed_attempts (trace (snd demo_run))) \<and>
   set (closed_attempts (trace (snd demo_run))) = {0}"
proof -
  have "set (received_bodies (trace (snd demo_run))) - returned_attempt (fst demo_run) = {0}"
    unfolding demo_trace by (auto simp: returned_attempt_def)
  with RoundTrip_closes_discarded_bodies [OF demo_laws(1-5,7)] show ?thesis by simp
qed

theorem RoundTrip_retries_only_when_allowed_witness:
  "retry_status demo_backend \<lparr>StatusCode = 503, resp_body = True\<rparr>"
proof -
  have "trace (snd demo_run) = [CloseOriginal] @
      Send 12 0 (demo_url ''a'') demo_bytes (Got \<lparr>StatusCode = 503, resp_body = True\<rparr>) False #
      [CloseBody 0, Pause 1 7, Send 17 1 (demo_url ''b'') demo_bytes (Got \<lparr>StatusCode = 200, resp_body = True\<rparr>) False,
       ReleaseBody]"
    unfolding demo_trace by simp
  from RoundTrip_retries_only_when_allowed [OF demo_laws(1-7) this] show ?thesis by simp
qed

theorem RoundTrip_replays_body_exactly_witness:
  "demo_bytes = Reader [ReadEOF (reader_data (reader_of (Body demo_post)))]"
proof -
  have "Send 17 1 (demo_url ''b'') demo_bytes (Got \<lparr>StatusCode = 200, resp_body = True\<rparr>) False
      \<in> set (trace (snd demo_run))"
    unfolding demo_trace by simp
  from RoundTrip_replays_body_exactly [OF demo_laws(1-5,7-10) this] show ?thesis by blast
qed

theorem prepareRetryBody_decides_by_size_witness:
  "fst (prepareRetryBody (\<lambda>t. None) 0 demo_post 1) = Some (RetryBodyTooLarge :: unit rterror) \<and>
   fst (prepareRetryBody (\<lambda>t. None) 0 demo_post 2) = (None :: unit rterror option)"
proof -
  have post: "ContentLength demo_post = 2" "reader_of (Body demo_post) = [ReadSome ''o'', ReadEOF ''k'']"
    by (simp_all add: demo_post_def reader_of_def)
  have "fst (prepareRetryBody (\<lambda>t. None) 0 demo_post 1) = Some (RetryBodyTooLarge :: unit rterror)"
    using prepareRetryBody_decides_by_size [where 'e = unit, of "\<lambda>t. None" 0 demo_post 1, OF prod.collapse [symmetric]]
    by (simp add: post)
  moreover have "fst (prepareRetryBody (\<lambda>t. None) 0 demo_post 2) = (None :: unit rterror option)"
    using prepareRetryBody_decides_by_size [where 'e = unit, of "\<lambda>t. None" 0 demo_post 2, OF prod.collapse [symmetric]]
    by (simp add: post)
  ultimately show ?thesis ..
qed

theorem buildBackoffDelays_exact_witness:
  "buildBackoffDelays \<lparr>Base = 100, Cap = 250, Jitter = False\<rparr> 4 ! 2 = 250"
  using buildBackoffDelays_exact [of "\<lparr>Base = 100, Cap = 250, Jitter = False\<rparr>" 2 4]
  by (simp add: validateBackoff_def maxInt64_def)

theorem retryableBackendRequest_iff_witness:
  "retryableBackendRequest (request.truncate demo_post) (Some [''POST'']) 4"
  unfolding retryableBackendRequest_iff [OF zero_le_numeral]
  by (simp add: demo_post_def request.truncate_def has_body_def upgradeRequest_def header_values_def)

text \<open>Every attempt ends in a transport time-out.\<close>

definition demo_timeout_env :: "bool env" where
  "demo_timeout_env = \<lparr>send = (\<lambda>t u bod. (Lost True, False)), left_over = (\<lambda>t bod. bod), ctx_err = (\<lambda>t. None),
     timed_err = (\<lambda>t. None), clock_at = int, random = (\<lambda>t d. 0)\<rparr>"

definition demo_timeout_run :: "nat \<Rightarrow> (bool rterror + nat \<times> response) \<times> bool rt" where
  "demo_timeout_run deadline = RoundTrip (demo_backend\<lparr>retryDeadline := int deadline\<rparr>) demo_timeout_env
     (Some demo_retry) (demo_post\<lparr>Body := NoBody\<rparr>)
     \<lparr>tick = 0, pool = None, rbudget = None, trace = []\<rparr>"

theorem deadline_masks_upstream_errors_witness:
  "(\<exists>err. fst (demo_timeout_run 9) = Inl err \<and> proxyErrorHandler id err = 502) \<and>
   (\<exists>err. fst (demo_timeout_run 0) = Inl err \<and> proxyErrorHandler id err = 504)"
proof
  let ?b = "demo_backend\<lparr>retryDeadline := int 9\<rparr>" and ?req = "demo_post\<lparr>Body := NoBody\<rparr>"
  let ?s = "\<lparr>tick = 0, pool = None, rbudget = None, trace = []\<rparr> :: bool rt"
  obtain out s' where r: "RoundTrip ?b demo_timeout_env (Some demo_retry) ?req ?s = (out, s')" by fastforce
  then have "\<exists>err. out = Inl err"
    by (auto simp: demo_eval demo_post_def demo_timeout_env_def with_deadline_def after_error_def numeral_2_eq_2)
  then obtain err where err: "out = Inl err" by blast
  have "err = Context Canceled \<and> proxyErrorHandler id err = 502"
    using r unfolding err
    by (rule deadline_masks_upstream_errors [rotated 5])
       (simp_all add: demo_eval demo_timeout_env_def)
  then show "\<exists>err. fst (demo_timeout_run 9) = Inl err \<and> proxyErrorHandler id err = 502"
    using r err by (simp add: demo_timeout_run_def proxyErrorHandler_def)
  show "\<exists>err. fst (demo_timeout_run 0) = Inl err \<and> proxyErrorHandler id err = 504"
    by (simp add: demo_timeout_run_def demo_eval demo_post_def demo_timeout_env_def after_error_def numeral_2_eq_2
        proxyErrorHandler_def)
qed

end
