(* ===== verification/Headers.thy ===== *)
theory Headers
  imports Http
begin

text \<open>
  Header rules of \<open>src/config.go\<close> (names, values, methods, environment expansion,
  \<open>resolveHeaders\<close>, \<open>resolveResponseHeaders\<close>, \<open>mergeHeaders\<close>) and the response policies of
  \<open>src/proxy.go\<close> (\<open>applyResponseHeaders\<close>). \<open>env\<close> is \<open>os.LookupEnv\<close>. A Go map argument is a
  \<open>gomap\<close> in the order its iteration happens to take.
\<close>

section \<open>Names, values and methods\<close>

definition validHeaderNameByte :: "char \<Rightarrow> bool" where
  "validHeaderNameByte v \<longleftrightarrow> is_lower v \<or> is_upper v \<or> is_digit v \<or>
     v \<in> set ''!#$%&'' \<or> v = CHR 0x27 \<or> v \<in> set ''+-.^_'' \<or> v = CHR 0x60 \<or> v \<in> set ''|~''"

definition validHeaderName :: "string \<Rightarrow> bool" where
  "validHeaderName name \<longleftrightarrow> name \<noteq> [] \<and> list_all validHeaderNameByte name"

definition validHeaderValue :: "string \<Rightarrow> bool" where
  "validHeaderValue v \<longleftrightarrow>
     list_all (\<lambda>c. \<not> (c = CHR 0x0D \<or> c = CHR 0x0A \<or> c = CHR 0x7F \<or> c < CHR 0x20 \<and> c \<noteq> CHR 0x09)) v"

definition validMethod :: "string \<Rightarrow> bool" where
  "validMethod m \<longleftrightarrow> m \<noteq> [] \<and> list_all (\<lambda>c. c = CHR ''*'' \<or> validHeaderNameByte c) m"

fun validate_methods_from :: "nat \<Rightarrow> string list \<Rightarrow> string list \<Rightarrow> unit res" where
  "validate_methods_from i seen [] = Inr ()"
| "validate_methods_from i seen (m # ms) =
     (if \<not> validMethod m then Inl (Err ''item %d must be a non-empty ASCII HTTP token'' [N (int i)])
      else if m \<in> set seen then Inl (Err ''contains duplicate %q'' [S m])
      else validate_methods_from (Suc i) (m # seen) ms)"

definition validateMethods :: "string list \<Rightarrow> unit res" where
  "validateMethods methods =
     (if length methods = 0 then Inl (Err ''must not be empty'' [])
      else validate_methods_from 0 [] methods)"

definition validateRetryMethods :: "string list \<Rightarrow> unit res" where
  "validateRetryMethods methods =
     rbind (validateMethods methods) (\<lambda>_.
       check_all (\<lambda>i m. guard (contains_byte m CHR ''*'') (Err ''item %d must not contain *'' [N (int i)]))
         0 methods)"

definition restrictedHeader :: "string \<Rightarrow> bool" where
  "restrictedHeader name \<longleftrightarrow> to_lower name \<in>
     {''connection'', ''proxy-connection'', ''keep-alive'', ''transfer-encoding'', ''te'', ''trailer'',
      ''upgrade'', ''content-length''}"

section \<open>Environment expansion\<close>

definition isEnvironmentNameStart :: "char \<Rightarrow> bool" where
  "isEnvironmentNameStart v \<longleftrightarrow> v = CHR ''_'' \<or> is_lower v \<or> is_upper v"

definition validEnvironmentName :: "string \<Rightarrow> bool" where
  "validEnvironmentName name =
     (if name = [] \<or> \<not> isEnvironmentNameStart (hd name) then False
      else list_all (\<lambda>c. isEnvironmentNameStart c \<or> is_digit c) (tl name))"

definition backslash :: char where "backslash = CHR 0x5C"

text \<open>\<open>value[i:]\<close> is the argument; what was written so far is put in front by the caller.\<close>

function expandEnv :: "(string \<Rightarrow> string option) \<Rightarrow> string \<Rightarrow> string res" where
  "expandEnv env [] = Inr []"
| "expandEnv env (c # cs) =
     (if c = backslash \<and> take 1 cs = [backslash]
      then rbind (expandEnv env (drop 1 cs)) (\<lambda>r. Inr (backslash # r))
      else if c = backslash \<and> take 2 cs = ''${''
      then rbind (expandEnv env (drop 2 cs)) (\<lambda>r. Inr (''${'' @ r))
      else if c = CHR ''$'' \<and> take 1 cs = ''{''
      then (case index_byte (drop 1 cs) CHR ''}'' of
              None \<Rightarrow> Inl (Err ''unterminated environment variable'' [])
            | Some e \<Rightarrow>
                (let name = take e (drop 1 cs) in
                 if \<not> validEnvironmentName name
                 then Inl (Err ''invalid environment variable name %q'' [S name])
                 else (case env name of
                         None \<Rightarrow> Inl (Err ''environment variable %q is not set'' [S name])
                       | Some v \<Rightarrow> rbind (expandEnv env (drop (e + 2) cs)) (\<lambda>r. Inr (v @ r)))))
      else rbind (expandEnv env cs) (\<lambda>r. Inr (c # r)))"
  by pat_completeness auto
termination by (relation "measure (length \<circ> snd)") auto

declare expandEnv.simps(2) [simp del]

section \<open>Request headers\<close>

text \<open>The loop of \<open>resolveHeaders\<close> with the headers resolved so far.\<close>

fun resolve_headers_from ::
  "(string \<Rightarrow> string option) \<Rightarrow> (string, string) gomap \<Rightarrow> (string, string) gomap \<Rightarrow>
   (string, string) gomap res" where
  "resolve_headers_from env headers [] = Inr headers"
| "resolve_headers_from env headers ((name, v) # raw) =
     (if \<not> validHeaderName name then Inl (Err ''invalid header name %q'' [S name])
      else let key = canonical_key name in
        if map_of headers key \<noteq> None then Inl (Err ''duplicate header name %q'' [S key])
        else if restrictedHeader key then Inl (Err ''header %q is managed by the proxy'' [S key])
        else rbind (wrap_err ''%q: %w'' [S key] (expandEnv env v)) (\<lambda>x.
          if \<not> validHeaderValue x
          then Inl (Err ''header %q contains invalid control characters'' [S key])
          else resolve_headers_from env (go_put key x headers) raw))"

definition resolveHeaders ::
  "(string \<Rightarrow> string option) \<Rightarrow> (string, string) gomap \<Rightarrow> (string, string) gomap res" where
  "resolveHeaders env raw = (if length raw = 0 then Inr [] else resolve_headers_from env [] raw)"

fun put_all :: "(string, 'v) gomap \<Rightarrow> (string, 'v) gomap \<Rightarrow> (string, 'v) gomap" where
  "put_all headers [] = headers"
| "put_all headers ((name, v) # m) = put_all (go_put name v headers) m"

definition mergeHeaders :: "(string, string) gomap \<Rightarrow> (string, string) gomap \<Rightarrow> (string, string) gomap" where
  "mergeHeaders base override =
     (if length base = 0 \<and> length override = 0 then [] else put_all (put_all [] base) override)"

section \<open>Response header policies\<close>

record responseHeaderPolicy =
  Set :: "(string, string list) gomap"
  Add :: "(string, string list) gomap"
  Remove :: "string list"

definition responseHeaderName :: "string \<Rightarrow> string res" where
  "responseHeaderName name =
     (if \<not> validHeaderName name then Inl (Err ''invalid header name %q'' [S name])
      else let key = canonical_key name in
        if restrictedHeader key \<or> key = ''Proxy-Authenticate'' \<or> key = ''Proxy-Authorization''
        then Inl (Err ''header %q is managed by the proxy'' [S key])
        else Inr key)"

fun resolve_values_from ::
  "(string \<Rightarrow> string option) \<Rightarrow> string \<Rightarrow> nat \<Rightarrow> string list \<Rightarrow> string list res" where
  "resolve_values_from env name i [] = Inr []"
| "resolve_values_from env name i (v # vs) =
     rbind (wrap_err ''header %q value %d: %w'' [S name, N (int i)] (expandEnv env v)) (\<lambda>x.
       if \<not> validHeaderValue x
       then Inl (Err ''header %q value %d contains invalid control characters'' [S name, N (int i)])
       else rbind (resolve_values_from env name (Suc i) vs) (\<lambda>xs. Inr (x # xs)))"

fun resolve_response_from ::
  "(string \<Rightarrow> string option) \<Rightarrow> (string, string list) gomap \<Rightarrow> (string, string list) gomap \<Rightarrow>
   (string, string list) gomap res" where
  "resolve_response_from env headers [] = Inr headers"
| "resolve_response_from env headers ((rawName, rawValues) # raw) =
     rbind (responseHeaderName rawName) (\<lambda>name.
       if map_of headers name \<noteq> None then Inl (Err ''duplicate header name %q'' [S name])
       else if length rawValues = 0
       then Inl (Err ''header %q value array must not be empty'' [S name])
       else rbind (resolve_values_from env name 0 rawValues) (\<lambda>vs.
         resolve_response_from env (go_put name vs headers) raw))"

definition resolveResponseHeaderValues ::
  "(string \<Rightarrow> string option) \<Rightarrow> (string, string list) gomap \<Rightarrow> (string, string list) gomap res" where
  "resolveResponseHeaderValues env raw =
     (if length raw = 0 then Inr [] else resolve_response_from env [] raw)"

fun resolve_names_from :: "nat \<Rightarrow> string list \<Rightarrow> string list \<Rightarrow> string list res" where
  "resolve_names_from i seen [] = Inr []"
| "resolve_names_from i seen (rawName # raw) =
     rbind (wrap_err ''item %d: %w'' [N (int i)] (responseHeaderName rawName)) (\<lambda>name.
       if name \<in> set seen then Inl (Err ''contains duplicate header name %q'' [S name])
       else rbind (resolve_names_from (Suc i) (name # seen) raw) (\<lambda>ns. Inr (name # ns)))"

definition resolveResponseHeaderNames :: "string list \<Rightarrow> string list res" where
  "resolveResponseHeaderNames raw = resolve_names_from 0 [] raw"

definition resolveResponseHeaders ::
  "(string \<Rightarrow> string option) \<Rightarrow> responseHeaderPolicy \<Rightarrow> responseHeaderPolicy res" where
  "resolveResponseHeaders env raw =
     rbind (wrap_err ''set: %w'' [] (resolveResponseHeaderValues env (Set raw))) (\<lambda>s.
     rbind (wrap_err ''add: %w'' [] (resolveResponseHeaderValues env (Add raw))) (\<lambda>a.
     rbind (wrap_err ''remove: %w'' [] (resolveResponseHeaderNames (Remove raw))) (\<lambda>r.
       Inr \<lparr>Set = s, Add = a, Remove = r\<rparr>)))"

definition emptyResponseHeaderPolicy :: "responseHeaderPolicy \<Rightarrow> bool" where
  "emptyResponseHeaderPolicy p \<longleftrightarrow> length (Set p) = 0 \<and> length (Add p) = 0 \<and> length (Remove p) = 0"

definition containsHeaderName :: "header \<Rightarrow> string \<Rightarrow> bool" where
  "containsHeaderName headers name \<longleftrightarrow>
     map_of headers name \<noteq> None \<or> list_ex (\<lambda>(existing, vs). equal_fold existing name) headers"

text \<open>The three loops over the response's header; \<open>trailer\<close> is \<open>response.Trailer\<close>.\<close>

fun remove_headers :: "header \<Rightarrow> string list \<Rightarrow> header \<Rightarrow> header" where
  "remove_headers trailer [] h = h"
| "remove_headers trailer (name # names) h =
     remove_headers trailer names (if containsHeaderName trailer name then h else go_delete name h)"

fun set_headers :: "header \<Rightarrow> header \<Rightarrow> header \<Rightarrow> header" where
  "set_headers trailer [] h = h"
| "set_headers trailer ((name, vs) # m) h =
     set_headers trailer m (if containsHeaderName trailer name then h else go_put name vs h)"

fun add_headers :: "header \<Rightarrow> header \<Rightarrow> header \<Rightarrow> header" where
  "add_headers trailer [] h = h"
| "add_headers trailer ((name, vs) # m) h =
     add_headers trailer m
       (if containsHeaderName trailer name then h else go_put name (header_raw h name @ vs) h)"

definition applyResponseHeaders :: "header \<Rightarrow> header \<Rightarrow> responseHeaderPolicy \<Rightarrow> header" where
  "applyResponseHeaders trailer h p =
     add_headers trailer (Add p) (set_headers trailer (Set p) (remove_headers trailer (Remove p) h))"

definition applyResponseHeaderPolicies ::
  "header \<Rightarrow> header \<Rightarrow> responseHeaderPolicy \<Rightarrow> responseHeaderPolicy \<Rightarrow> header" where
  "applyResponseHeaderPolicies trailer h site route =
     applyResponseHeaders trailer (applyResponseHeaders trailer h site) route"

section \<open>Canonical names\<close>

lemma case_codes:
  "is_upper c \<longleftrightarrow> 65 \<le> (of_char c :: nat) \<and> (of_char c :: nat) \<le> 90"
  "is_lower c \<longleftrightarrow> 97 \<le> (of_char c :: nat) \<and> (of_char c :: nat) \<le> 122"
  by (simp_all add: is_upper_def is_lower_def less_eq_char_def)

lemma lower_upper: "is_lower c \<Longrightarrow> is_upper (upper_char c)" "is_upper c \<Longrightarrow> is_lower (lower_char c)"
  by (auto simp: case_codes upper_char_def lower_char_def)

lemma not_both: "is_lower c \<Longrightarrow> \<not> is_upper c"
  by (simp add: case_codes)

lemma dash_no_letter: "\<not> is_lower CHR ''-''" "\<not> is_upper CHR ''-''"
  by (simp_all add: is_lower_def is_upper_def)

lemma token_chars:
  "validHeaderNameByte c \<Longrightarrow> is_token_byte c"
  "validHeaderNameByte c \<Longrightarrow> validHeaderNameByte (upper_char c)"
  "validHeaderNameByte c \<Longrightarrow> validHeaderNameByte (lower_char c)"
  "upper_char (upper_char c) = upper_char c" "lower_char (lower_char c) = lower_char c"
  "upper_char c = CHR ''-'' \<longleftrightarrow> c = CHR ''-''" "lower_char c = CHR ''-'' \<longleftrightarrow> c = CHR ''-''"
proof -
  have u: "upper_char c = c" if "\<not> is_lower c" using that by (simp add: upper_char_def)
  have l: "lower_char c = c" if "\<not> is_upper c" using that by (simp add: lower_char_def)
  show "validHeaderNameByte c \<Longrightarrow> is_token_byte c"
    by (auto simp: validHeaderNameByte_def is_token_byte_def)
  show "validHeaderNameByte c \<Longrightarrow> validHeaderNameByte (upper_char c)"
    using lower_upper(1) [of c] u by (cases "is_lower c") (simp_all add: validHeaderNameByte_def)
  show "validHeaderNameByte c \<Longrightarrow> validHeaderNameByte (lower_char c)"
    using lower_upper(2) [of c] l by (cases "is_upper c") (simp_all add: validHeaderNameByte_def)
  show "upper_char (upper_char c) = upper_char c"
    using lower_upper(1) [of c] not_both [of "upper_char c"] u
    by (cases "is_lower c") (auto simp: upper_char_def [of "upper_char c"])
  show "lower_char (lower_char c) = lower_char c"
    using lower_upper(2) [of c] not_both [of "lower_char c"] l
    by (cases "is_upper c") (auto simp: lower_char_def [of "lower_char c"])
  show "upper_char c = CHR ''-'' \<longleftrightarrow> c = CHR ''-''"
    using lower_upper(1) [of c] dash_no_letter u by (cases "is_lower c") auto
  show "lower_char c = CHR ''-'' \<longleftrightarrow> c = CHR ''-''"
    using lower_upper(2) [of c] dash_no_letter l by (cases "is_upper c") auto
qed

lemma canon_from_idem [simp]: "canon_from up (canon_from up s) = canon_from up s"
  by (induction up s rule: canon_from.induct) (simp_all add: token_chars(4-7))

lemma canon_from_valid:
  "list_all validHeaderNameByte s \<Longrightarrow> list_all validHeaderNameByte (canon_from up s)"
  by (induction up s rule: canon_from.induct) (auto intro: token_chars(2,3))

lemma valid_name_token: "validHeaderName s \<Longrightarrow> list_all is_token_byte s"
  using token_chars(1) by (auto simp: validHeaderName_def list_all_iff)

lemma canonical_key_valid:
  assumes "validHeaderName s"
  shows "validHeaderName (canonical_key s)" and "canonical_key (canonical_key s) = canonical_key s"
proof -
  have c: "canonical_key s = canon_from True s" using valid_name_token [OF assms] by (simp add: canonical_key_def)
  have "canon_from True s \<noteq> []" using assms by (cases s) (simp_all add: validHeaderName_def)
  then show v: "validHeaderName (canonical_key s)"
    using assms canon_from_valid unfolding c by (simp add: validHeaderName_def)
  have "canonical_key (canon_from True s) = canon_from True s"
    using valid_name_token [OF v] unfolding c by (simp add: canonical_key_def)
  then show "canonical_key (canonical_key s) = canonical_key s" unfolding c .
qed

section \<open>Expansion of escaped text\<close>

text \<open>The text that stands for \<open>s\<close> itself in a configuration.\<close>

fun escape_env :: "string \<Rightarrow> string" where
  "escape_env [] = []"
| "escape_env (c # cs) =
     (if c = backslash then backslash # backslash # escape_env cs
      else if c = CHR ''$'' \<and> take 1 cs = ''{'' then backslash # CHR ''$'' # escape_env cs
      else c # escape_env cs)"

lemma take_1_escape: "take 1 (escape_env cs) = ''{'' \<longleftrightarrow> take 1 cs = ''{''"
  by (cases cs) (auto simp: backslash_def)

lemma expandEnv_escape_append:
  assumes "take 1 t \<noteq> ''{''"
  shows "expandEnv env (escape_env s @ t) = rbind (expandEnv env t) (\<lambda>r. Inr (s @ r))"
proof (induction s rule: length_induct)
  case (1 s)
  have IH: "expandEnv env (escape_env u @ t) = rbind (expandEnv env t) (\<lambda>r. Inr (u @ r))"
    if "length u < length s" for u using 1 that by blast
  show ?case
  proof (cases s)
    case Nil
    then show ?thesis by (cases "expandEnv env t") simp_all
  next
    case (Cons c cs)
    have next_brace: "take 1 (escape_env cs @ t) = ''{'' \<longleftrightarrow> take 1 cs = ''{''"
      using assms take_1_escape [of cs] by (cases cs) auto
    consider "c = backslash" | "c = CHR ''$''" "take 1 cs = ''{''"
      | "c \<noteq> backslash" "\<not> (c = CHR ''$'' \<and> take 1 cs = ''{'')" by blast
    then show ?thesis
    proof cases
      case 1
      then show ?thesis using IH [of cs] Cons
        by (cases "expandEnv env t") (simp_all add: expandEnv.simps(2) [of env backslash])
    next
      case 2
      then obtain ds where ds: "cs = CHR ''{'' # ds" by (cases cs) auto
      have "escape_env (c # cs) = backslash # CHR ''$'' # CHR ''{'' # escape_env ds"
        using 2 ds by (simp add: backslash_def)
      then show ?thesis using IH [of ds] Cons ds 2
        by (cases "expandEnv env t")
           (simp_all add: expandEnv.simps(2) [of env backslash], simp_all add: backslash_def)
    next
      case 3
      have "escape_env (c # cs) = c # escape_env cs" using 3 by auto
      then have "expandEnv env (escape_env (c # cs) @ t) = expandEnv env (c # (escape_env cs @ t))" by simp
      also have "\<dots> = rbind (expandEnv env (escape_env cs @ t)) (\<lambda>r. Inr (c # r))"
        using 3 unfolding expandEnv.simps(2) [of env c] next_brace by argo
      finally show ?thesis using IH [of cs] Cons by (cases "expandEnv env t") simp_all
    qed
  qed
qed

text \<open>
  A configuration text as literal text with variables between: what \<open>expandEnv\<close> is to make of it.
\<close>

fun render :: "(string \<times> string) list \<Rightarrow> string \<Rightarrow> string" where
  "render [] e = escape_env e"
| "render ((s, n) # ts) e = escape_env s @ ''${'' @ n @ ''}'' @ render ts e"

fun template_value :: "(string \<Rightarrow> string option) \<Rightarrow> (string \<times> string) list \<Rightarrow> string \<Rightarrow> string res" where
  "template_value env [] e = Inr e"
| "template_value env ((s, n) # ts) e =
     (if \<not> validEnvironmentName n then Inl (Err ''invalid environment variable name %q'' [S n])
      else case env n of
             None \<Rightarrow> Inl (Err ''environment variable %q is not set'' [S n])
           | Some v \<Rightarrow> rbind (template_value env ts e) (\<lambda>r. Inr (s @ v @ r)))"

lemma index_byte_append: "c \<notin> set n \<Longrightarrow> index_byte (n @ c # t) c = Some (length n)"
  by (induction n) auto

lemma expandEnv_variable:
  assumes "CHR ''}'' \<notin> set n"
  shows "expandEnv env (''${'' @ n @ ''}'' @ t) =
    (if \<not> validEnvironmentName n then Inl (Err ''invalid environment variable name %q'' [S n])
     else case env n of
            None \<Rightarrow> Inl (Err ''environment variable %q is not set'' [S n])
          | Some v \<Rightarrow> rbind (expandEnv env t) (\<lambda>r. Inr (v @ r)))"
proof -
  have d: "drop (Suc (length n)) (n @ CHR ''}'' # t) = t" by simp
  show ?thesis
    by (simp add: expandEnv.simps(2) [of env "CHR ''$''"] index_byte_append [OF assms] backslash_def Let_def d
        del: drop_append split: option.splits)
qed

text \<open>\<open>expandEnv\<close> on a text made of escaped literals and variables gives the literals with
  the variables' values between, never expanding a value again; the first variable with an invalid
  name or without a value is the error.\<close>

theorem expandEnv_template:
  assumes "\<forall>(s, n) \<in> set ts. CHR ''}'' \<notin> set n"
  shows "expandEnv env (render ts e) = template_value env ts e"
  using assms
proof (induction ts)
  case Nil
  show ?case using expandEnv_escape_append [of "[]" env e] by simp
next
  case (Cons sn ts)
  obtain s n where sn: "sn = (s, n)" by fastforce
  have step: "expandEnv env (render (sn # ts) e) =
      rbind (expandEnv env (''${'' @ n @ ''}'' @ render ts e)) (\<lambda>r. Inr (s @ r))"
    using expandEnv_escape_append [of "''${'' @ n @ ''}'' @ render ts e" env s] by (simp add: sn)
  have n: "CHR ''}'' \<notin> set n" using Cons.prems sn by simp
  have IH: "expandEnv env (render ts e) = template_value env ts e" using Cons by simp
  show ?case unfolding step unfolding expandEnv_variable [OF n] IH sn
    by (cases "template_value env ts e") (simp_all split: option.splits)
qed

theorem expandEnv_template_witness:
  "expandEnv [''A'' \<mapsto> ''${B}''] (''x'' @ [backslash, CHR ''$'', CHR ''{''] @ ''}${A}!'') = Inr ''x${}${B}!''"
  using expandEnv_template [of "[(''x${}'', ''A'')]" "[''A'' \<mapsto> ''${B}'']" "''!''"]
  by (simp add: backslash_def validEnvironmentName_def isEnvironmentNameStart_def is_upper_def)

section \<open>What resolved headers satisfy\<close>

definition resolved_ok :: "(string, string) gomap \<Rightarrow> bool" where
  "resolved_ok h \<longleftrightarrow> wf_gomap h \<and> (\<forall>(k, v) \<in> set h. validHeaderName k \<and> canonical_key k = k \<and>
     \<not> restrictedHeader k \<and> validHeaderValue v)"

lemma resolved_ok_put:
  "resolved_ok h \<Longrightarrow> validHeaderName k \<Longrightarrow> canonical_key k = k \<Longrightarrow> \<not> restrictedHeader k \<Longrightarrow>
     validHeaderValue v \<Longrightarrow> resolved_ok (go_put k v h)"
  using go_put_set [of k v h] by (fastforce simp: resolved_ok_def)

lemma resolve_headers_from_step:
  "resolve_headers_from env h ((name, v) # raw) = Inr r \<longleftrightarrow>
     validHeaderName name \<and> map_of h (canonical_key name) = None \<and>
     \<not> restrictedHeader (canonical_key name) \<and>
     (\<exists>x. expandEnv env v = Inr x \<and> validHeaderValue x \<and>
        resolve_headers_from env (go_put (canonical_key name) x h) raw = Inr r)"
  by (auto simp: Let_def rbind_Inr_iff split: option.splits)

lemma resolve_headers_from_ok:
  "resolve_headers_from env h raw = Inr r \<Longrightarrow> resolved_ok h \<Longrightarrow> resolved_ok r"
proof (induction raw arbitrary: h)
  case Nil
  then show ?case by simp
next
  case (Cons nv raw)
  then show ?case
    by (cases nv) (auto simp: resolve_headers_from_step simp del: resolve_headers_from.simps
        intro: resolved_ok_put canonical_key_valid)
qed

text \<open>The result as a map, independent of the order.\<close>

definition env_value :: "(string \<Rightarrow> string option) \<Rightarrow> string \<Rightarrow> string" where
  "env_value env v = (case expandEnv env v of Inr x \<Rightarrow> x | Inl e \<Rightarrow> [])"

definition accepts_header :: "(string \<Rightarrow> string option) \<Rightarrow> string \<times> string \<Rightarrow> bool" where
  "accepts_header env nv \<longleftrightarrow> validHeaderName (fst nv) \<and> \<not> restrictedHeader (canonical_key (fst nv)) \<and>
     is_ok (expandEnv env (snd nv)) \<and> validHeaderValue (env_value env (snd nv))"

lemma resolve_headers_from_iff:
  "(\<exists>r. resolve_headers_from env h raw = Inr r) \<longleftrightarrow>
     list_all (accepts_header env) raw \<and> distinct (map (canonical_key \<circ> fst) raw) \<and>
     (\<forall>nv \<in> set raw. canonical_key (fst nv) \<notin> go_keys h)"
proof (induction raw arbitrary: h)
  case Nil
  then show ?case by simp
next
  case (Cons nv raw)
  obtain name v where nv: "nv = (name, v)" by fastforce
  have mem: "map_of h k = None \<longleftrightarrow> k \<notin> go_keys h" for k by (simp add: map_of_eq_None_iff go_keys_def)
  have "(\<exists>r. resolve_headers_from env h (nv # raw) = Inr r) \<longleftrightarrow>
      accepts_header env nv \<and> canonical_key name \<notin> go_keys h \<and>
      (\<exists>r. resolve_headers_from env (go_put (canonical_key name) (env_value env v) h) raw = Inr r)"
    unfolding nv resolve_headers_from_step accepts_header_def mem
    by (auto simp: env_value_def is_ok_iff)
  moreover have "list_all (accepts_header env) (nv # raw) \<and> distinct (map (canonical_key \<circ> fst) (nv # raw)) \<and>
        (\<forall>x \<in> set (nv # raw). canonical_key (fst x) \<notin> go_keys h) \<longleftrightarrow>
      accepts_header env nv \<and> canonical_key name \<notin> go_keys h \<and>
      (list_all (accepts_header env) raw \<and> distinct (map (canonical_key \<circ> fst) raw) \<and>
       (\<forall>x \<in> set raw. canonical_key (fst x) \<notin> go_keys (go_put (canonical_key name) (env_value env v) h)))"
    unfolding nv by (auto simp: comp_def image_iff)
  ultimately show ?case unfolding Cons.IH by argo
qed

lemma resolve_headers_from_map:
  "resolve_headers_from env h raw = Inr r \<Longrightarrow>
     map_of r = map_of h ++ map_of (map (\<lambda>(n, v). (canonical_key n, env_value env v)) raw)"
proof (induction raw arbitrary: h)
  case Nil
  then show ?case by simp
next
  case (Cons nv raw)
  obtain name v where nv: "nv = (name, v)" by fastforce
  obtain x where x: "expandEnv env v = Inr x" "resolve_headers_from env (go_put (canonical_key name) x h) raw = Inr r"
    using Cons.prems unfolding nv resolve_headers_from_step by blast
  have "\<exists>r. resolve_headers_from env h (nv # raw) = Inr r" using Cons.prems by blast
  then have "distinct (map (canonical_key \<circ> fst) (nv # raw))" by (simp only: resolve_headers_from_iff)
  then have "canonical_key name \<notin> fst ` set (map (\<lambda>(n, v). (canonical_key n, env_value env v)) raw)"
    unfolding nv by (auto simp: image_iff)
  then have "map_of (map (\<lambda>(n, v). (canonical_key n, env_value env v)) raw) (canonical_key name) = None"
    by (simp add: map_of_eq_None_iff)
  with Cons.IH [OF x(2)] x(1) show ?case
    unfolding nv by (auto simp: map_add_def env_value_def fun_eq_iff split: option.splits)
qed

text \<open>C30. \<open>resolveHeaders\<close> accepts a map exactly when every name is valid and not managed by the proxy,
  every value expands to one without control characters, and no two names have the same canonical
  form. The result then maps each canonical name to its expanded value, and every entry of it is safe
  to send.\<close>

theorem resolveHeaders_exact:
  "case resolveHeaders env raw of
     Inl e \<Rightarrow> \<not> (list_all (accepts_header env) raw \<and> distinct (map (canonical_key \<circ> fst) raw))
   | Inr r \<Rightarrow> list_all (accepts_header env) raw \<and> distinct (map (canonical_key \<circ> fst) raw) \<and> resolved_ok r \<and>
       map_of r = map_of (map (\<lambda>(n, v). (canonical_key n, env_value env v)) raw)"
proof -
  have e: "resolveHeaders env raw = resolve_headers_from env [] raw"
    by (cases raw) (simp_all add: resolveHeaders_def)
  have iff: "(\<exists>r. resolve_headers_from env [] raw = Inr r) \<longleftrightarrow>
      list_all (accepts_header env) raw \<and> distinct (map (canonical_key \<circ> fst) raw)"
    unfolding resolve_headers_from_iff by (simp add: go_keys_def)
  have nil: "resolved_ok []" by (simp add: resolved_ok_def)
  show ?thesis
  proof (cases "resolve_headers_from env [] raw")
    case (Inl x)
    then show ?thesis using iff unfolding e by simp
  next
    case (Inr r)
    then have "\<exists>r. resolve_headers_from env [] raw = Inr r" by blast
    then show ?thesis
      using iff resolve_headers_from_ok [OF Inr nil] resolve_headers_from_map [OF Inr] unfolding e Inr by simp
  qed
qed

section \<open>What a response policy does to a header\<close>

lemma go_put_same: "map_of (if b then h else go_put n vs h) k = (if \<not> b \<and> k = n then Some vs else map_of h k)"
  by simp

lemma remove_headers_lookup:
  "map_of (remove_headers tr names h) k =
     (if k \<in> set names \<and> \<not> containsHeaderName tr k then None else map_of h k)"
  by (induction tr names h rule: remove_headers.induct) auto

lemma set_headers_lookup:
  "wf_gomap m \<Longrightarrow> map_of (set_headers tr m h) k =
     (if map_of m k \<noteq> None \<and> \<not> containsHeaderName tr k then map_of m k else map_of h k)"
proof (induction tr m h rule: set_headers.induct)
  case (1 tr h)
  then show ?case by simp
next
  case (2 tr name vs m h)
  then have "map_of m name = None" "wf_gomap m" by (auto simp: wf_gomap_def map_of_eq_None_iff)
  with 2 show ?case by auto
qed

lemma add_headers_lookup:
  "wf_gomap m \<Longrightarrow> map_of (add_headers tr m h) k =
     (case map_of m k of
        None \<Rightarrow> map_of h k
      | Some vs \<Rightarrow> if containsHeaderName tr k then map_of h k else Some (header_raw h k @ vs))"
proof (induction tr m h rule: add_headers.induct)
  case (1 tr h)
  then show ?case by simp
next
  case (2 tr name vs m h)
  then have "map_of m name = None" "wf_gomap m" by (auto simp: wf_gomap_def map_of_eq_None_iff)
  with 2 show ?case by (auto simp: header_raw_def split: option.splits)
qed

text \<open>What a policy makes of the values of one name.\<close>

definition policy_value :: "responseHeaderPolicy \<Rightarrow> string \<Rightarrow> string list option \<Rightarrow> string list option" where
  "policy_value p k old =
     (let kept = (if map_of (Set p) k \<noteq> None then map_of (Set p) k
                  else if k \<in> set (Remove p) then None else old)
      in case map_of (Add p) k of
           None \<Rightarrow> kept
         | Some vs \<Rightarrow> Some ((case kept of None \<Rightarrow> [] | Some xs \<Rightarrow> xs) @ vs))"

lemma applyResponseHeaders_lookup:
  assumes "wf_gomap (Set p)" and "wf_gomap (Add p)"
  shows "map_of (applyResponseHeaders tr h p) k =
    (if containsHeaderName tr k then map_of h k else policy_value p k (map_of h k))"
  unfolding applyResponseHeaders_def policy_value_def
  by (simp add: add_headers_lookup [OF assms(2)] set_headers_lookup [OF assms(1)] remove_headers_lookup
      header_raw_def Let_def split: option.splits)

text \<open>The response policies of a site and its route act on each header name by itself: names in
  use as trailers keep their values, any other is first removed or set, then added to, by the site's
  policy and then by the route's.\<close>

theorem response_policies_per_name:
  assumes "wf_gomap (Set site)" and "wf_gomap (Add site)" and "wf_gomap (Set route)" and "wf_gomap (Add route)"
  shows "map_of (applyResponseHeaderPolicies tr h site route) k =
    (if containsHeaderName tr k then map_of h k
     else policy_value route k (policy_value site k (map_of h k)))"
  unfolding applyResponseHeaderPolicies_def applyResponseHeaders_lookup [OF assms(3,4)]
    applyResponseHeaders_lookup [OF assms(1,2)] by simp

theorem response_policies_per_name_witness:
  "map_of (applyResponseHeaderPolicies [(''Digest'', [])] [(''Server'', [''x'']), (''Digest'', [''1''])]
     \<lparr>Set = [(''Server'', [''kubio''])], Add = [(''Digest'', [''2''])], Remove = [''Digest'']\<rparr>
     \<lparr>Set = [], Add = [(''Server'', [''edge''])], Remove = []\<rparr>) ''Server'' = Some [''kubio'', ''edge'']"
  using response_policies_per_name [of
      "\<lparr>Set = [(''Server'', [''kubio''])], Add = [(''Digest'', [''2''])], Remove = [''Digest'']\<rparr>"
      "\<lparr>Set = [], Add = [(''Server'', [''edge''])], Remove = []\<rparr>"
      "[(''Digest'', [])]" "[(''Server'', [''x'']), (''Digest'', [''1''])]" "''Server''"]
  by (simp add: wf_gomap_def policy_value_def containsHeaderName_def equal_fold_def lower_char_def is_upper_def
      char_eval Let_def)

end
