(* ===== verification/AccessLog.thy ===== *)
theory AccessLog
  imports ClientIP
begin

text \<open>
  \<open>src/access_log.go\<close>: the response writer that observes status and size, and the record written
  for every request. A handler is the sequence of calls it makes on the writer, each with what the
  writer below answered. \<open>fmt\<close> is \<open>Format(time.RFC3339Nano)\<close> of a UTC time, times are nanoseconds.
\<close>

section \<open>The observing writer\<close>

datatype flush_result = Flushed | FlushNotSupported | FlushFailed

text \<open>Calls with the results of the wrapped writer: the bytes written, the flush error, and whether
  the hijack succeeded.\<close>

datatype writer_call = WriteHeader int | Write string nat | FlushError flush_result | Hijack bool

record accessResponseWriter =
  status :: int
  bytes :: int

definition statusSwitchingProtocols :: int where "statusSwitchingProtocols = 101"

fun observe_call :: "writer_call \<Rightarrow> accessResponseWriter \<Rightarrow> accessResponseWriter" where
  "observe_call (WriteHeader s) w =
     (if status w = 0 \<and> (s = statusSwitchingProtocols \<or> s \<ge> 200) then w\<lparr>status := s\<rparr> else w)"
| "observe_call (Write data written) w =
     (let w' = (if status w = 0 then w\<lparr>status := 200\<rparr> else w)
      in w'\<lparr>bytes := i64 (bytes w' + int written)\<rparr>)"
| "observe_call (FlushError err) w =
     (if status w = 0 \<and> err \<noteq> FlushNotSupported then w\<lparr>status := 200\<rparr> else w)"
| "observe_call (Hijack ok) w =
     (if ok \<and> status w = 0 then w\<lparr>status := statusSwitchingProtocols\<rparr> else w)"

definition new_observer :: accessResponseWriter where
  "new_observer = \<lparr>status = 0, bytes = 0\<rparr>"

section \<open>Records\<close>

record accessRecord =
  Time :: string
  RMethod :: string
  RHost :: string
  RPath :: string
  Proto :: string
  Peer :: string
  RStatus :: int
  Bytes :: int
  DurationUs :: int

datatype log_line = Plain accessRecord | WithID accessRecord string

text \<open>\<open>end.Sub(start).Microseconds()\<close>: the difference saturates, the division truncates.\<close>

definition time_sub :: "int \<Rightarrow> int \<Rightarrow> int" where
  "time_sub finish start = max (- (2 ^ 63)) (min (2 ^ 63 - 1) (finish - start))"

definition microseconds :: "int \<Rightarrow> int" where
  "microseconds d = sgn d * (\<bar>d\<bar> div 1000)"

definition newAccessRecord ::
  "(int \<Rightarrow> string) \<Rightarrow> string \<Rightarrow> string \<Rightarrow> string \<Rightarrow> string \<Rightarrow> string \<Rightarrow> accessResponseWriter \<Rightarrow> int \<Rightarrow> int \<Rightarrow>
   accessRecord" where
  "newAccessRecord fmt method host path proto peer observed start finish =
     \<lparr>Time = fmt finish, RMethod = method, RHost = host, RPath = path, Proto = proto, Peer = peer,
      RStatus = status observed, Bytes = bytes observed, DurationUs = microseconds (time_sub finish start)\<rparr>"

definition logged_path :: "request \<Rightarrow> string" where
  "logged_path req = (let p = url_escaped_path (URL req) in if p = [] then ''/'' else p)"

text \<open>What the served handler did: its calls and the value it panicked with, if it did.\<close>

record 'p handler_run =
  calls :: "writer_call list"
  panic :: "'p option"

text \<open>The status of the deferred function.\<close>

definition final_status :: "'p option \<Rightarrow> accessResponseWriter \<Rightarrow> accessResponseWriter" where
  "final_status panicValue w =
     (if status w = 0 then w\<lparr>status := (if panicValue \<noteq> None then 500 else 200)\<rparr> else w)"

text \<open>The line written and the panic that goes on. The fields of the request are read before
  \<open>serve\<close> runs, its id after; \<open>served_id\<close> is \<open>requestIDFromRequest(req)\<close>.\<close>

definition serveLogged ::
  "(int \<Rightarrow> string) \<Rightarrow> bool \<Rightarrow> string \<Rightarrow> request \<Rightarrow> 'p handler_run \<Rightarrow> int \<Rightarrow> int \<Rightarrow> log_line \<times> 'p option" where
  "serveLogged fmt requestID proto req run start finish =
     (let observed = final_status (panic run) (fold observe_call (calls run) new_observer);
          rec = newAccessRecord fmt (Method req) (Host req) (logged_path req) proto
                  (snd (peerAddress (RemoteAddr req))) observed start finish
      in (if requestID then WithID rec (case request_id req of Some rid \<Rightarrow> rid | None \<Rightarrow> []) else Plain rec,
          panic run))"

text \<open>\<open>http.Error\<close> writes the header and then the text with a newline; \<open>written\<close> is what the
  connection took of it.\<close>

definition serveRequestIDFailure ::
  "(int \<Rightarrow> string) \<Rightarrow> string \<Rightarrow> request \<Rightarrow> nat \<Rightarrow> int \<Rightarrow> int \<Rightarrow> writer_call list \<times> log_line" where
  "serveRequestIDFailure fmt proto req written start finish =
     (let cs = [WriteHeader 500, Write (''Internal Server Error'' @ [CHR 0x0A]) written];
          observed = fold observe_call cs new_observer
      in (cs, Plain (newAccessRecord fmt (Method req) (Host req) (logged_path req) proto
                (snd (peerAddress (RemoteAddr req))) observed start finish)))"

section \<open>What the client sees\<close>

text \<open>
  The status a call commits the response to on a fresh connection: informational responses commit
  to nothing, data and a flush commit to 200, and a connection taken over was switched.
\<close>

fun commits :: "writer_call \<Rightarrow> int option" where
  "commits (WriteHeader s) = (if s = 101 \<or> s \<ge> 200 then Some s else None)"
| "commits (Write data written) = Some 200"
| "commits (FlushError err) = (if err = FlushNotSupported then None else Some 200)"
| "commits (Hijack ok) = (if ok then Some 101 else None)"

definition wire_status :: "writer_call list \<Rightarrow> int option" where
  "wire_status cs = (case List.map_filter commits cs of [] \<Rightarrow> None | s # _ \<Rightarrow> Some s)"

fun bytes_of :: "writer_call \<Rightarrow> int" where
  "bytes_of (Write data written) = int written"
| "bytes_of c = 0"

lemma commits_pos: "commits c = Some s \<Longrightarrow> s \<noteq> 0"
  by (cases c) (auto split: if_splits)

lemma observe_status:
  "status (observe_call c w) = (if status w = 0 then (case commits c of None \<Rightarrow> 0 | Some s \<Rightarrow> s) else status w)"
  by (cases c) (auto simp: statusSwitchingProtocols_def Let_def)

lemma observe_bytes: "bytes (observe_call c w) = (case c of Write d n \<Rightarrow> i64 (bytes w + int n) | _ \<Rightarrow> bytes w)"
  by (cases c) (auto simp: Let_def)

lemma fold_observe_status:
  "status (fold observe_call cs w) =
     (if status w = 0 then (case wire_status cs of None \<Rightarrow> 0 | Some s \<Rightarrow> s) else status w)"
proof (induction cs arbitrary: w)
  case Nil
  then show ?case by (simp add: wire_status_def map_filter_simps)
next
  case (Cons c cs)
  show ?case
    by (cases "commits c") (simp_all add: Cons.IH observe_status wire_status_def map_filter_simps commits_pos)
qed

lemma i64_add: "i64 (i64 x + y) = i64 (x + y)"
proof -
  have "(i64 x + y + 2 ^ 63) mod 2 ^ 64 = (x + y + 2 ^ 63) mod (2 ^ 64 :: int)"
    unfolding i64_def by (simp add: mod_simps algebra_simps)
  then show ?thesis by (simp add: i64_def)
qed

lemma fold_observe_bytes:
  "in_i64 (bytes w) \<Longrightarrow> bytes (fold observe_call cs w) = i64 (bytes w + sum_list (map bytes_of cs))"
proof (induction cs arbitrary: w)
  case Nil
  then show ?case by (simp add: i64_id)
next
  case (Cons c cs)
  show ?case
  proof (cases c)
    case (Write d n)
    then show ?thesis using Cons.IH [of "observe_call c w"]
      by (simp add: observe_bytes i64_range i64_add add.assoc Let_def del: observe_call.simps)
  qed (use Cons in \<open>simp_all add: observe_bytes del: observe_call.simps\<close>)
qed

lemma wire_status_pos: "wire_status cs = Some s \<Longrightarrow> s \<noteq> 0"
  by (induction cs) (auto simp: wire_status_def map_filter_simps dest: commits_pos split: option.splits)

definition line_record :: "log_line \<Rightarrow> accessRecord" where
  "line_record l = (case l of Plain r \<Rightarrow> r | WithID r _ \<Rightarrow> r)"

text \<open>C31. Whatever the handler calls, and whether it panics or not, one line is written; its status
  is the one the client was sent, or the one the server answers when nothing was sent (500 after a
  panic, 200 otherwise); its size is the number of body bytes written, modulo 2^64; and the
  panic goes on.\<close>

theorem serveLogged_records_what_was_sent:
  fixes run :: "'p handler_run"
  shows "let (line, repanic) = serveLogged fmt requestID proto req run start finish; r = line_record line in
    RStatus r = (case wire_status (calls run) of Some s \<Rightarrow> s | None \<Rightarrow> if panic run = None then 200 else 500) \<and>
    Bytes r = i64 (sum_list (map bytes_of (calls run))) \<and> repanic = panic run"
proof -
  define w where "w = fold observe_call (calls run) new_observer"
  have s: "status w = (case wire_status (calls run) of None \<Rightarrow> 0 | Some s \<Rightarrow> s)"
    unfolding w_def fold_observe_status by (simp add: new_observer_def)
  have b: "bytes w = i64 (sum_list (map bytes_of (calls run)))"
    unfolding w_def by (simp add: fold_observe_bytes new_observer_def in_i64_def)
  have fb: "bytes (final_status (panic run) w) = bytes w" by (simp add: final_status_def)
  have fs: "status (final_status (panic run) w) =
      (case wire_status (calls run) of Some s \<Rightarrow> s | None \<Rightarrow> if panic run = None then 200 else 500)"
    using s wire_status_pos [of "calls run"] by (auto simp: final_status_def split: option.splits)
  show ?thesis
    using b fb fs by (cases "panic run")
      (simp_all add: serveLogged_def Let_def line_record_def newAccessRecord_def w_def [symmetric])
qed

text \<open>The duration is never off by a whole microsecond.\<close>

lemma microseconds_exact:
  assumes "0 \<le> finish - start" "finish - start < 2 ^ 63"
  shows "microseconds (time_sub finish start) = (finish - start) div 1000"
proof -
  have "time_sub finish start = finish - start" using assms by (simp add: time_sub_def)
  then show ?thesis using assms by (cases "finish = start") (simp_all add: microseconds_def)
qed

end
