(* ===== verification/Bodies.thy ===== *)
theory Bodies
  imports Retry
begin

text \<open>
  The response bodies of \<open>src/proxy.go\<close>: \<open>directBody\<close>, which a timer, the request's context, its
  reader and its closer may end concurrently; \<open>deadlineBody\<close>, which cancels the deadline once; the
  buffer pool. Every critical section of the mutex is one step of the relation.
\<close>

section \<open>Wrappers\<close>

datatype rbody =
    RawBody bool
  | deadlineBody rbody
  | deadlineReadWriteBody rbody
  | directBody rbody
  | requestIDBody rbody
  | requestIDReadWriteBody rbody

text \<open>Whether a body is an \<open>io.ReadWriteCloser\<close>; a raw body says so itself.\<close>

fun read_write :: "rbody \<Rightarrow> bool" where
  "read_write (RawBody rw) = rw"
| "read_write (deadlineBody b) = False"
| "read_write (deadlineReadWriteBody b) = True"
| "read_write (directBody b) = False"
| "read_write (requestIDBody b) = False"
| "read_write (requestIDReadWriteBody b) = True"

fun deadlineBodyState :: "rbody \<Rightarrow> bool" where
  "deadlineBodyState (deadlineBody b) = True"
| "deadlineBodyState (deadlineReadWriteBody b) = True"
| "deadlineBodyState b = False"

definition wrapDeadlineBody :: "rbody \<Rightarrow> rbody" where
  "wrapDeadlineBody b = (if read_write b then deadlineReadWriteBody b else deadlineBody b)"

text \<open>\<open>sync.Once\<close> around \<open>cancel\<close>: whether it ran and how often \<open>cancel\<close> was called.\<close>

record deadline_state =
  once :: bool
  cancels :: nat

definition cancel_once :: "deadline_state \<Rightarrow> deadline_state" where
  "cancel_once d = (if once d then d else \<lparr>once = True, cancels = cancels d + 1\<rparr>)"

datatype deadline_call = Read_call bool | Close_call

text \<open>\<open>Read\<close> (with the information whether it failed) and \<open>Close\<close> of both deadline bodies.\<close>

fun deadline_step :: "deadline_call \<Rightarrow> deadline_state \<Rightarrow> deadline_state" where
  "deadline_step (Read_call failed) d = (if failed then cancel_once d else d)"
| "deadline_step Close_call d = cancel_once d"

section \<open>The direct body\<close>

datatype 'e body_error = CtxErr ctx_error | ReadAfterClose | RawErr 'e

text \<open>Where a \<open>Read\<close> of a goroutine stands: not in one, in the wrapped \<open>Read\<close>, with data before the
  context is asked, with data before the final check, and on its way to \<open>finalize\<close>.\<close>

datatype 'e phase = Idle | InRead | GotData nat | Checking nat | Finishing nat "'e body_error"

record 'e directBody =
  dbody :: bool
  dctx :: bool
  timer :: bool
  stopCtx :: bool
  dclosed :: bool
  dcause :: "'e body_error option"
  req_ctx :: "ctx_error option"
  to_close :: nat
  raw_closes :: nat
  phases :: "nat \<Rightarrow> 'e phase"
  returned :: "(nat \<times> nat \<times> 'e body_error option) list"

text \<open>The first fields are the struct's (the two pointers and the two handles as their being set).
  The others are its surroundings: the context's error, bodies taken out of the struct but not yet
  closed, closes made, reads under way, reads returned.\<close>

definition newDirectBody :: "'e directBody" where
  "newDirectBody = \<lparr>dbody = True, dctx = True, timer = True, stopCtx = True, dclosed = False, dcause = None,
     req_ctx = None, to_close = 0, raw_closes = 0, phases = (\<lambda>_. Idle), returned = []\<rparr>"

text \<open>The critical section of \<open>finalize\<close> with the cause it returns; the body taken out is closed
  after it.\<close>

definition finalize :: "'e body_error option \<Rightarrow> 'e directBody \<Rightarrow> 'e body_error option \<times> 'e directBody" where
  "finalize defaultCause b =
     (if dclosed b then (if dcause b = None then defaultCause else dcause b, b)
      else let cause = (if dctx b then (case req_ctx b of Some e \<Rightarrow> Some (CtxErr e) | None \<Rightarrow> defaultCause)
                        else defaultCause)
           in (cause, b\<lparr>dclosed := True, dcause := cause, to_close := (if dbody b then to_close b + 1 else to_close b),
                 dbody := False, timer := False, stopCtx := False, dctx := False\<rparr>))"

definition direct_err :: "'e directBody \<Rightarrow> 'e body_error option" where
  "direct_err b =
     (if dcause b \<noteq> None then dcause b
      else if dctx b then map_option CtxErr (req_ctx b) else None)"

definition go_to :: "nat \<Rightarrow> 'e phase \<Rightarrow> 'e directBody \<Rightarrow> 'e directBody" where
  "go_to i p b = b\<lparr>phases := (phases b)(i := p)\<rparr>"

definition return_read :: "nat \<Rightarrow> nat \<Rightarrow> 'e body_error option \<Rightarrow> 'e directBody \<Rightarrow> 'e directBody" where
  "return_read i n err b = (go_to i Idle b)\<lparr>returned := returned b @ [(i, n, err)]\<rparr>"

definition closed_result :: "'e directBody \<Rightarrow> 'e body_error option" where
  "closed_result b = (if dcause b \<noteq> None then dcause b else if dclosed b then Some ReadAfterClose else None)"

inductive direct_step :: "'e directBody \<Rightarrow> 'e directBody \<Rightarrow> bool" where
  context_ends: "req_ctx b = None \<Longrightarrow> direct_step b (b\<lparr>req_ctx := Some e\<rparr>)"
| expire: "direct_step b (snd (finalize (Some (CtxErr DeadlineExceeded)) b))"
| Close: "direct_step b (snd (finalize None b))"
| body_closed: "to_close b > 0 \<Longrightarrow> direct_step b (b\<lparr>to_close := to_close b - 1, raw_closes := raw_closes b + 1\<rparr>)"
| read_refused: "phases b i = Idle \<Longrightarrow> dclosed b \<Longrightarrow> direct_step b (return_read i 0 (closed_result b) b)"
| read_starts: "phases b i = Idle \<Longrightarrow> \<not> dclosed b \<Longrightarrow> direct_step b (go_to i InRead b)"
| read_data: "phases b i = InRead \<Longrightarrow> direct_step b (go_to i (GotData n) b)"
| read_fails: "phases b i = InRead \<Longrightarrow> direct_step b (go_to i (Finishing n (RawErr e)) b)"
| read_asks_context: "phases b i = GotData n \<Longrightarrow>
    direct_step b (go_to i (case req_ctx b of Some e \<Rightarrow> Finishing n (CtxErr e) | None \<Rightarrow> Checking n) b)"
| read_checks: "phases b i = Checking n \<Longrightarrow> direct_step b (return_read i n (closed_result b) b)"
| read_finishes: "phases b i = Finishing n e \<Longrightarrow> finalize (Some e) b = (cause, b') \<Longrightarrow>
    direct_step b (return_read i n cause b')"

inductive direct_steps :: "'e directBody \<Rightarrow> 'e directBody \<Rightarrow> bool" where
  none: "direct_steps b b"
| more: "direct_steps a b \<Longrightarrow> direct_step b c \<Longrightarrow> direct_steps a c"

section \<open>Buffers\<close>

definition Get_buffer :: "nat option \<Rightarrow> nat" where
  "Get_buffer pooled = (case pooled of Some len \<Rightarrow> len | None \<Rightarrow> proxyBufferSize)"

text \<open>The lengths a pool may hand out: a buffer of another capacity is not put back.\<close>

definition Put_buffer :: "nat \<Rightarrow> nat set \<Rightarrow> nat set" where
  "Put_buffer cap lens = (if cap = proxyBufferSize then insert proxyBufferSize lens else lens)"

section \<open>Lemmas\<close>

lemma go_to_fields [simp]:
  "dbody (go_to i p b) = dbody b" "dctx (go_to i p b) = dctx b" "dclosed (go_to i p b) = dclosed b"
  "dcause (go_to i p b) = dcause b" "to_close (go_to i p b) = to_close b" "raw_closes (go_to i p b) = raw_closes b"
  "returned (go_to i p b) = returned b" "req_ctx (go_to i p b) = req_ctx b"
  by (simp_all add: go_to_def)

lemma return_read_fields [simp]:
  "dbody (return_read i n e b) = dbody b" "dctx (return_read i n e b) = dctx b"
  "dclosed (return_read i n e b) = dclosed b" "dcause (return_read i n e b) = dcause b"
  "to_close (return_read i n e b) = to_close b" "raw_closes (return_read i n e b) = raw_closes b"
  "returned (return_read i n e b) = returned b @ [(i, n, e)]" "req_ctx (return_read i n e b) = req_ctx b"
  by (simp_all add: return_read_def)

definition direct_inv :: "'e directBody \<Rightarrow> bool" where
  "direct_inv b \<longleftrightarrow> dbody b = (\<not> dclosed b) \<and> dctx b = (\<not> dclosed b) \<and> (dcause b \<noteq> None \<longrightarrow> dclosed b) \<and>
     to_close b + raw_closes b = (if dclosed b then 1 else 0)"

lemma finalize_inv: "finalize d b = (c, b') \<Longrightarrow> direct_inv b \<Longrightarrow> direct_inv b'"
  by (auto simp: finalize_def direct_inv_def Let_def split: if_splits)

lemma finalize_closed: "dclosed b \<Longrightarrow> finalize d b = (if dcause b = None then d else dcause b, b)"
  by (simp add: finalize_def)

lemma finalize_closes: "finalize d b = (c, b') \<Longrightarrow> dclosed b'"
  by (auto simp: finalize_def Let_def split: if_splits)

lemma direct_step_inv: "direct_step b b' \<Longrightarrow> direct_inv b \<Longrightarrow> direct_inv b'"
proof (induction rule: direct_step.induct)
  case (expire b)
  then show ?case using finalize_inv by (metis prod.collapse)
next
  case (Close b)
  then show ?case using finalize_inv by (metis prod.collapse)
next
  case (read_finishes b i n e cause b')
  then show ?case using finalize_inv [of "Some e" b cause b'] by (simp add: direct_inv_def)
qed (auto simp: direct_inv_def split: option.splits)

lemma direct_steps_inv: "direct_steps b b' \<Longrightarrow> direct_inv b \<Longrightarrow> direct_inv b'"
  by (induction rule: direct_steps.induct) (auto intro: direct_step_inv)

lemma new_direct_inv: "direct_inv newDirectBody"
  by (simp add: direct_inv_def newDirectBody_def)

definition fails_as :: "'e body_error option \<Rightarrow> nat \<times> nat \<times> 'e body_error option \<Rightarrow> bool" where
  "fails_as c r \<longleftrightarrow> (case r of (i, n, e) \<Rightarrow> e \<noteq> None \<and> (c \<noteq> None \<longrightarrow> e = c))"

lemma closed_step:
  assumes "direct_step b b'" "dclosed b"
  shows "dclosed b' \<and> dcause b' = dcause b \<and>
    (returned b' = returned b \<or> (\<exists>r. fails_as (dcause b) r \<and> returned b' = returned b @ [r]))"
  using assms
proof (induction rule: direct_step.induct)
  case (read_refused b i)
  then have "fails_as (dcause b) (i, 0, closed_result b)" by (auto simp: fails_as_def closed_result_def)
  then show ?case using read_refused by auto
next
  case (read_checks b i n)
  then have "fails_as (dcause b) (i, n, closed_result b)" by (auto simp: fails_as_def closed_result_def)
  then show ?case using read_checks by auto
next
  case (read_finishes b i n e cause b')
  then have "b' = b" "fails_as (dcause b) (i, n, cause)"
    by (auto simp: fails_as_def finalize_closed split: if_splits)
  then show ?case using read_finishes by auto
qed (simp_all add: finalize_closed)

lemma closed_steps:
  assumes "direct_steps b b'" "dclosed b"
  shows "dclosed b' \<and> dcause b' = dcause b \<and>
    (\<exists>rs. returned b' = returned b @ rs \<and> (\<forall>r \<in> set rs. fails_as (dcause b) r))"
  using assms
proof (induction rule: direct_steps.induct)
  case (none b)
  then show ?case by simp
next
  case (more a b c)
  then obtain rs where b: "dclosed b" "dcause b = dcause a" "returned b = returned a @ rs"
      "\<forall>r \<in> set rs. fails_as (dcause a) r" by blast
  from closed_step [OF more.hyps(2) b(1)] consider
      "dclosed c" "dcause c = dcause a" "returned c = returned a @ rs"
    | r where "dclosed c" "dcause c = dcause a" "returned c = returned a @ (rs @ [r])" "fails_as (dcause a) r"
    using b by auto
  then show ?case
  proof cases
    case 1
    then show ?thesis using b(4) by blast
  next
    case 2
    have "\<forall>x \<in> set (rs @ [r]). fails_as (dcause a) x" using b(4) 2(4) by simp
    then show ?thesis using 2 by blast
  qed
qed

section \<open>Properties\<close>

text \<open>C19. However the timer, the context, closers and readers race, the upstream's body is closed at
  most once, never while the direct body is open, and exactly once when a closed direct body has no
  close under way.\<close>

theorem direct_body_closes_once:
  assumes "direct_steps newDirectBody b"
  shows "raw_closes b \<le> 1 \<and> (\<not> dclosed b \<longrightarrow> raw_closes b = 0) \<and>
    (dclosed b \<longrightarrow> to_close b = 0 \<longrightarrow> raw_closes b = 1)"
  using direct_steps_inv [OF assms new_direct_inv] by (auto simp: direct_inv_def split: if_splits)

text \<open>Once a direct body is closed, the reason never changes and no read succeeds any more, not
  even one that was under way: each returns the reason, if there was one, and an error anyhow.\<close>

theorem closed_direct_body_reads_fail:
  assumes "direct_steps newDirectBody b" and "dclosed b" and "direct_steps b b'"
  shows "dcause b' = dcause b \<and> (\<exists>rs. returned b' = returned b @ rs \<and>
    (\<forall>(i, n, e) \<in> set rs. e \<noteq> None \<and> (dcause b \<noteq> None \<longrightarrow> e = dcause b)))"
  using closed_steps [OF assms(3,2)] unfolding fails_as_def by blast

text \<open>A run in which the timer ends a read that is under way.\<close>

definition demo_reading :: "unit directBody" where
  "demo_reading = go_to 0 InRead newDirectBody"

definition demo_expired :: "unit directBody" where
  "demo_expired = snd (finalize (Some (CtxErr DeadlineExceeded)) demo_reading)"

definition demo_late :: "unit directBody" where
  "demo_late = return_read 0 5 (Some (CtxErr DeadlineExceeded))
     (go_to 0 (Checking 5) (go_to 0 (GotData 5) demo_expired))"

lemma demo_run: "direct_steps newDirectBody demo_expired" "dclosed demo_expired"
    "direct_steps demo_expired demo_late"
proof -
  have 1: "direct_step newDirectBody demo_reading"
    unfolding demo_reading_def by (rule read_starts) (simp_all add: newDirectBody_def)
  have 2: "direct_step demo_reading demo_expired" unfolding demo_expired_def by (rule expire)
  show "direct_steps newDirectBody demo_expired"
    using direct_steps.none direct_steps.more 1 2 by blast
  show "dclosed demo_expired"
    by (simp add: demo_expired_def demo_reading_def finalize_def newDirectBody_def Let_def)
  have 3: "direct_step demo_expired (go_to 0 (GotData 5) demo_expired)"
    by (rule read_data) (simp add: demo_expired_def demo_reading_def finalize_def newDirectBody_def Let_def go_to_def)
  have 4: "direct_step (go_to 0 (GotData 5) demo_expired) (go_to 0 (Checking 5) (go_to 0 (GotData 5) demo_expired))"
    using read_asks_context [of "go_to 0 (GotData 5) demo_expired" 0 5]
    by (simp add: go_to_def demo_expired_def demo_reading_def finalize_def newDirectBody_def Let_def)
  have 5: "direct_step (go_to 0 (Checking 5) (go_to 0 (GotData 5) demo_expired)) demo_late"
    using read_checks [of "go_to 0 (Checking 5) (go_to 0 (GotData 5) demo_expired)" 0 5]
    by (simp add: demo_late_def closed_result_def)
       (simp add: go_to_def demo_expired_def demo_reading_def finalize_def newDirectBody_def Let_def)
  show "direct_steps demo_expired demo_late"
    using direct_steps.none direct_steps.more 3 4 5 by blast
qed

theorem direct_body_closes_once_witness: "raw_closes demo_expired \<le> 1"
  using direct_body_closes_once [OF demo_run(1)] by simp

theorem closed_direct_body_reads_fail_witness: "dcause demo_late = dcause demo_expired"
  using closed_direct_body_reads_fail [OF demo_run] by blast

text \<open>The deadline's \<open>cancel\<close> runs at most once, and has run after a failed read or a close.\<close>

lemma deadline_done: "once d \<Longrightarrow> fold deadline_step cs d = d"
proof (induction cs)
  case (Cons c cs)
  then show ?case by (cases c) (simp_all add: cancel_once_def)
qed simp

lemma deadline_cancelled_once:
  "cancels (fold deadline_step cs \<lparr>once = False, cancels = 0\<rparr>) =
     (if list_ex (\<lambda>c. c \<noteq> Read_call False) cs then 1 else 0)"
proof (induction cs)
  case (Cons c cs)
  show ?case
  proof (cases "c = Read_call False")
    case False
    then have "deadline_step c \<lparr>once = False, cancels = 0\<rparr> = \<lparr>once = True, cancels = 1\<rparr>"
      by (cases c) (simp_all add: cancel_once_def)
    then show ?thesis using False by (simp add: deadline_done)
  qed (use Cons in simp)
qed simp

end
