(* ===== verification/RequestID.thy ===== *)
theory RequestID
  imports Headers AccessLog Bodies
begin

text \<open>
  \<open>src/request_id.go\<close>: the id of a request, the header of the upstream request and of the client's
  response that carries it, and the writer that owns it. Header maps are \<open>gomap\<close>s in the order an
  iteration takes; \<open>rnd\<close> is what \<open>rand.Read\<close> fills the 16 bytes with, or its error.
\<close>

section \<open>Choosing the id\<close>

definition requestIDHeader :: string where "requestIDHeader = ''X-Request-ID''"

definition is_id_name :: "string \<Rightarrow> bool" where
  "is_id_name name \<longleftrightarrow> name = requestIDHeader \<or> equal_fold name requestIDHeader"

text \<open>The loop of \<open>requestIDFor\<close>: the last single value and the number of values.\<close>

fun collect_ids :: "header \<Rightarrow> string \<Rightarrow> nat \<Rightarrow> string \<times> nat" where
  "collect_ids [] v n = (v, n)"
| "collect_ids ((name, vs) # h) v n =
     (if \<not> is_id_name name then collect_ids h v n
      else collect_ids h (if length vs = 1 then vs ! 0 else v) (n + length vs))"

definition hex_byte :: "char \<Rightarrow> string" where
  "hex_byte c = [hex_char (of_char c div 16), hex_char (of_char c mod 16)]"

definition requestIDFor :: "gerr + string \<Rightarrow> header \<Rightarrow> string res" where
  "requestIDFor rnd h =
     (case collect_ids h [] 0 of (v, count) \<Rightarrow>
        if count = 1 \<and> length v \<ge> 1 \<and> length v \<le> 128 \<and> validMethod v then Inr v
        else rbind (wrap_err ''generate request ID: %w'' [] rnd) (\<lambda>bs. Inr (concat (map hex_byte bs))))"

section \<open>Removing the id\<close>

definition trailerPrefix :: string where "trailerPrefix = ''Trailer:''"

definition carries_id_name :: "string \<Rightarrow> bool" where
  "carries_id_name name \<longleftrightarrow> name = requestIDHeader \<or> equal_fold name requestIDHeader \<or>
     has_prefix name trailerPrefix \<and> equal_fold (trim_prefix name trailerPrefix) requestIDHeader"

definition removeRequestID :: "header \<Rightarrow> header" where
  "removeRequestID h = filter (\<lambda>(name, _). \<not> carries_id_name name) h"

definition kept_tokens :: "string \<Rightarrow> string list" where
  "kept_tokens v = map trim_space (filter (\<lambda>t. \<not> equal_fold (trim_space t) requestIDHeader) (split_on CHR '','' v))"

definition kept_values :: "string list \<Rightarrow> string list" where
  "kept_values vs = map (join_with '', '') (filter (\<lambda>ts. length ts > 0) (map kept_tokens vs))"

fun removeRequestIDTrailer :: "header \<Rightarrow> header" where
  "removeRequestIDTrailer [] = []"
| "removeRequestIDTrailer ((name, vs) # h) =
     (if \<not> equal_fold name ''Trailer'' then (name, vs) # removeRequestIDTrailer h
      else if length (kept_values vs) = 0 then removeRequestIDTrailer h
      else (name, kept_values vs) # removeRequestIDTrailer h)"

definition cleanRequestIDHeaders :: "header \<Rightarrow> header" where
  "cleanRequestIDHeaders h = removeRequestIDTrailer (removeRequestID h)"

text \<open>The id is stored under the name as written, not under its canonical form.\<close>

definition setRequestID :: "request \<Rightarrow> string \<Rightarrow> request" where
  "setRequestID req rid =
     req\<lparr>Header := go_put requestIDHeader [rid] (removeRequestID (Header req)), request_id := Some rid\<rparr>"

definition requestIDFromRequest :: "request \<Rightarrow> string" where
  "requestIDFromRequest req = (case request_id req of Some rid \<Rightarrow> rid | None \<Rightarrow> [])"

section \<open>The writer\<close>

text \<open>
  The handler shares the header map of the wrapped writer: \<open>whdr\<close>. \<open>below\<close> lists the calls passed
  on, each with the header at that moment.
\<close>

record requestIDWriter =
  wid :: string
  committed :: bool
  hijacked :: bool
  upgradeHeaderPrepared :: bool
  whdr :: header
  below :: "(writer_call \<times> header) list"

definition enforce :: "requestIDWriter \<Rightarrow> requestIDWriter" where
  "enforce w = w\<lparr>whdr := header_set requestIDHeader (wid w) (cleanRequestIDHeaders (whdr w))\<rparr>"

definition newRequestIDWriter :: "string \<Rightarrow> header \<Rightarrow> requestIDWriter" where
  "newRequestIDWriter rid h =
     enforce \<lparr>wid = rid, committed = False, hijacked = False, upgradeHeaderPrepared = False, whdr = h, below = []\<rparr>"

definition use_header :: "requestIDWriter \<Rightarrow> requestIDWriter" where
  "use_header w =
     (if committed w then
        if \<not> hijacked w \<or> \<not> upgradeHeaderPrepared w then
          (let w' = w\<lparr>whdr := cleanRequestIDHeaders (whdr w)\<rparr>
           in if hijacked w then w'\<lparr>upgradeHeaderPrepared := True\<rparr> else w')
        else w\<lparr>whdr := header_set requestIDHeader (wid w) (cleanRequestIDHeaders (whdr w))\<rparr>
      else w)"

definition pass_on :: "writer_call \<Rightarrow> requestIDWriter \<Rightarrow> requestIDWriter" where
  "pass_on c w = w\<lparr>below := below w @ [(c, whdr w)]\<rparr>"

fun writer_step :: "writer_call \<Rightarrow> requestIDWriter \<Rightarrow> requestIDWriter" where
  "writer_step (WriteHeader s) w =
     (let w1 = enforce w;
          w2 = (if s = statusSwitchingProtocols \<or> s \<ge> 200 then w1\<lparr>committed := True\<rparr> else w1)
      in pass_on (WriteHeader s) w2)"
| "writer_step (Write data n) w = pass_on (Write data n) ((enforce w)\<lparr>committed := True\<rparr>)"
| "writer_step (FlushError err) w =
     (let w1 = pass_on (FlushError err) (enforce w)
      in if err = Flushed then w1\<lparr>committed := True\<rparr> else w1)"
| "writer_step (Hijack ok) w =
     (let w1 = pass_on (Hijack ok) (enforce w)
      in if ok then w1\<lparr>committed := True, hijacked := True, upgradeHeaderPrepared := False\<rparr> else w1)"

text \<open>What a handler does: take the header map, change the map it holds, or call the writer.\<close>

datatype handler_act = Header_call | Mutate "header \<Rightarrow> header" | Call writer_call

fun act :: "handler_act \<Rightarrow> requestIDWriter \<Rightarrow> requestIDWriter" where
  "act Header_call w = use_header w"
| "act (Mutate f) w = w\<lparr>whdr := f (whdr w)\<rparr>"
| "act (Call c) w = writer_step c w"

section \<open>The proxy\<close>

text \<open>\<open>Close\<close> of \<open>requestIDBody\<close> and \<open>requestIDReadWriteBody\<close>: \<open>wrapped\<close> closes the body below and may fill
  in the trailer.\<close>

definition close_id_body :: "(header \<Rightarrow> 'e option \<times> header) \<Rightarrow> header \<Rightarrow> 'e option \<times> header" where
  "close_id_body wrapped trailer = (case wrapped trailer of (err, t) \<Rightarrow> (err, removeRequestID t))"

record proxied =
  PStatus :: int
  PHeader :: header
  PTrailer :: header
  PRequest :: "request option"
  PBody :: "rbody option"
  PCloses :: nat

type_synonym 'o modify_response = "'o \<Rightarrow> proxied \<Rightarrow> gerr option \<times> proxied"

text \<open>A \<open>Rewrite\<close> reads the incoming request and changes the outgoing one, which may carry more than a
  request; \<open>'s\<close> is the state it shares with other requests. A \<open>ModifyResponse\<close> reads the contexts, \<open>'o\<close>, changes
  the response and may fail; \<open>PCloses\<close> counts the calls of \<open>Close\<close> it makes on the body.\<close>

definition id_rewrite ::
  "(request \<Rightarrow> 'm request_scheme \<Rightarrow> 's \<Rightarrow> 'm request_scheme \<times> 's) \<Rightarrow>
   request \<Rightarrow> 'm request_scheme \<Rightarrow> 's \<Rightarrow> 'm request_scheme \<times> 's" where
  "id_rewrite previous rin out s =
     (let (out', s') = previous rin out s
      in if requestIDFromRequest rin \<noteq> []
         then (out'\<lparr>Header := header_set requestIDHeader (requestIDFromRequest rin) (Header out')\<rparr>, s') else (out', s'))"

definition id_modify :: "'o modify_response option \<Rightarrow> 'o modify_response" where
  "id_modify previous obs r =
     (case (case previous of Some p \<Rightarrow> p obs r | None \<Rightarrow> (None, r)) of
        (Some e, r1) \<Rightarrow> (Some e, r1)
      | (None, r1) \<Rightarrow>
          (let r2 = r1\<lparr>PHeader := cleanRequestIDHeaders (PHeader r1), PTrailer := removeRequestID (PTrailer r1)\<rparr>;
               r3 = (case PRequest r2 of
                       Some q \<Rightarrow> if requestIDFromRequest q \<noteq> []
                                 then r2\<lparr>PHeader := header_set requestIDHeader (requestIDFromRequest q) (PHeader r2)\<rparr>
                                 else r2
                     | None \<Rightarrow> r2)
           in (None, case PBody r3 of
                 None \<Rightarrow> r3
               | Some b \<Rightarrow> if read_write b then r3\<lparr>PBody := Some (requestIDReadWriteBody b)\<rparr>
                           else r3\<lparr>PBody := Some (requestIDBody b)\<rparr>)))"

record ('m, 's, 'o, 't) reverse_proxy =
  Rewrite :: "request \<Rightarrow> 'm request_scheme \<Rightarrow> 's \<Rightarrow> 'm request_scheme \<times> 's"
  ModifyResponse :: "'o modify_response option"
  Transport :: 't

definition enableRequestIDProxy :: "('m, 's, 'o, 't) reverse_proxy \<Rightarrow> ('m, 's, 'o, 't) reverse_proxy" where
  "enableRequestIDProxy p =
     p\<lparr>Rewrite := id_rewrite (Rewrite p), ModifyResponse := Some (id_modify (ModifyResponse p))\<rparr>"

section \<open>Headers that carry exactly the id\<close>

text \<open>The name \<open>Header.Set\<close> stores the id under.\<close>

abbreviation canonical_id :: string where "canonical_id \<equiv> ''X-Request-Id''"

lemma canonical_id: "canonical_key requestIDHeader = canonical_id"
  unfolding requestIDHeader_def by code_simp

lemma id_names [simp]: "carries_id_name requestIDHeader" "carries_id_name canonical_id"
    "requestIDHeader \<noteq> canonical_id" "\<not> equal_fold canonical_id ''Trailer''"
    "\<not> equal_fold requestIDHeader ''Trailer''"
  unfolding requestIDHeader_def carries_id_name_def by code_simp+

definition announces_id :: "header \<Rightarrow> bool" where
  "announces_id h \<longleftrightarrow> list_ex (\<lambda>(name, vs). equal_fold name ''Trailer'' \<and>
     list_ex (\<lambda>v. list_ex (\<lambda>t. equal_fold (trim_space t) requestIDHeader) (split_on CHR '','' v)) vs) h"

text \<open>The fields of a header that name the id in any spelling, as a field or as a trailer.\<close>

definition id_fields :: "header \<Rightarrow> header" where
  "id_fields h = filter (\<lambda>(name, _). carries_id_name name) h"

definition no_id :: "header \<Rightarrow> bool" where
  "no_id h \<longleftrightarrow> id_fields h = [] \<and> \<not> announces_id h"

definition exactly_id :: "string \<Rightarrow> header \<Rightarrow> bool" where
  "exactly_id rid h \<longleftrightarrow> id_fields h = [(canonical_id, [rid])] \<and> \<not> announces_id h"

lemma split_on_no_sep: "c \<notin> set s \<Longrightarrow> split_on c s = [s]"
  by (induction s) auto

lemma split_on_append: "c \<notin> set s \<Longrightarrow> split_on c (s @ c # t) = s # split_on c t"
  by (induction s) auto

lemma split_on_pieces: "t \<in> set (split_on c s) \<Longrightarrow> c \<notin> set t"
  by (induction s arbitrary: t) (auto split: list.splits if_splits)

lemma split_joined:
  "(\<forall>t \<in> set ts. CHR '','' \<notin> set t) \<Longrightarrow> ts \<noteq> [] \<Longrightarrow>
     trim_space ` set (split_on CHR '','' (join_with '', '' ts)) = trim_space ` set ts"
proof (induction "'', '' :: string" ts rule: join_with.induct)
  case 1
  then show ?case by simp
next
  case (2 x)
  then show ?case by (simp add: split_on_no_sep)
next
  case (3 x y ys)
  have x: "CHR '','' \<notin> set x" using 3 by simp
  obtain r rs where r: "split_on CHR '','' (join_with '', '' (y # ys)) = r # rs"
    by (meson list.exhaust split_on_not_Nil)
  have "split_on CHR '','' (join_with '', '' (x # y # ys)) = x # (CHR '' '' # r) # rs"
    using split_on_append [OF x, of "CHR '' '' # join_with '', '' (y # ys)"] r by simp
  moreover have "trim_space ` set (r # rs) = trim_space ` set (y # ys)"
    using 3 unfolding r [symmetric] by simp
  ultimately show ?case by (simp add: trim_space_blank)
qed

lemma kept_tokens_clean:
  assumes "kept_tokens v \<noteq> []" and "t \<in> set (split_on CHR '','' (join_with '', '' (kept_tokens v)))"
  shows "\<not> equal_fold (trim_space t) requestIDHeader"
proof -
  have "\<forall>u \<in> set (kept_tokens v). CHR '','' \<notin> set u"
    unfolding kept_tokens_def using split_on_pieces trim_space_subset by fastforce
  then have "trim_space t \<in> trim_space ` set (kept_tokens v)" using split_joined assms by blast
  then obtain u where "trim_space t = trim_space (trim_space u)"
      "\<not> equal_fold (trim_space u) requestIDHeader"
    unfolding kept_tokens_def by auto
  then show ?thesis by simp
qed

lemma kept_values_clean: "v \<in> set (kept_values vs) \<Longrightarrow> t \<in> set (split_on CHR '','' v) \<Longrightarrow>
    \<not> equal_fold (trim_space t) requestIDHeader"
  using kept_tokens_clean by (auto simp: kept_values_def)

lemma trailer_cleaned: "\<not> announces_id (removeRequestIDTrailer h)"
  by (induction h rule: removeRequestIDTrailer.induct)
     (use kept_values_clean in \<open>auto simp: announces_id_def list_ex_iff Let_def\<close>)

lemma id_fields_trailer: "id_fields h = [] \<Longrightarrow> id_fields (removeRequestIDTrailer h) = []"
  by (induction h rule: removeRequestIDTrailer.induct) (auto simp: id_fields_def split: if_splits)

lemma id_fields_removed: "id_fields (removeRequestID h) = []"
  by (auto simp: id_fields_def removeRequestID_def filter_empty_conv)

lemma cleaned: "no_id (cleanRequestIDHeaders h)"
  by (simp add: no_id_def cleanRequestIDHeaders_def trailer_cleaned id_fields_trailer id_fields_removed)

lemma put_id:
  "no_id h \<Longrightarrow> exactly_id rid (header_set requestIDHeader rid h)"
proof -
  have "id_fields h = [] \<Longrightarrow> id_fields (go_put canonical_id [rid] h) = [(canonical_id, [rid])]"
    by (induction canonical_id "[rid]" h rule: go_put.induct) (auto simp: id_fields_def split: if_splits)
  moreover have "\<not> announces_id h \<Longrightarrow> \<not> announces_id (go_put canonical_id [rid] h)"
    by (induction canonical_id "[rid]" h rule: go_put.induct) (auto simp: announces_id_def)
  ultimately show "no_id h \<Longrightarrow> exactly_id rid (header_set requestIDHeader rid h)"
    by (simp add: no_id_def exactly_id_def header_set_def canonical_id)
qed

lemma enforced: "exactly_id (wid w) (whdr (enforce w))"
  by (simp add: enforce_def put_id cleaned)

section \<open>The chosen id\<close>

definition client_ids :: "header \<Rightarrow> string list" where
  "client_ids h = concat (map snd (filter (\<lambda>(name, _). is_id_name name) h))"

lemma collect_ids_count: "snd (collect_ids h v n) = n + length (client_ids h)"
  by (induction h v n rule: collect_ids.induct) (auto simp: client_ids_def)

lemma collect_ids_value:
  "n + length (client_ids h) = 1 \<Longrightarrow> fst (collect_ids h v n) = (if n = 1 then v else hd (client_ids h))"
proof (induction h v n rule: collect_ids.induct)
  case (1 v n)
  then show ?case by (simp add: client_ids_def)
next
  case (2 name vs h v n)
  show ?case
  proof (cases "is_id_name name")
    case False
    then show ?thesis using 2 by (simp add: client_ids_def)
  next
    case True
    then have ids: "client_ids ((name, vs) # h) = vs @ client_ids h" by (simp add: client_ids_def)
    then have len: "n + length vs + length (client_ids h) = 1" using 2 by simp
    show ?thesis
    proof (cases vs)
      case Nil
      then show ?thesis using 2(2) [OF _ len] True ids by simp
    next
      case (Cons x xs)
      then have "n = 0" "xs = []" "client_ids h = []" using len by auto
      then show ?thesis using 2(2) [OF _ len] True ids Cons by simp
    qed
  qed
qed

lemma hex_valid:
  "validMethod (concat (map hex_byte bs)) \<longleftrightarrow> bs \<noteq> []"
  "length (concat (map hex_byte bs)) = 2 * length bs"
proof -
  have all: "list_all (\<lambda>n. validHeaderNameByte (hex_char n)) [0..<16]" by code_simp
  have h: "validHeaderNameByte (hex_char n)" if "n < 16" for n
    using all that by (auto simp: list_all_iff)
  have d: "(of_char c :: nat) div 16 < 16" "(of_char c :: nat) mod 16 < 16" for c
    using nat_of_char_less_256 [of c] by (simp_all add: div_less_iff_less_mult)
  show "length (concat (map hex_byte bs)) = 2 * length bs" by (induction bs) (simp_all add: hex_byte_def)
  show "validMethod (concat (map hex_byte bs)) \<longleftrightarrow> bs \<noteq> []"
    by (induction bs) (auto simp: validMethod_def hex_byte_def h d)
qed

text \<open>The id is the client's if the client sent exactly one, of 1 to 128 token characters, in
  whatever spelling and order of the fields; otherwise it is 32 hex digits of the random source. In
  both cases it is a valid id, and only a failing random source is an error.\<close>

theorem requestIDFor_chooses:
  assumes "\<And>bs. rnd = Inr bs \<Longrightarrow> length bs = 16"
  shows "requestIDFor rnd h =
      (if length (client_ids h) = 1 \<and> hd (client_ids h) \<noteq> [] \<and> length (hd (client_ids h)) \<le> 128 \<and>
          validMethod (hd (client_ids h))
       then Inr (hd (client_ids h))
       else case rnd of Inl e \<Rightarrow> Inl (Wrap ''generate request ID: %w'' [] e)
                         | Inr bs \<Rightarrow> Inr (concat (map hex_byte bs))) \<and>
    (case requestIDFor rnd h of
       Inl e \<Rightarrow> \<not> is_ok rnd
     | Inr rid \<Rightarrow> 1 \<le> length rid \<and> length rid \<le> 128 \<and> validMethod rid)"
proof -
  obtain v n where c: "collect_ids h [] 0 = (v, n)" by fastforce
  have n: "n = length (client_ids h)" using collect_ids_count [of h "[]" 0] c by simp
  have v: "v = hd (client_ids h)" if "n = 1" using collect_ids_value [of 0 h "[]"] c n that by simp
  have eq: "requestIDFor rnd h =
      (if length (client_ids h) = 1 \<and> hd (client_ids h) \<noteq> [] \<and> length (hd (client_ids h)) \<le> 128 \<and>
          validMethod (hd (client_ids h))
       then Inr (hd (client_ids h))
       else case rnd of Inl e \<Rightarrow> Inl (Wrap ''generate request ID: %w'' [] e)
                         | Inr bs \<Rightarrow> Inr (concat (map hex_byte bs)))"
    unfolding requestIDFor_def c using n v
    by (cases "hd (client_ids h)"; cases rnd) auto
  show ?thesis
  proof (intro conjI eq)
    show "case requestIDFor rnd h of Inl e \<Rightarrow> \<not> is_ok rnd
        | Inr rid \<Rightarrow> 1 \<le> length rid \<and> length rid \<le> 128 \<and> validMethod rid"
      unfolding eq using assms hex_valid
      by (cases "hd (client_ids h)"; cases rnd) (auto simp del: length_concat)
  qed
qed

theorem requestIDFor_chooses_witness:
  "requestIDFor (Inr (replicate 16 CHR 0x1F)) [(''x-request-id'', [''a b'']), (''Accept'', [''*''])] =
     Inr (concat (replicate 16 ''1f''))"
proof -
  have "client_ids [(''x-request-id'', [''a b'']), (''Accept'', [''*''])] = [''a b'']"
    unfolding client_ids_def is_id_name_def requestIDHeader_def by code_simp
  moreover have "\<not> validMethod ''a b''" by code_simp
  moreover have "map hex_byte (replicate 16 CHR 0x1F) = replicate 16 ''1f''"
    by (simp add: hex_byte_def hex_char_def char_eval)
  ultimately show ?thesis
    using requestIDFor_chooses [of "Inr (replicate 16 CHR 0x1F)" "[(''x-request-id'', [''a b'']), (''Accept'', [''*''])]"]
    by simp
qed

section \<open>What the client is sent\<close>

lemma enforce_fields [simp]:
  "wid (enforce w) = wid w" "below (enforce w) = below w" "committed (enforce w) = committed w"
  "hijacked (enforce w) = hijacked w" "upgradeHeaderPrepared (enforce w) = upgradeHeaderPrepared w"
  by (simp_all add: enforce_def)

lemma use_header_fields [simp]:
  "wid (use_header w) = wid w" "below (use_header w) = below w" "committed (use_header w) = committed w"
  "hijacked (use_header w) = hijacked w"
  by (simp_all add: use_header_def Let_def)

lemma writer_step_below:
  "below (writer_step c w) = below w @ [(c, whdr (enforce w))]" "wid (writer_step c w) = wid w"
  by (cases c; simp add: pass_on_def Let_def)+

lemma act_wid [simp]: "wid (act a w) = wid w"
  by (cases a) (simp_all add: writer_step_below)

lemma acts_wid [simp]: "wid (fold act acts w) = wid w"
  by (induction acts arbitrary: w) simp_all

lemma acts_below:
  "\<forall>(c, h) \<in> set (below w). exactly_id (wid w) h \<Longrightarrow>
   \<forall>(c, h) \<in> set (below (fold act acts w)). exactly_id (wid w) h"
proof (induction acts arbitrary: w)
  case Nil
  then show ?case by simp
next
  case (Cons a acts)
  have "\<forall>(c, h) \<in> set (below (act a w)). exactly_id (wid (act a w)) h"
    using Cons.prems enforced [of w] by (cases a) (auto simp: writer_step_below)
  from Cons.IH [OF this] show ?case by simp
qed

lemma act_committed: "committed w \<Longrightarrow> committed (act a w)"
proof (cases a)
  case (Call c)
  then show "committed w \<Longrightarrow> committed (act a w)" by (cases c) (simp_all add: pass_on_def Let_def)
qed simp_all

text \<open>C9. Whatever the handler does to the shared header map and in whatever order it calls the writer,
  every call that reaches the connection finds exactly one id field, with the chosen id under its
  canonical name, and no announcement of the id as a trailer.\<close>

theorem writer_always_sends_id:
  "\<forall>(c, h) \<in> set (below (fold act acts (newRequestIDWriter rid h0))). exactly_id rid h"
  using acts_below [of "newRequestIDWriter rid h0" acts] by (simp add: newRequestIDWriter_def)

theorem writer_always_sends_id_witness:
  "\<exists>h. below (fold act [Mutate (go_put ''x-request-id'' [''b'']), Call (Write ''ok'' 2)] (newRequestIDWriter ''a'' [])) =
     [(Write ''ok'' 2, h)] \<and> exactly_id ''a'' h"
  using writer_always_sends_id [of "[Mutate (go_put ''x-request-id'' [''b'']), Call (Write ''ok'' 2)]" "''a''" "[]"]
  by (simp add: pass_on_def newRequestIDWriter_def)

text \<open>Once the response is committed, the header map a handler takes holds no id in any spelling,
  so that no trailer can carry one. After a hijack the map first comes without an id, to be filled
  with the upstream's header, and then with exactly the chosen id.\<close>

theorem writer_header_after_commit:
  fixes w :: requestIDWriter
  assumes "committed w"
  shows "(\<not> hijacked w \<longrightarrow> no_id (whdr (act Header_call w))) \<and>
    (let w1 = act Header_call (act (Call (Hijack True)) w); w2 = act Header_call (act (Mutate f) w1)
     in no_id (whdr w1) \<and> exactly_id (wid w) (whdr w2))"
  using assms by (auto simp: use_header_def Let_def pass_on_def cleaned put_id)

theorem writer_header_after_commit_witness:
  "no_id (whdr (act Header_call (act (Call (WriteHeader 200)) (newRequestIDWriter ''a'' []))))"
  using writer_header_after_commit [of "act (Call (WriteHeader 200)) (newRequestIDWriter ''a'' [])" "\<lambda>h. h"]
  by (simp add: pass_on_def newRequestIDWriter_def Let_def)

section \<open>What the upstream is sent\<close>

text \<open>C32. The upstream request carries the id twice: \<open>setRequestID\<close> stores it under the name as
  written and the rewriting of the proxy stores it again under the canonical name, so both fields
  are sent whenever the proxy's own rewriting keeps the fields of the client's request.\<close>

theorem upstream_request_carries_id_twice:
  assumes "rid \<noteq> []" and "rin = setRequestID req rid"
    and "previous rin out s = (out1, s1)" and "map_of (Header out1) requestIDHeader = map_of (Header rin) requestIDHeader"
  shows "let sent = fst (Rewrite (enableRequestIDProxy (p\<lparr>Rewrite := previous\<rparr>)) rin out s) in
    map_of (Header sent) requestIDHeader = Some [rid] \<and> map_of (Header sent) canonical_id = Some [rid] \<and>
    \<not> exactly_id rid (Header sent)"
proof -
  define sent where "sent = fst (Rewrite (enableRequestIDProxy (p\<lparr>Rewrite := previous\<rparr>)) rin out s)"
  have h: "Header sent = go_put canonical_id [rid] (Header out1)"
    using assms(1-3) by (simp add: sent_def Let_def enableRequestIDProxy_def id_rewrite_def requestIDFromRequest_def
        setRequestID_def header_set_def canonical_id)
  have raw: "map_of (Header sent) requestIDHeader = Some [rid]"
    using assms(2,4) unfolding h by (simp add: setRequestID_def)
  moreover have "map_of (Header sent) canonical_id = Some [rid]" unfolding h by simp
  moreover have "(requestIDHeader, [rid]) \<in> set (id_fields (Header sent))"
    using map_of_SomeD [OF raw] by (simp add: id_fields_def)
  ultimately show ?thesis unfolding sent_def [symmetric] Let_def
    using id_names(3) by (auto simp: exactly_id_def)
qed

text \<open>The upstream's response can not carry an id of its own to the client.\<close>

theorem proxied_response_carries_id:
  assumes "id_modify previous obs r = (None, r')" and "PRequest r' = Some q" and "requestIDFromRequest q \<noteq> []"
  shows "exactly_id (requestIDFromRequest q) (PHeader r')"
  using assms cleaned put_id
  by (auto simp: id_modify_def Let_def split: option.splits if_splits prod.splits)

definition demo_rewrite :: "request \<Rightarrow> request \<Rightarrow> unit \<Rightarrow> request \<times> unit" where
  "demo_rewrite rin out s = (out\<lparr>Header := Header rin\<rparr>, s)"

definition demo_proxy :: "(unit, unit, unit, unit) reverse_proxy" where
  "demo_proxy = \<lparr>Rewrite = (\<lambda>rin out s. (out, s)), ModifyResponse = None, Transport = ()\<rparr>"

theorem upstream_request_carries_id_twice_witness:
  "map_of (Header (fst (Rewrite (enableRequestIDProxy (demo_proxy\<lparr>Rewrite := demo_rewrite\<rparr>))
     (setRequestID blank_request ''a'') blank_request ()))) canonical_id = Some [''a'']"
  using upstream_request_carries_id_twice [of "''a''" "setRequestID blank_request ''a''" blank_request
      demo_rewrite blank_request "()" "blank_request\<lparr>Header := Header (setRequestID blank_request ''a'')\<rparr>" "()" demo_proxy]
  by (simp add: Let_def demo_rewrite_def)

theorem proxied_response_carries_id_witness:
  "\<exists>r'. id_modify None () \<lparr>PStatus = 200, PHeader = [(''x-request-id'', [''up''])], PTrailer = [],
      PRequest = Some (setRequestID blank_request ''a''), PBody = None, PCloses = 0\<rparr> = (None, r') \<and>
    exactly_id ''a'' (PHeader r')"
proof -
  let ?r = "\<lparr>PStatus = 200, PHeader = [(''x-request-id'', [''up''])], PTrailer = [],
      PRequest = Some (setRequestID blank_request ''a''), PBody = None, PCloses = 0\<rparr>"
  have id: "requestIDFromRequest (setRequestID blank_request ''a'') = ''a''"
    by (simp add: requestIDFromRequest_def setRequestID_def)
  obtain r' where r': "id_modify None () ?r = (None, r')" "PRequest r' = Some (setRequestID blank_request ''a'')"
    by (simp add: id_modify_def Let_def id)
  then show ?thesis using proxied_response_carries_id [OF r'] id by auto
qed

end
