(* ===== verification/Serve.thy ===== *)
theory Serve
  imports RouteMatch RequestID
begin

text \<open>
  Serving one request: \<open>serveRequest\<close>, \<open>serveHTTP\<close>, \<open>serveHTTPRoutes\<close>, \<open>serveResolved\<close>, \<open>serveRejected\<close> and
  \<open>serveGeneratedResponse\<close> of \<open>src/router.go\<close> and \<open>reloadableRouter.ServeHTTP\<close> of \<open>src/main.go\<close>, on top of
  site selection, route selection, request ids and the access log. A reverse proxy is what it does
  with a request: \<open>proxy_run\<close>. The verdict of the rate limiter is an argument; \<open>Admission\<close> models how it
  is reached.
\<close>

section \<open>State\<close>

record generatedResponse =
  GStatus :: int
  GBody :: string
  GHeaders :: responseHeaderPolicy
  Prepared :: header

record 'p router =
  access_log :: bool
  requestID :: bool
  limited :: bool
  sites :: "('p, generatedResponse) site list"
  host_index :: hostIndex

text \<open>What a handler does to the writer, and what it panics with.\<close>

record 'x handled =
  hacts :: "handler_act list"
  hpanic :: "'x option"

text \<open>Where a request went.\<close>

datatype 'p destination = OptionsStar | NoSite | ProxyTo 'p request | Respond generatedResponse | NilProxy | Rejected

record ('p, 'x) serve_env =
  proxy_run :: "'p \<Rightarrow> request \<Rightarrow> 'x handled"
  nil_panic :: 'x
  wrote :: "string \<Rightarrow> nat"
  fmt_time :: "int \<Rightarrow> string"
  req_proto :: string
  start_time :: int
  end_time :: int

text \<open>What the client gets: the calls on the connection with the header at that moment, the header
  when the handler returns, the access-log lines, and the panic that reaches the server.\<close>

record 'x served =
  sent :: "(writer_call \<times> header) list"
  left_header :: header
  lines :: "log_line list"
  repanic :: "'x option"

section \<open>Generated answers\<close>

text \<open>\<open>http.Error\<close>.\<close>

definition error_header :: "header \<Rightarrow> header" where
  "error_header h =
     header_set ''X-Content-Type-Options'' ''nosniff'' (header_set ''Content-Type'' ''text/plain; charset=utf-8''
       (header_del ''Content-Length'' h))"

definition http_error :: "(string \<Rightarrow> nat) \<Rightarrow> string \<Rightarrow> int \<Rightarrow> handler_act list" where
  "http_error wr msg code =
     [Header_call, Mutate error_header, Call (WriteHeader code),
      Call (Write (msg @ [CHR 0x0A]) (wr (msg @ [CHR 0x0A])))]"

definition not_found :: "(string \<Rightarrow> nat) \<Rightarrow> handler_act list" where
  "not_found wr = http_error wr ''404 page not found'' 404"

definition bodyless :: "request \<Rightarrow> generatedResponse \<Rightarrow> bool" where
  "bodyless req g \<longleftrightarrow> Method req = ''HEAD'' \<or> GStatus g = 204 \<or> GStatus g = 205 \<or> GStatus g = 304 \<or>
     length (GBody g) = 0"

definition serveGeneratedResponse :: "(string \<Rightarrow> nat) \<Rightarrow> request \<Rightarrow> generatedResponse \<Rightarrow> handler_act list" where
  "serveGeneratedResponse wr req g =
     concat (map (\<lambda>(name, vs). [Header_call, Mutate (go_put name vs)]) (Prepared g)) @
     [Call (WriteHeader (GStatus g))] @
     (if bodyless req g then [] else [Call (Write (GBody g) (wr (GBody g)))])"

definition prepareGeneratedResponseHeaders :: "responseHeaderPolicy \<Rightarrow> responseHeaderPolicy \<Rightarrow> header" where
  "prepareGeneratedResponseHeaders site gen = applyResponseHeaders [] (applyResponseHeaders [] [] site) gen"

definition maxGeneratedBodyBytes :: nat where "maxGeneratedBodyBytes = 64 * 2 ^ 20"

definition validateGeneratedResponse :: "generatedResponse \<Rightarrow> unit res" where
  "validateGeneratedResponse g =
     (if GStatus g < 200 \<or> GStatus g > 599
      then Inl (Err ''status must be an integer between 200 and 599'' [])
      else if length (GBody g) > maxGeneratedBodyBytes
      then Inl (Err ''body must not exceed %d bytes'' [N (int maxGeneratedBodyBytes)])
      else if (GStatus g = 204 \<or> GStatus g = 205 \<or> GStatus g = 304) \<and> length (GBody g) > 0
      then Inl (Err ''body must be empty for status %d'' [N (GStatus g)])
      else Inr ())"

text \<open>The chain of writers \<open>serveGeneralOptions\<close> unwraps before it bounds the body it discards.\<close>

datatype wrapped = Connection | AccessWriter wrapped | IDWriter wrapped

fun unwrap_all :: "wrapped \<Rightarrow> wrapped" where
  "unwrap_all Connection = Connection"
| "unwrap_all (AccessWriter w) = unwrap_all w"
| "unwrap_all (IDWriter w) = unwrap_all w"

definition writer_chain :: "'p router \<Rightarrow> wrapped" where
  "writer_chain r =
     (let w = (if requestID r then IDWriter Connection else Connection)
      in if access_log r then AccessWriter w else w)"

text \<open>The answer, and the writer that bounds the discarded body with the bound.\<close>

definition serveGeneralOptions :: "wrapped \<Rightarrow> request \<Rightarrow> handler_act list \<times> (wrapped \<times> nat) option" where
  "serveGeneralOptions w req =
     ([Header_call, Mutate (header_set ''Content-Length'' ''0'')],
      if ContentLength req = 0 then None else Some (unwrap_all w, 4 * 1024))"

lemma unwrap_all_reaches_connection [simp]: "unwrap_all w = Connection"
  by (induction w) auto

section \<open>Routing\<close>

definition route_request :: "'p router \<Rightarrow> request \<Rightarrow> 'p destination" where
  "route_request r req =
     (if Method req = ''OPTIONS'' \<and> RequestURI req = ''*'' then OptionsStar
      else case selectSite (map hosts (sites r)) (host_index r) (normalizeHost (Host req)) of
        None \<Rightarrow> NoSite
      | Some i \<Rightarrow>
          (case selectRoute (sites r ! i) req of
             None \<Rightarrow> (case siteProxy (sites r ! i) of None \<Rightarrow> NilProxy | Some p \<Rightarrow> ProxyTo p req)
           | Some c \<Rightarrow>
               (case respond (candRoute c) of
                  Some g \<Rightarrow> Respond g
                | None \<Rightarrow>
                    (let req' = (if strip (candRoute c)
                                 then req\<lparr>URL := stripRequestPath (URL req) (candPrefix c)\<rparr> else req)
                     in case proxy (candRoute c) of None \<Rightarrow> NilProxy | Some p \<Rightarrow> ProxyTo p req'))))"

definition serveHTTPRoutes :: "('p, 'x) serve_env \<Rightarrow> 'p router \<Rightarrow> request \<Rightarrow> 'p destination \<times> 'x handled" where
  "serveHTTPRoutes env r req =
     (let d = route_request r req in (d,
        (case d of
           OptionsStar \<Rightarrow> \<lparr>hacts = fst (serveGeneralOptions (writer_chain r) req), hpanic = None\<rparr>
         | NoSite \<Rightarrow> \<lparr>hacts = not_found (wrote env), hpanic = None\<rparr>
         | ProxyTo p req' \<Rightarrow> proxy_run env p req'
         | Respond g \<Rightarrow> \<lparr>hacts = serveGeneratedResponse (wrote env) req g, hpanic = None\<rparr>
         | NilProxy \<Rightarrow> \<lparr>hacts = [], hpanic = Some (nil_panic env)\<rparr>
         | Rejected \<Rightarrow> \<lparr>hacts = [], hpanic = None\<rparr>)))"

definition write_429 :: "'x handled" where
  "write_429 = \<lparr>hacts = [Call (WriteHeader 429)], hpanic = None\<rparr>"

definition serveHTTP ::
  "('p, 'x) serve_env \<Rightarrow> 'p router \<Rightarrow> bool \<Rightarrow> request \<Rightarrow> 'p destination \<times> 'x handled" where
  "serveHTTP env r admitted req = (if \<not> admitted then (Rejected, write_429) else serveHTTPRoutes env r req)"

section \<open>Writers around a handler\<close>

fun calls_of :: "handler_act list \<Rightarrow> writer_call list" where
  "calls_of [] = []"
| "calls_of (Call c # as) = c # calls_of as"
| "calls_of (a # as) = calls_of as"

fun plain_act :: "handler_act \<Rightarrow> header \<times> (writer_call \<times> header) list \<Rightarrow> header \<times> (writer_call \<times> header) list" where
  "plain_act Header_call s = s"
| "plain_act (Mutate f) (h, cs) = (f h, cs)"
| "plain_act (Call c) (h, cs) = (h, cs @ [(c, h)])"

definition log_lines :: "('p, 'x) serve_env \<Rightarrow> 'p router \<Rightarrow> request \<Rightarrow> 'x handled \<Rightarrow> log_line list" where
  "log_lines env r req h =
     (if access_log r
      then [fst (serveLogged (fmt_time env) (requestID r) (req_proto env) req
              \<lparr>calls = calls_of (hacts h), panic = hpanic h\<rparr> (start_time env) (end_time env))]
      else [])"

text \<open>The handler runs inside \<open>serveLogged\<close>, whose writer passes everything on to the id's writer.\<close>

definition run_with_id :: "('p, 'x) serve_env \<Rightarrow> 'p router \<Rightarrow> string \<Rightarrow> header \<Rightarrow> request \<Rightarrow> 'x handled \<Rightarrow> 'x served" where
  "run_with_id env r rid h0 req h =
     (let w = fold act (hacts h) (newRequestIDWriter rid h0);
          w' = (if hpanic h = None \<and> \<not> committed w then enforce w else w)
      in \<lparr>sent = below w', left_header = whdr w', lines = log_lines env r req h, repanic = hpanic h\<rparr>)"

definition run_plain :: "('p, 'x) serve_env \<Rightarrow> 'p router \<Rightarrow> header \<Rightarrow> request \<Rightarrow> 'x handled \<Rightarrow> 'x served" where
  "run_plain env r h0 req h =
     (let (hd, cs) = fold plain_act (hacts h) (h0, [])
      in \<lparr>sent = cs, left_header = hd, lines = log_lines env r req h, repanic = hpanic h\<rparr>)"

text \<open>No id could be generated.\<close>

definition id_failure :: "('p, 'x) serve_env \<Rightarrow> 'p router \<Rightarrow> header \<Rightarrow> request \<Rightarrow> 'x served" where
  "id_failure env r h0 req =
     (let msg = ''Internal Server Error'';
          (hd, cs) = fold plain_act (http_error (wrote env) msg 500) (h0, [])
      in \<lparr>sent = cs, left_header = hd,
          lines = (if access_log r
                   then [snd (serveRequestIDFailure (fmt_time env) (req_proto env) req
                          (wrote env (msg @ [CHR 0x0A])) (start_time env) (end_time env))] else []),
          repanic = None\<rparr>)"

section \<open>router.ServeHTTP\<close>

definition serveRequest ::
  "('p, 'x) serve_env \<Rightarrow> 'p router \<Rightarrow> gerr + string \<Rightarrow> header \<Rightarrow> request \<Rightarrow>
   (request \<Rightarrow> 'p destination \<times> 'x handled) \<Rightarrow> 'p destination option \<times> 'x served" where
  "serveRequest env r rnd h0 req serve =
     (if requestID r then
        (case requestIDFor rnd (Header req) of
           Inl e \<Rightarrow> (None, id_failure env r h0 req)
         | Inr rid \<Rightarrow>
             (let req' = setRequestID req rid; (d, h) = serve req'
              in (Some d, run_with_id env r rid h0 req' h)))
      else (let (d, h) = serve req in (Some d, run_plain env r h0 req h)))"

definition router_ServeHTTP ::
  "('p, 'x) serve_env \<Rightarrow> 'p router \<Rightarrow> gerr + string \<Rightarrow> bool \<Rightarrow> header \<Rightarrow> request \<Rightarrow>
   'p destination option \<times> 'x served" where
  "router_ServeHTTP env r rnd admitted h0 req = serveRequest env r rnd h0 req (serveHTTP env r admitted)"

section \<open>reloadableRouter.ServeHTTP\<close>

definition serveResolved ::
  "('p, 'x) serve_env \<Rightarrow> 'p router \<Rightarrow> string option \<Rightarrow> header \<Rightarrow> request \<Rightarrow> 'p destination option \<times> 'x served" where
  "serveResolved env r rid h0 req =
     (let (d, h) = serveHTTPRoutes env r req
      in (Some d, (case rid of Some i \<Rightarrow> run_with_id env r i h0 req h | None \<Rightarrow> run_plain env r h0 req h)))"

definition serveRejected ::
  "('p, 'x) serve_env \<Rightarrow> 'p router \<Rightarrow> string \<Rightarrow> header \<Rightarrow> request \<Rightarrow> 'p destination option \<times> 'x served" where
  "serveRejected env r rid h0 req =
     (Some Rejected,
      if requestID r then run_with_id env r rid h0 (setRequestID req rid) write_429
      else run_plain env r h0 req write_429)"

text \<open>\<open>current\<close> is the router of the generation loaded first, \<open>latest\<close> that of the second load, and
  \<open>allowed\<close> the verdict of \<open>admitGeneration\<close>, asked only if \<open>latest\<close> has a limit.\<close>

definition ServeHTTP ::
  "('p, 'x) serve_env \<Rightarrow> 'p router option \<Rightarrow> 'p router option \<Rightarrow> gerr + string \<Rightarrow> bool \<Rightarrow> header \<Rightarrow> request \<Rightarrow>
   'p destination option \<times> 'x served" where
  "ServeHTTP env current latest rnd allowed h0 req =
     (let nothing = (None, \<lparr>sent = [], left_header = h0, lines = [], repanic = None\<rparr>) in
      case current of
        None \<Rightarrow> nothing
      | Some r \<Rightarrow>
          (case (if requestID r then requestIDFor rnd (Header req) else Inr []) of
             Inl e \<Rightarrow> (None, id_failure env r h0 req)
           | Inr rid \<Rightarrow>
               (case latest of
                  None \<Rightarrow> nothing
                | Some l \<Rightarrow>
                    if limited l \<and> \<not> allowed then serveRejected env r rid h0 req
                    else if requestID r then serveResolved env r (Some rid) h0 (setRequestID req rid)
                    else serveResolved env r None h0 req)))"

section \<open>Properties\<close>

text \<open>
  The contract of a response writer with the handlers above it: the calls of the handler, and no
  others, reach the writer below, in their order. It holds for the writer that adds the id and for
  the connection itself, and lets the access log, which observes the handler's calls, record what
  is sent.
\<close>

locale forwarding_writer =
  fixes handle :: "handler_act \<Rightarrow> 'w \<Rightarrow> 'w"
    and delivered :: "'w \<Rightarrow> writer_call list"
  assumes handle_sent: "delivered (handle a w) = delivered w @ calls_of [a]"
begin

lemma all_sent: "delivered (fold handle as w) = delivered w @ calls_of as"
proof (induction as arbitrary: w)
  case (Cons a as)
  then show ?case by (cases a) (simp_all add: handle_sent)
qed simp

lemma observed_is_sent:
  "delivered w = [] \<Longrightarrow> fold observe_call (delivered (fold handle as w)) o0 = fold observe_call (calls_of as) o0"
  by (simp add: all_sent)

end

interpretation id_writer: forwarding_writer act "\<lambda>w. map fst (below w)"
proof
  fix a w
  show "map fst (below (act a w)) = map fst (below w) @ calls_of [a]"
    by (cases a) (simp_all add: writer_step_below)
qed

interpretation plain_writer: forwarding_writer plain_act "\<lambda>w. map fst (snd w)"
proof
  fix a :: handler_act and w :: "header \<times> (writer_call \<times> header) list"
  show "map fst (snd (plain_act a w)) = map fst (snd w) @ calls_of [a]"
    by (cases a; cases w) simp_all
qed

lemma writer_step_committed: "commits c = None \<Longrightarrow> committed (writer_step c w) = committed w"
  by (cases c) (auto simp: pass_on_def Let_def statusSwitchingProtocols_def split: if_splits)

lemma wire_status_Cons: "wire_status (c # cs) = (case commits c of Some s \<Rightarrow> Some s | None \<Rightarrow> wire_status cs)"
  by (simp add: wire_status_def map_filter_simps split: option.splits)

lemma uncommitted: "wire_status (calls_of as) = None \<Longrightarrow> committed (fold act as w) = committed w"
proof (induction as arbitrary: w)
  case (Cons a as)
  then show ?case by (cases a) (auto simp: wire_status_Cons writer_step_committed use_header_def Let_def
      split: option.splits)
qed simp

text \<open>C34. Serving through a generation of the reloadable router is serving through its router: the
  separate code for admission, rejection and ids sends the same calls, headers, log lines and
  upstream requests as \<open>router.ServeHTTP\<close> with the same verdict of the limiter.\<close>

theorem ServeHTTP_is_router_ServeHTTP:
  "ServeHTTP env (Some r) (Some r) rnd allowed h0 req =
   router_ServeHTTP env r rnd (if limited r then allowed else True) h0 req"
  by (cases "requestID r"; cases "requestIDFor rnd (Header req)")
     (auto simp: ServeHTTP_def router_ServeHTTP_def serveRequest_def serveHTTP_def serveRejected_def
       serveResolved_def split: prod.splits)

text \<open>C33. One id per request: with ids enabled, everything that is sent to the client carries the chosen
  id and nothing else as its id, the one access-log line carries it, and so does the request that
  goes to a proxy; a handler that returns without sending anything leaves it in the header that the
  server then sends.\<close>

theorem one_id_per_request:
  assumes "requestID r" and "requestIDFor rnd (Header req) = Inr rid"
  shows "let (d, s) = ServeHTTP env (Some r) (Some l) rnd allowed h0 req in
    (\<forall>(c, h) \<in> set (sent s). exactly_id rid h) \<and>
    (repanic s = None \<and> wire_status (map fst (sent s)) = None \<longrightarrow> exactly_id rid (left_header s)) \<and>
    length (lines s) = (if access_log r then 1 else 0) \<and>
    (\<forall>x \<in> set (lines s). x = WithID (line_record x) rid) \<and>
    (\<forall>p q. d = Some (ProxyTo p q) \<longrightarrow> request_id q = Some rid)"
proof -
  have run: "(\<forall>(c, h) \<in> set (sent s). exactly_id rid h) \<and>
    (repanic s = None \<and> wire_status (map fst (sent s)) = None \<longrightarrow> exactly_id rid (left_header s)) \<and>
    length (lines s) = (if access_log r then 1 else 0) \<and> (\<forall>x \<in> set (lines s). x = WithID (line_record x) rid)"
    if s: "s = run_with_id env r rid h0 (setRequestID req rid) h" for s h
  proof -
    define w where "w = fold act (hacts h) (newRequestIDWriter rid h0)"
    have wid: "wid w = rid" by (simp add: w_def newRequestIDWriter_def)
    have sent: "sent s = below w" by (simp add: s run_with_id_def Let_def w_def)
    have b: "map fst (below w) = calls_of (hacts h)"
      using id_writer.all_sent [of "hacts h" "newRequestIDWriter rid h0"] by (simp add: w_def newRequestIDWriter_def)
    have "\<forall>(c, h) \<in> set (below w). exactly_id rid h"
      using acts_below [of "newRequestIDWriter rid h0" "hacts h"] by (simp add: w_def newRequestIDWriter_def)
    moreover have "exactly_id rid (left_header s)"
      if "repanic s = None" "wire_status (map fst (sent s)) = None"
    proof -
      have "\<not> committed w" using uncommitted [of "hacts h" "newRequestIDWriter rid h0"] that(2) b
        by (simp add: sent w_def newRequestIDWriter_def)
      then have "left_header s = whdr (enforce w)"
        using that(1) by (simp add: s run_with_id_def Let_def w_def)
      then show ?thesis using enforced [of w] wid by simp
    qed
    moreover have "length (lines s) = (if access_log r then 1 else 0)"
        "\<forall>x \<in> set (lines s). x = WithID (line_record x) rid"
      using assms(1) by (auto simp: s run_with_id_def Let_def log_lines_def serveLogged_def setRequestID_def
          line_record_def)
    ultimately show ?thesis unfolding sent by blast
  qed
  have q: "request_id q = Some rid" if "route_request r (setRequestID req rid) = ProxyTo p q" for p q
    using that by (auto simp: route_request_def setRequestID_def Let_def split: if_splits option.splits)
  show ?thesis
  proof (cases "limited l \<and> \<not> allowed")
    case True
    then have "ServeHTTP env (Some r) (Some l) rnd allowed h0 req =
        (Some Rejected, run_with_id env r rid h0 (setRequestID req rid) write_429)"
      using assms by (simp add: ServeHTTP_def serveRejected_def)
    then show ?thesis using run [OF refl] by simp
  next
    case False
    obtain h where "ServeHTTP env (Some r) (Some l) rnd allowed h0 req =
        (Some (route_request r (setRequestID req rid)), run_with_id env r rid h0 (setRequestID req rid) h)"
      using assms False by (auto simp: ServeHTTP_def serveResolved_def serveHTTPRoutes_def Let_def)
    then show ?thesis using run [OF refl] q by simp
  qed
qed

text \<open>A request the limiter refuses is answered 429 and nothing else: it reaches no site, route or
  proxy, sends no body, and is logged with that status.\<close>

theorem refused_request_is_429:
  assumes "limited l" and "\<not> allowed"
    and "requestID r \<Longrightarrow> is_ok (requestIDFor rnd (Header req))"
  shows "let (d, s) = ServeHTTP env (Some r) (Some l) rnd allowed h0 req in
    d = Some Rejected \<and> map fst (sent s) = [WriteHeader 429] \<and> repanic s = None \<and>
    (\<forall>x \<in> set (lines s). RStatus (line_record x) = 429 \<and> Bytes (line_record x) = 0)"
proof -
  define s where "s = snd (serveRejected env r (case requestIDFor rnd (Header req) of Inr rid \<Rightarrow> rid | Inl _ \<Rightarrow> []) h0 req)"
  have "ServeHTTP env (Some r) (Some l) rnd allowed h0 req = serveRejected env r
      (if requestID r then (case requestIDFor rnd (Header req) of Inr rid \<Rightarrow> rid | Inl _ \<Rightarrow> []) else []) h0 req"
    using assms by (auto simp: ServeHTTP_def is_ok_def split: sum.splits)
  then have eq: "ServeHTTP env (Some r) (Some l) rnd allowed h0 req = (Some Rejected, s)"
    by (simp add: s_def serveRejected_def)
  have "map fst (sent s) = [WriteHeader 429]"
    by (simp add: s_def serveRejected_def run_with_id_def run_plain_def write_429_def Let_def
        pass_on_def writer_step_below newRequestIDWriter_def)
  moreover have "repanic s = None"
    by (simp add: s_def serveRejected_def run_with_id_def run_plain_def write_429_def Let_def)
  moreover have "\<forall>x \<in> set (log_lines env r q write_429). RStatus (line_record x) = 429 \<and> Bytes (line_record x) = 0"
    for q
    by (auto simp: log_lines_def write_429_def serveLogged_def Let_def line_record_def newAccessRecord_def
        final_status_def new_observer_def)
  ultimately show ?thesis unfolding eq
    by (auto simp: s_def serveRejected_def run_with_id_def run_plain_def Let_def split: prod.splits if_splits)
qed

section \<open>Examples\<close>

definition demo_router :: "unit router" where
  "demo_router = \<lparr>access_log = True, requestID = True, limited = True, sites = [], host_index = buildHostIndex []\<rparr>"

definition demo_env :: "(unit, unit) serve_env" where
  "demo_env = \<lparr>proxy_run = (\<lambda>_ _. \<lparr>hacts = [], hpanic = None\<rparr>), nil_panic = (), wrote = length,
     fmt_time = (\<lambda>_. []), req_proto = ''HTTP/1.1'', start_time = 0, end_time = 0\<rparr>"

definition demo_req :: request where
  "demo_req = blank_request\<lparr>Header := [(''x-request-id'', [''a''])]\<rparr>"

lemma demo_id: "requestIDFor rnd (Header demo_req) = Inr ''a''"
proof -
  have "is_id_name ''x-request-id''" "validMethod ''a''"
    unfolding is_id_name_def requestIDHeader_def by code_simp+
  then show ?thesis by (simp add: requestIDFor_def demo_req_def)
qed

theorem one_id_per_request_witness:
  "\<exists>x. lines (snd (ServeHTTP demo_env (Some demo_router) (Some demo_router) (Inr []) True [] demo_req)) = [x] \<and>
     x = WithID (line_record x) ''a''"
proof -
  obtain d s where ds: "ServeHTTP demo_env (Some demo_router) (Some demo_router) (Inr []) True [] demo_req = (d, s)"
    by fastforce
  have "requestID demo_router" by (simp add: demo_router_def)
  from one_id_per_request [OF this demo_id, of demo_env demo_router "Inr []" True "[]"] ds
  have "length (lines s) = 1" "\<forall>x \<in> set (lines s). x = WithID (line_record x) ''a''"
    by (simp_all add: demo_router_def)
  then show ?thesis unfolding ds by (cases "lines s") auto
qed

theorem refused_request_is_429_witness:
  "map fst (sent (snd (ServeHTTP demo_env (Some demo_router) (Some demo_router) (Inr []) False [] demo_req))) =
     [WriteHeader 429]"
  using refused_request_is_429 [of demo_router False demo_router "Inr []" demo_req demo_env "[]"] demo_id
  by (auto simp: demo_router_def split: prod.splits)

end
