(* ===== verification/TLS.thy ===== *)
theory TLS
  imports GoNet
begin

text \<open>
  \<open>src/tls.go\<close>: the PEM files of an upstream connection and the server name. Files, PEM decoding,
  certificates and hashes are what \<open>os\<close>, \<open>encoding/pem\<close>, \<open>crypto/x509\<close>, \<open>crypto/tls\<close> and \<open>crypto/sha256\<close>
  give: the fields of \<open>crypto\<close>. All that is relied on is that \<open>pem.Decode\<close> returns a proper rest of its
  input: \<open>pem_consumes\<close>.
\<close>

section \<open>Files, PEM and certificates\<close>

record pem_block =
  block_type :: string
  block_bytes :: string

record ('x, 'k) crypto =
  read_file :: "string \<Rightarrow> string option"
  sha256 :: "string \<Rightarrow> string"
  pem_decode :: "string \<Rightarrow> (pem_block \<times> string) option"
  pem_encode :: "pem_block \<Rightarrow> string"
  parse_cert :: "string \<Rightarrow> 'x option"
  key_pair :: "string \<Rightarrow> string \<Rightarrow> 'k option"
  system_pool :: "'x list"

definition pem_consumes :: "('x, 'k) crypto \<Rightarrow> bool" where
  "pem_consumes env \<longleftrightarrow> (\<forall>d b r. pem_decode env d = Some (b, r) \<longrightarrow> length r < length d)"

definition begin_mark :: string where "begin_mark = ''-----BEGIN ''"

definition zero_hash :: string where "zero_hash = replicate 32 (CHR 0x00)"

definition skip_space :: "string \<Rightarrow> string" where
  "skip_space s = trim_front space_len s"

record ('x, 'k) upstreamTLSConfig =
  CAPath :: string
  RootCAs :: "'x list option"
  CAHash :: string
  ServerName :: string
  CertPath :: string
  KeyPath :: string
  ClientCert :: "'k option"
  CertHash :: string
  KeyHash :: string

record tlsConfig =
  Cert :: string
  Key :: string

section \<open>The three PEM readers\<close>

text \<open>Every turn of a loop consumes a block, so fuel of one more than the length is enough.\<close>

definition out_of_fuel :: gerr where "out_of_fuel = Err ''fuel'' []"

definition bad_cert :: gerr where "bad_cert = Err ''invalid certificate PEM'' []"
definition bad_key :: gerr where "bad_key = Err ''invalid private key PEM'' []"
definition bad_combined :: gerr where "bad_combined = Err ''invalid combined PEM'' []"

fun cert_loop :: "('x, 'k) crypto \<Rightarrow> nat \<Rightarrow> string \<Rightarrow> string \<Rightarrow> nat \<Rightarrow> string res" where
  "cert_loop env 0 remaining encoded n = Inl out_of_fuel"
| "cert_loop env (Suc f) remaining encoded n =
     (let rem = skip_space remaining in
      if length rem = 0 then (if n = 0 then Inl bad_cert else Inr encoded)
      else if \<not> has_prefix rem begin_mark then Inl bad_cert
      else case pem_decode env rem of
        None \<Rightarrow> Inl bad_cert
      | Some (b, rest) \<Rightarrow>
          if block_type b \<noteq> ''CERTIFICATE'' then Inl bad_cert
          else if parse_cert env (block_bytes b) = None then Inl bad_cert
          else cert_loop env f rest (encoded @ pem_encode env b) (n + 1))"

definition validateClientCertificatePEM :: "('x, 'k) crypto \<Rightarrow> string \<Rightarrow> string res" where
  "validateClientCertificatePEM env data = cert_loop env (length data + 1) data [] 0"

definition validClientKeyBlockType :: "string \<Rightarrow> bool" where
  "validClientKeyBlockType t \<longleftrightarrow> t = ''PRIVATE KEY'' \<or> has_suffix t '' PRIVATE KEY''"

definition validateClientKeyPEM :: "('x, 'k) crypto \<Rightarrow> string \<Rightarrow> string res" where
  "validateClientKeyPEM env data =
     (let d = skip_space data in
      if \<not> has_prefix d begin_mark then Inl bad_key
      else case pem_decode env d of
        None \<Rightarrow> Inl bad_key
      | Some (b, rest) \<Rightarrow>
          if \<not> validClientKeyBlockType (block_type b) \<or> length (trim_space rest) \<noteq> 0 then Inl bad_key
          else Inr (pem_encode env b))"

text \<open>The key found so far is \<open>Some\<close> once \<open>seenKey\<close> is set.\<close>

fun combined_loop ::
  "('x, 'k) crypto \<Rightarrow> nat \<Rightarrow> string \<Rightarrow> string \<Rightarrow> string option \<Rightarrow> nat \<Rightarrow> (string \<times> string) res" where
  "combined_loop env 0 remaining certs key n = Inl out_of_fuel"
| "combined_loop env (Suc f) remaining certs key n =
     (let rem = skip_space remaining in
      if length rem = 0 then
        (case key of Some k \<Rightarrow> if n = 0 then Inl bad_combined else Inr (certs, k) | None \<Rightarrow> Inl bad_combined)
      else if \<not> has_prefix rem begin_mark then Inl bad_combined
      else case pem_decode env rem of
        None \<Rightarrow> Inl bad_combined
      | Some (b, rest) \<Rightarrow>
          if validClientKeyBlockType (block_type b) then
            (if key \<noteq> None then Inl bad_combined
             else combined_loop env f rest certs (Some (pem_encode env b)) n)
          else if key \<noteq> None \<or> block_type b \<noteq> ''CERTIFICATE'' then Inl bad_combined
          else if parse_cert env (block_bytes b) = None then Inl bad_combined
          else combined_loop env f rest (certs @ pem_encode env b) key (n + 1))"

definition splitCombinedClientPEM :: "('x, 'k) crypto \<Rightarrow> string \<Rightarrow> (string \<times> string) res" where
  "splitCombinedClientPEM env data = combined_loop env (length data + 1) data [] None 0"

fun pool_loop :: "('x, 'k) crypto \<Rightarrow> nat \<Rightarrow> string \<Rightarrow> 'x list \<Rightarrow> nat \<Rightarrow> 'x list res" where
  "pool_loop env 0 data pool n = Inl out_of_fuel"
| "pool_loop env (Suc f) data pool n =
     (if length (trim_space data) = 0 then
        (if n = 0 then Inl (Err ''no certificates found'' []) else Inr pool)
      else let d = skip_space data in
        if \<not> has_prefix d begin_mark then Inl (Err ''invalid PEM'' [])
        else case pem_decode env d of
          None \<Rightarrow> Inl (Err ''invalid PEM'' [])
        | Some (b, rest) \<Rightarrow>
            if block_type b \<noteq> ''CERTIFICATE'' then Inl (Err ''PEM contains a non-certificate block'' [])
            else (case parse_cert env (block_bytes b) of
                    None \<Rightarrow> Inl (Err ''invalid certificate'' [])
                  | Some c \<Rightarrow> pool_loop env f rest (pool @ [c]) (n + 1)))"

definition parseUpstreamCAPool :: "('x, 'k) crypto \<Rightarrow> string \<Rightarrow> 'x list res" where
  "parseUpstreamCAPool env data = pool_loop env (length data + 1) data (system_pool env) 0"

section \<open>Loading\<close>

record 'k upstreamClientMaterial =
  mcert :: 'k
  mcertHash :: string
  mkeyHash :: string

definition loadUpstreamClientMaterial :: "('x, 'k) crypto \<Rightarrow> string \<Rightarrow> string \<Rightarrow> 'k upstreamClientMaterial res" where
  "loadUpstreamClientMaterial env certPath keyPath =
     (let invalid = Err ''tls.cert %q/tls.key %q: invalid PEM or certificate/key pair'' [S certPath, S keyPath] in
      case read_file env certPath of
        None \<Rightarrow> Inl (Err ''tls.cert %q: read failed'' [S certPath])
      | Some certData \<Rightarrow>
          (let pems = (if certPath = keyPath
             then (case splitCombinedClientPEM env certData of
                     Inl e \<Rightarrow> Inl invalid
                   | Inr (c, k) \<Rightarrow> Inr (c, k, sha256 env certData))
             else (case validateClientCertificatePEM env certData of
                     Inl e \<Rightarrow> Inl invalid
                   | Inr c \<Rightarrow>
                       (case read_file env keyPath of
                          None \<Rightarrow> Inl (Err ''tls.key %q: read failed'' [S keyPath])
                        | Some keyData \<Rightarrow>
                            (case validateClientKeyPEM env keyData of
                               Inl e \<Rightarrow> Inl invalid
                             | Inr k \<Rightarrow> Inr (c, k, sha256 env keyData)))))
           in rbind pems (\<lambda>(c, k, keyHash).
             case key_pair env c k of
               None \<Rightarrow> Inl (Err ''tls.cert %q/tls.key %q: invalid certificate/key pair'' [S certPath, S keyPath])
             | Some p \<Rightarrow> Inr \<lparr>mcert = p, mcertHash = sha256 env certData, mkeyHash = keyHash\<rparr>)))"

definition load_ca :: "('x, 'k) crypto \<Rightarrow> ('x, 'k) upstreamTLSConfig \<Rightarrow> ('x, 'k) upstreamTLSConfig res" where
  "load_ca env config =
     (if CAPath config \<noteq> [] \<and> RootCAs config = None then
        (case read_file env (CAPath config) of
           None \<Rightarrow> Inl (Err ''tls.ca %q: read failed'' [S (CAPath config)])
         | Some data \<Rightarrow>
             rbind (wrap_err ''tls.ca %q: %w'' [S (CAPath config)] (parseUpstreamCAPool env data)) (\<lambda>pool.
               Inr (config\<lparr>RootCAs := Some pool, CAHash := sha256 env data\<rparr>)))
      else Inr config)"

text \<open>A nil configuration stays nil; a configuration with nothing to load is returned as it is.\<close>

definition loadUpstreamTLS ::
  "('x, 'k) crypto \<Rightarrow> ('x, 'k) upstreamTLSConfig option \<Rightarrow> ('x, 'k) upstreamTLSConfig option res" where
  "loadUpstreamTLS env cfg =
     (case cfg of
        None \<Rightarrow> Inr None
      | Some config \<Rightarrow>
          rbind (load_ca env config) (\<lambda>loaded.
            if CertPath config \<noteq> [] \<and> ClientCert config = None then
              rbind (loadUpstreamClientMaterial env (CertPath config) (KeyPath config)) (\<lambda>m.
                Inr (Some (loaded\<lparr>ClientCert := Some (mcert m), CertHash := mcertHash m, KeyHash := mkeyHash m\<rparr>)))
            else Inr (Some loaded)))"

definition loadTLSCertificate :: "(string \<Rightarrow> string \<Rightarrow> gerr + 'k) \<Rightarrow> tlsConfig option \<Rightarrow> 'k option res" where
  "loadTLSCertificate load config =
     (case config of
        None \<Rightarrow> Inr None
      | Some c \<Rightarrow> rbind (wrap_err ''load tls certificate: %w'' [] (load (Cert c) (Key c))) (\<lambda>k. Inr (Some k)))"

section \<open>Server names\<close>

definition label_byte :: "char \<Rightarrow> bool" where
  "label_byte c \<longleftrightarrow> is_lower c \<or> is_upper c \<or> is_digit c \<or> c = CHR ''-''"

definition bad_name :: gerr where "bad_name = Err ''must be an ASCII DNS hostname or IP literal'' []"

fun check_labels :: "string list \<Rightarrow> unit res" where
  "check_labels [] = Inr ()"
| "check_labels (l # ls) =
     (if length l = 0 \<or> length l > 63 \<or> hd l = CHR ''-'' \<or> last l = CHR ''-'' then Inl bad_name
      else if \<not> list_all label_byte l then Inl bad_name
      else check_labels ls)"

definition validateUpstreamServerName :: "string \<Rightarrow> unit res" where
  "validateUpstreamServerName name =
     (case parse_addr name of
        Some a \<Rightarrow>
          if addr_zone a \<noteq> [] \<or> contains_byte name CHR ''%''
          then Inl (Err ''must be a DNS hostname or IP literal without a zone'' []) else Inr ()
      | None \<Rightarrow>
          if length name > 253 \<or> has_suffix name ''.'' then Inl bad_name
          else check_labels (split_on CHR ''.'' name))"

section \<open>What the readers accept\<close>

text \<open>The blocks the readers see in a file: after white space the mark of a block, then the block
  \<open>pem.Decode\<close> finds from there. The readers test the mark only; \<open>pem.Decode\<close> may skip bytes between
  that mark and the block it returns, and these are not in the list.\<close>

inductive pem_file :: "('x, 'k) crypto \<Rightarrow> string \<Rightarrow> pem_block list \<Rightarrow> bool" for env where
  no_block: "skip_space d = [] \<Longrightarrow> pem_file env d []"
| block: "skip_space d \<noteq> [] \<Longrightarrow> has_prefix (skip_space d) begin_mark \<Longrightarrow>
    pem_decode env (skip_space d) = Some (b, rest) \<Longrightarrow> pem_file env rest bs \<Longrightarrow> pem_file env d (b # bs)"

inductive_simps pem_file_Nil: "pem_file env d []"
inductive_simps pem_file_Cons: "pem_file env d (b # bs)"
inductive_cases pem_fileE: "pem_file env d bs"

definition good_cert :: "('x, 'k) crypto \<Rightarrow> pem_block \<Rightarrow> bool" where
  "good_cert env b \<longleftrightarrow> block_type b = ''CERTIFICATE'' \<and> parse_cert env (block_bytes b) \<noteq> None"

lemma skip_space_length: "length (skip_space d) \<le> length d"
  unfolding skip_space_def using trim_front_suffix [of space_len d] by auto

lemma rest_shorter:
  "pem_consumes env \<Longrightarrow> pem_decode env (skip_space d) = Some (b, rest) \<Longrightarrow> length rest < length d"
  using skip_space_length [of d] by (fastforce simp: pem_consumes_def)

lemma cert_not_key: "\<not> validClientKeyBlockType ''CERTIFICATE''"
  by (simp add: validClientKeyBlockType_def has_suffix_def)

text \<open>The same as a function, on which the loops agree.\<close>

fun read_blocks :: "('x, 'k) crypto \<Rightarrow> nat \<Rightarrow> string \<Rightarrow> pem_block list option" where
  "read_blocks env 0 d = None"
| "read_blocks env (Suc f) d =
     (if skip_space d = [] then Some []
      else if \<not> has_prefix (skip_space d) begin_mark then None
      else case pem_decode env (skip_space d) of
        None \<Rightarrow> None
      | Some (b, rest) \<Rightarrow> map_option (\<lambda>bs. b # bs) (read_blocks env f rest))"

lemma read_blocks_iff:
  assumes "pem_consumes env"
  shows "length d < f \<Longrightarrow> read_blocks env f d = Some bs \<longleftrightarrow> pem_file env d bs"
proof (induction f arbitrary: d bs)
  case 0
  then show ?case by simp
next
  case (Suc f)
  show ?case
  proof (cases bs)
    case Nil
    then show ?thesis by (auto simp: pem_file_Nil split: option.splits)
  next
    case (Cons b bs')
    have "read_blocks env f rest = Some bs' \<longleftrightarrow> pem_file env rest bs'"
      if "pem_decode env (skip_space d) = Some (b, rest)" for rest
      using Suc.IH [of rest bs'] Suc.prems rest_shorter [OF assms that] by simp
    then show ?thesis unfolding Cons by (auto simp: pem_file_Cons split: option.splits)
  qed
qed

lemma cert_loop_iff:
  "cert_loop env f d enc n = Inr r \<longleftrightarrow>
    (\<exists>bs. read_blocks env f d = Some bs \<and> list_all (good_cert env) bs \<and> 0 < n + length bs \<and>
       r = enc @ concat (map (pem_encode env) bs))"
  by (induction env f d enc n rule: cert_loop.induct)
     (auto simp: Let_def good_cert_def split: option.splits)

lemma pool_loop_iff:
  "pool_loop env f d pool n = Inr r \<longleftrightarrow>
    (\<exists>bs. read_blocks env f d = Some bs \<and> list_all (good_cert env) bs \<and> 0 < n + length bs \<and>
       r = pool @ map (\<lambda>b. the (parse_cert env (block_bytes b))) bs)"
  by (induction env f d pool n rule: pool_loop.induct)
     (auto simp: Let_def good_cert_def trim_space_empty skip_space_def split: option.splits)

lemma combined_after_key:
  "combined_loop env f d certs (Some k0) n = Inr (c, k) \<longleftrightarrow>
     read_blocks env f d = Some [] \<and> 0 < n \<and> c = certs \<and> k = k0"
  by (cases f) (auto simp: Let_def split: option.splits)

definition split_at_key ::
  "('x, 'k) crypto \<Rightarrow> pem_block list \<Rightarrow> nat \<Rightarrow> string \<Rightarrow> string \<Rightarrow> string \<Rightarrow> bool" where
  "split_at_key env bs n certs c k \<longleftrightarrow> (\<exists>cs kb. bs = cs @ [kb] \<and> list_all (good_cert env) cs \<and>
     validClientKeyBlockType (block_type kb) \<and> 0 < n + length cs \<and>
     c = certs @ concat (map (pem_encode env) cs) \<and> k = pem_encode env kb)"

lemma split_at_key_Cons:
  "split_at_key env (b # bs) n certs c k \<longleftrightarrow>
     (if validClientKeyBlockType (block_type b) then bs = [] \<and> 0 < n \<and> c = certs \<and> k = pem_encode env b
      else good_cert env b \<and> split_at_key env bs (n + 1) (certs @ pem_encode env b) c k)"
proof (cases "validClientKeyBlockType (block_type b)")
  case True
  then have "\<not> good_cert env b" using cert_not_key by (auto simp: good_cert_def)
  then show ?thesis using True by (auto simp: split_at_key_def Cons_eq_append_conv)
next
  case False
  have "split_at_key env (b # bs) n certs c k \<longleftrightarrow> (\<exists>cs kb. bs = cs @ [kb] \<and> list_all (good_cert env) (b # cs) \<and>
     validClientKeyBlockType (block_type kb) \<and> c = certs @ concat (map (pem_encode env) (b # cs)) \<and> k = pem_encode env kb)"
    unfolding split_at_key_def Cons_eq_append_conv using False by auto
  then show ?thesis using False by (auto simp: split_at_key_def)
qed

lemma combined_loop_iff:
  "combined_loop env f d certs None n = Inr (c, k) \<longleftrightarrow>
     (\<exists>bs. read_blocks env f d = Some bs \<and> split_at_key env bs n certs c k)"
proof (induction f arbitrary: d certs n)
  case 0
  then show ?case by simp
next
  case (Suc f)
  have nil: "\<not> split_at_key env [] n certs c k" by (simp add: split_at_key_def)
  consider "skip_space d = []" | "skip_space d \<noteq> []" "\<not> has_prefix (skip_space d) begin_mark \<or> pem_decode env (skip_space d) = None"
    | b rest where "skip_space d \<noteq> []" "has_prefix (skip_space d) begin_mark" "pem_decode env (skip_space d) = Some (b, rest)"
    by fastforce
  then show ?case
  proof cases
    case 3
    then have r: "read_blocks env (Suc f) d = map_option (\<lambda>bs. b # bs) (read_blocks env f rest)" by simp
    show ?thesis
    proof (cases "validClientKeyBlockType (block_type b)")
      case True
      then have "combined_loop env (Suc f) d certs None n = combined_loop env f rest certs (Some (pem_encode env b)) n"
        using 3 by (simp add: Let_def)
      then show ?thesis using True unfolding r by (auto simp: combined_after_key split_at_key_Cons)
    next
      case False
      then show ?thesis using 3 Suc.IH [of rest] unfolding r
        by (auto simp: split_at_key_Cons good_cert_def Let_def)
    qed
  qed (auto simp: nil Let_def split: option.splits)
qed

section \<open>Properties\<close>

lemma skip_space_eval: "skip_space [] = []" "skip_space (CHR ''-'' # s) = CHR ''-'' # s"
proof -
  have "\<not> space_rune (CHR ''-'' # t)" for t
    by (auto simp: space_rune_def take_Cons')
  then have "space_len (CHR ''-'' # s) = 0" by (simp add: space_len_def is_space_def)
  then show "skip_space (CHR ''-'' # s) = CHR ''-'' # s" by (simp add: skip_space_def trim_front_id)
  show "skip_space [] = []" by (simp add: skip_space_def trim_front.simps)
qed

lemma skip_space_mark: "has_prefix d begin_mark \<Longrightarrow> skip_space d = d"
  by (auto simp: has_prefix_iff begin_mark_def skip_space_eval)

text \<open>A file that starts with the mark of a malformed block is accepted with it: where \<open>pem.Decode\<close>
  skips the bytes \<open>junk\<close> to find the block that starts at \<open>d\<close>, the reader accepts \<open>junk @ d\<close> exactly
  if it accepts \<open>d\<close>, with the same pool.\<close>

lemma pool_accepts_skipped_bytes:
  assumes "pem_consumes env" and "has_prefix junk begin_mark" and "has_prefix d begin_mark"
    and "pem_decode env (junk @ d) = pem_decode env d"
  shows "parseUpstreamCAPool env (junk @ d) = Inr pool \<longleftrightarrow> parseUpstreamCAPool env d = Inr pool"
proof -
  have mark: "has_prefix (junk @ d) begin_mark" using assms(2) by (auto simp: has_prefix_iff)
  have "pem_file env (junk @ d) bs \<longleftrightarrow> pem_file env d bs" for bs
    using assms(3,4) mark skip_space_mark [OF mark] skip_space_mark [OF assms(3)]
    by (cases bs) (auto simp: pem_file_Nil pem_file_Cons has_prefix_iff begin_mark_def)
  then have "read_blocks env (length (junk @ d) + 1) (junk @ d) = Some bs \<longleftrightarrow>
      read_blocks env (length d + 1) d = Some bs" for bs
    using read_blocks_iff [OF assms(1) less_add_one] by (simp only:)
  then show ?thesis unfolding parseUpstreamCAPool_def pool_loop_iff by (simp only:)
qed

text \<open>C36. A file of authorities is accepted exactly if it can be read to its end in one or more
  pieces, where each piece starts, after white space, with the mark \<open>-----BEGIN \<close>, and \<open>pem.Decode\<close>
  called there returns a certificate block that parses; after the last one only white space may
  follow. The pool is then the system's with these certificates, in order. This does not exclude
  the bytes that \<open>pem.Decode\<close> itself skips: where it skips \<open>junk\<close>, a malformed block with its mark, to find
  the block that starts at \<open>data\<close>, the file \<open>junk @ data\<close> is accepted exactly if \<open>data\<close> is, with the same
  pool, although \<open>docs/specs/v0.19.txt\<close> wants malformed blocks rejected.\<close>

theorem parseUpstreamCAPool_accepts_iff:
  assumes "pem_consumes env"
  shows "(parseUpstreamCAPool env data = Inr pool \<longleftrightarrow>
    (\<exists>bs. pem_file env data bs \<and> bs \<noteq> [] \<and> list_all (good_cert env) bs \<and>
       pool = system_pool env @ map (\<lambda>b. the (parse_cert env (block_bytes b))) bs)) \<and>
    (has_prefix junk begin_mark \<and> has_prefix data begin_mark \<and>
     pem_decode env (junk @ data) = pem_decode env data \<longrightarrow>
       (parseUpstreamCAPool env (junk @ data) = Inr pool \<longleftrightarrow> parseUpstreamCAPool env data = Inr pool))"
proof (rule conjI)
  show "parseUpstreamCAPool env data = Inr pool \<longleftrightarrow>
    (\<exists>bs. pem_file env data bs \<and> bs \<noteq> [] \<and> list_all (good_cert env) bs \<and>
       pool = system_pool env @ map (\<lambda>b. the (parse_cert env (block_bytes b))) bs)"
    unfolding parseUpstreamCAPool_def pool_loop_iff
    using read_blocks_iff [OF assms, of data "length data + 1"] by auto
qed (use pool_accepts_skipped_bytes [OF assms] in blast)

text \<open>A combined file is accepted exactly if it holds one or more certificates that parse and after
  them one private key and nothing else; the two results are the certificates and the key. A file of
  certificates alone is accepted exactly if it holds at least one and no other block.\<close>

theorem client_pem_accepts_iff:
  assumes "pem_consumes env"
  shows "(splitCombinedClientPEM env data = Inr (c, k) \<longleftrightarrow>
     (\<exists>cs kb. pem_file env data (cs @ [kb]) \<and> cs \<noteq> [] \<and> list_all (good_cert env) cs \<and>
        validClientKeyBlockType (block_type kb) \<and> c = concat (map (pem_encode env) cs) \<and> k = pem_encode env kb)) \<and>
    (validateClientCertificatePEM env data = Inr c \<longleftrightarrow>
     (\<exists>cs. pem_file env data cs \<and> cs \<noteq> [] \<and> list_all (good_cert env) cs \<and>
        c = concat (map (pem_encode env) cs)))"
  unfolding splitCombinedClientPEM_def validateClientCertificatePEM_def combined_loop_iff cert_loop_iff split_at_key_def
  using read_blocks_iff [OF assms, of data "length data + 1"] by auto

text \<open>An environment for examples: a block is its mark, one letter of its type, one of its content and a
  full stop.\<close>

definition demo_crypto :: "(string, string) crypto" where
  "demo_crypto = \<lparr>read_file = (\<lambda>_. None), sha256 = (\<lambda>_. zero_hash),
     pem_decode = (\<lambda>d. if has_prefix d (begin_mark @ ''C'') then Some (\<lparr>block_type = ''CERTIFICATE'', block_bytes = take 1 (drop 12 d)\<rparr>, drop 13 d)
        else if has_prefix d (begin_mark @ ''K'') then Some (\<lparr>block_type = ''PRIVATE KEY'', block_bytes = take 1 (drop 12 d)\<rparr>, drop 13 d)
        else None),
     pem_encode = block_bytes, parse_cert = Some, key_pair = (\<lambda>c k. Some k), system_pool = [''sys'']\<rparr>"

lemma demo_consumes: "pem_consumes demo_crypto"
  by (auto simp: pem_consumes_def demo_crypto_def has_prefix_iff split: if_splits)

lemma demo_decode:
  "pem_decode demo_crypto (CHR ''-'' # ''----BEGIN Cx'' @ s) = Some (\<lparr>block_type = ''CERTIFICATE'', block_bytes = ''x''\<rparr>, s)"
  "pem_decode demo_crypto (CHR ''-'' # ''----BEGIN Kz'' @ s) = Some (\<lparr>block_type = ''PRIVATE KEY'', block_bytes = ''z''\<rparr>, s)"
  by (simp_all add: demo_crypto_def has_prefix_def begin_mark_def)

lemma demo_blocks:
  "pem_file demo_crypto (CHR ''-'' # ''----BEGIN Cx'' @ s) bs \<longleftrightarrow>
     (\<exists>bs'. bs = \<lparr>block_type = ''CERTIFICATE'', block_bytes = ''x''\<rparr> # bs' \<and> pem_file demo_crypto s bs')"
  "pem_file demo_crypto (CHR ''-'' # ''----BEGIN Kz'' @ s) bs \<longleftrightarrow>
     (\<exists>bs'. bs = \<lparr>block_type = ''PRIVATE KEY'', block_bytes = ''z''\<rparr> # bs' \<and> pem_file demo_crypto s bs')"
  "pem_file demo_crypto [] bs \<longleftrightarrow> bs = []"
  using demo_decode [of s]
  by (cases bs; auto simp: pem_file_Nil pem_file_Cons skip_space_eval has_prefix_def begin_mark_def)+

text \<open>A decoder that skips a malformed block of one question mark.\<close>

definition skipping_crypto :: "(string, string) crypto" where
  "skipping_crypto = demo_crypto\<lparr>pem_decode := (\<lambda>d.
     pem_decode demo_crypto (if has_prefix d (begin_mark @ ''?'') then drop 12 d else d))\<rparr>"

lemma skipping_consumes: "pem_consumes skipping_crypto"
proof -
  have "length r < length d" if "pem_decode skipping_crypto d = Some (b, r)" for d b r
    using that demo_consumes unfolding pem_consumes_def skipping_crypto_def
    by (fastforce split: if_splits)
  then show ?thesis unfolding pem_consumes_def by blast
qed

theorem parseUpstreamCAPool_accepts_iff_witness:
  "parseUpstreamCAPool demo_crypto ''-----BEGIN Cx'' = Inr [''sys'', ''x''] \<and>
   parseUpstreamCAPool skipping_crypto (''-----BEGIN ?'' @ ''-----BEGIN Cx'') = Inr [''sys'', ''x'']"
proof
  have "pem_file demo_crypto ''-----BEGIN Cx'' [\<lparr>block_type = ''CERTIFICATE'', block_bytes = ''x''\<rparr>]"
    using demo_blocks(1) [of "[]"] demo_blocks(3) by simp
  moreover have "parse_cert demo_crypto = Some" "system_pool demo_crypto = [''sys'']" by (simp_all add: demo_crypto_def)
  ultimately show "parseUpstreamCAPool demo_crypto ''-----BEGIN Cx'' = Inr [''sys'', ''x'']"
    unfolding conjunct1 [OF parseUpstreamCAPool_accepts_iff [OF demo_consumes]]
    by (intro exI conjI) (auto simp: good_cert_def)
  have "has_prefix ''-----BEGIN ?'' begin_mark \<and> has_prefix ''-----BEGIN Cx'' begin_mark \<and>
      pem_decode skipping_crypto (''-----BEGIN ?'' @ ''-----BEGIN Cx'') = pem_decode skipping_crypto ''-----BEGIN Cx''"
    by (simp add: has_prefix_def begin_mark_def skipping_crypto_def)
  moreover have "parseUpstreamCAPool skipping_crypto ''-----BEGIN Cx'' = Inr [''sys'', ''x'']"
    by code_simp
  ultimately show "parseUpstreamCAPool skipping_crypto (''-----BEGIN ?'' @ ''-----BEGIN Cx'') = Inr [''sys'', ''x'']"
    using parseUpstreamCAPool_accepts_iff [OF skipping_consumes] by blast
qed

theorem client_pem_accepts_iff_witness:
  "splitCombinedClientPEM demo_crypto ''-----BEGIN Cx-----BEGIN Kz'' = Inr (''x'', ''z'')"
proof -
  have "pem_file demo_crypto ''-----BEGIN Cx-----BEGIN Kz''
      ([\<lparr>block_type = ''CERTIFICATE'', block_bytes = ''x''\<rparr>] @ [\<lparr>block_type = ''PRIVATE KEY'', block_bytes = ''z''\<rparr>])"
    using demo_blocks(1) [of "''-----BEGIN Kz''"] demo_blocks(2) [of "[]"] demo_blocks(3) by simp
  moreover have "parse_cert demo_crypto = Some" "pem_encode demo_crypto = block_bytes" by (simp_all add: demo_crypto_def)
  ultimately show ?thesis
    using client_pem_accepts_iff [OF demo_consumes, of "''-----BEGIN Cx-----BEGIN Kz''" "''x''" "''z''"]
    by (fastforce simp: good_cert_def validClientKeyBlockType_def)
qed

text \<open>Loading is idempotent: what is loaded is not read again.\<close>

lemma load_ca_done:
  assumes "load_ca env c = Inr l"
  shows "(CAPath l = [] \<or> RootCAs l \<noteq> None) \<and> CertPath l = CertPath c \<and> ClientCert l = ClientCert c"
proof (cases "CAPath c \<noteq> [] \<and> RootCAs c = None")
  case True
  then show ?thesis using assms by (cases "read_file env (CAPath c)") (auto simp: load_ca_def rbind_Inr_iff)
next
  case False
  then have "l = c" using assms by (auto simp: load_ca_def split: if_splits)
  then show ?thesis using False by auto
qed

lemma loadUpstreamTLS_idem:
  assumes "loadUpstreamTLS env (Some c) = Inr (Some d)"
  shows "loadUpstreamTLS env (Some d) = Inr (Some d)"
proof -
  obtain l where l: "load_ca env c = Inr l" using assms by (auto simp: loadUpstreamTLS_def rbind_Inr_iff)
  note done1 = load_ca_done [OF l]
  have "(CAPath d = [] \<or> RootCAs d \<noteq> None) \<and> (CertPath d = [] \<or> ClientCert d \<noteq> None)"
  proof (cases "CertPath c \<noteq> [] \<and> ClientCert c = None")
    case True
    then obtain m where m: "loadUpstreamClientMaterial env (CertPath c) (KeyPath c) = Inr m"
      using assms l by (auto simp: loadUpstreamTLS_def rbind_Inr_iff)
    have "d = l\<lparr>ClientCert := Some (mcert m), CertHash := mcertHash m, KeyHash := mkeyHash m\<rparr>"
      using assms l m True by (simp add: loadUpstreamTLS_def)
    then show ?thesis using done1 by simp
  next
    case False
    then have "d = l" using assms l by (auto simp: loadUpstreamTLS_def)
    then show ?thesis using False done1 by auto
  qed
  then show ?thesis by (auto simp: loadUpstreamTLS_def load_ca_def)
qed

text \<open>Every accepted name is an IP literal without a zone, or a host name of valid labels.\<close>

lemma check_labels_iff:
  "check_labels ls = Inr () \<longleftrightarrow> (\<forall>l \<in> set ls. l \<noteq> [] \<and> length l \<le> 63 \<and> hd l \<noteq> CHR ''-'' \<and> last l \<noteq> CHR ''-'' \<and>
     list_all label_byte l)"
  by (induction ls) auto

end
