(* ===== verification/Runtime.thy ===== *)
theory Runtime
  imports TLS
begin

text \<open>
  The life of a generation, \<open>src/main.go\<close> and \<open>router.close\<close> of \<open>src/router.go\<close>: the poll loop of
  \<open>watchConfig\<close>, the publication of a new generation and the shutdown of the old one. A
  configuration is abstract here: \<open>listen\<close> and \<open>tls\<close> read its fields \<open>Listen\<close> and \<open>TLS\<close>, and
  \<open>newRouter\<close>, which \<open>NewRouter\<close> models, is a function of it. A router is a pointer with its limiter;
  both are numbers.
\<close>

section \<open>The file\<close>

record fileState =
  exists :: bool
  size :: int
  modTime :: int

datatype stat_result = NotExist | StatFailed gerr | Info int int

fun statConfig :: "string \<Rightarrow> stat_result \<Rightarrow> fileState res" where
  "statConfig path NotExist = Inr \<lparr>exists = False, size = 0, modTime = 0\<rparr>"
| "statConfig path (StatFailed e) = Inl (Wrap ''stat %s: %w'' [S path] e)"
| "statConfig path (Info n t) = Inr \<lparr>exists = True, size = n, modTime = t\<rparr>"

section \<open>Generations\<close>

record rt_router =
  ptr :: nat
  limiter :: "nat option"

record 'c runtime =
  current :: "(rt_router \<times> 'c option) option"
  fresh_limiter :: nat
  closed_routers :: "nat list"

definition newReloadableRouter :: "rt_router \<Rightarrow> 'c option \<Rightarrow> 'c runtime" where
  "newReloadableRouter r cert =
     (let (r', n) = (if limiter r = None then (r\<lparr>limiter := Some 0\<rparr>, 1) else (r, 0))
      in \<lparr>current = Some (r', cert), fresh_limiter = n, closed_routers = []\<rparr>)"

definition StoreGeneration :: "rt_router \<Rightarrow> 'c option \<Rightarrow> 'c runtime \<Rightarrow> 'c runtime" where
  "StoreGeneration nxt cert w =
     (let nxt1 = (case current w of Some (old, _) \<Rightarrow> nxt\<lparr>limiter := limiter old\<rparr> | None \<Rightarrow> nxt);
          (nxt2, n) = (if limiter nxt1 = None then (nxt1\<lparr>limiter := Some (fresh_limiter w)\<rparr>, fresh_limiter w + 1)
                       else (nxt1, fresh_limiter w))
      in \<lparr>current = Some (nxt2, cert), fresh_limiter = n,
          closed_routers = (case current w of
             Some (old, _) \<Rightarrow> if ptr old \<noteq> ptr nxt then closed_routers w @ [ptr old] else closed_routers w
           | None \<Rightarrow> closed_routers w)\<rparr>)"

definition GetCertificate :: "'c runtime \<Rightarrow> 'c res" where
  "GetCertificate w =
     (case current w of
        Some (_, Some c) \<Rightarrow> Inr c
      | _ \<Rightarrow> Inl (Err ''tls certificate is unavailable'' []))"

text \<open>\<open>buildRuntimeGeneration\<close> of a configuration: the certificate first. \<open>load\<close> is
  \<open>tls.LoadX509KeyPair\<close>.\<close>

definition buildRuntimeGeneration ::
  "(string \<Rightarrow> string \<Rightarrow> gerr + 'c) \<Rightarrow> ('cfg \<Rightarrow> tlsConfig option) \<Rightarrow> ('cfg \<Rightarrow> rt_router res) \<Rightarrow> 'cfg \<Rightarrow>
   (rt_router \<times> 'c option) res" where
  "buildRuntimeGeneration load tls newRouter cfg =
     rbind (loadTLSCertificate load (tls cfg)) (\<lambda>c. rbind (newRouter cfg) (\<lambda>r. Inr (r, c)))"

section \<open>Shutdown of a router\<close>

datatype close_event = Retire | CancelProbe nat | JoinProbe nat | CloseDirect | CloseBackends

text \<open>\<open>closeOnce\<close> and what was done; \<open>backends\<close> in the order of the map's iteration. \<open>again\<close> is the
  order of the second iteration.\<close>

definition close_router ::
  "bool \<Rightarrow> nat list \<Rightarrow> nat list \<Rightarrow> bool \<times> close_event list \<Rightarrow> bool \<times> close_event list" where
  "close_router has_generation backends again s =
     (case s of (once, evs) \<Rightarrow>
        if once then s
        else (True, evs @ (if has_generation then [Retire] else []) @ map CancelProbe backends @
                map JoinProbe again @ [CloseDirect, CloseBackends]))"

section \<open>The poll loop\<close>

text \<open>What a tick finds: the file's status, \<open>loadConfig\<close> of it, the certificate files as
  \<open>tls.LoadX509KeyPair\<close> reads them, and \<open>newRouter\<close>, which reads files too.\<close>

record ('cfg, 'c) tick =
  stat_now :: stat_result
  load_now :: "'cfg res"
  pair_now :: "string \<Rightarrow> string \<Rightarrow> gerr + 'c"
  router_now :: "'cfg \<Rightarrow> rt_router res"

datatype poll_log = WatchFailed gerr | ReloadFailed gerr | ListenChanged | TLSChanged | Reloaded | Unchanged

text \<open>One turn of the loop: the new \<open>last\<close>, the runtime, what is logged.\<close>

definition watch_tick ::
  "('cfg \<Rightarrow> string) \<Rightarrow> ('cfg \<Rightarrow> tlsConfig option) \<Rightarrow> string \<Rightarrow> string \<Rightarrow> bool \<Rightarrow> ('cfg, 'c) tick \<Rightarrow>
   fileState \<times> 'c runtime \<Rightarrow> (fileState \<times> 'c runtime) \<times> poll_log" where
  "watch_tick listen tls cpath addr tlsEnabled t s =
     (case s of (prev, w) \<Rightarrow>
        (case statConfig cpath (stat_now t) of
           Inl e \<Rightarrow> ((prev, w), WatchFailed e)
         | Inr cur \<Rightarrow>
             if cur = prev then ((prev, w), Unchanged)
             else
               (case load_now t of
                  Inl e \<Rightarrow> ((cur, w), ReloadFailed e)
                | Inr cfg \<Rightarrow>
                    if listen cfg \<noteq> addr then ((cur, w), ListenChanged)
                    else if (tls cfg \<noteq> None) \<noteq> tlsEnabled then ((cur, w), TLSChanged)
                    else
                      (case buildRuntimeGeneration (pair_now t) tls (router_now t) cfg of
                         Inl e \<Rightarrow> ((cur, w), ReloadFailed e)
                       | Inr (r, c) \<Rightarrow> ((cur, StoreGeneration r c w), Reloaded)))))"

fun watchConfig ::
  "('cfg \<Rightarrow> string) \<Rightarrow> ('cfg \<Rightarrow> tlsConfig option) \<Rightarrow> string \<Rightarrow> string \<Rightarrow> bool \<Rightarrow> ('cfg, 'c) tick list \<Rightarrow>
   fileState \<times> 'c runtime \<Rightarrow> fileState \<times> 'c runtime" where
  "watchConfig listen tls cpath addr tlsEnabled [] s = s"
| "watchConfig listen tls cpath addr tlsEnabled (t # ts) s =
     watchConfig listen tls cpath addr tlsEnabled ts (fst (watch_tick listen tls cpath addr tlsEnabled t s))"

section \<open>Properties\<close>

text \<open>The last tick that replaced the generation: its certificate and its router were built from the
  configuration it loaded.\<close>

definition published ::
  "('cfg \<Rightarrow> string) \<Rightarrow> ('cfg \<Rightarrow> tlsConfig option) \<Rightarrow> string \<Rightarrow> bool \<Rightarrow> ('cfg, 'c) tick \<Rightarrow> nat \<times> 'c option \<Rightarrow> bool" where
  "published listen tls addr tlsEnabled t g \<longleftrightarrow>
     (\<exists>cfg r. load_now t = Inr cfg \<and> listen cfg = addr \<and> (tls cfg \<noteq> None \<longleftrightarrow> tlsEnabled) \<and>
        loadTLSCertificate (pair_now t) (tls cfg) = Inr (snd g) \<and> router_now t cfg = Inr r \<and> ptr r = fst g)"

definition generation_of :: "'c runtime \<Rightarrow> (nat \<times> 'c option) option" where
  "generation_of w = map_option (\<lambda>(r, c). (ptr r, c)) (current w)"

lemma store_generation [simp]: "generation_of (StoreGeneration r c w) = Some (ptr r, c)"
  by (auto simp: generation_of_def StoreGeneration_def Let_def split: option.splits)

lemma watch_tick_cases:
  "(\<exists>p l. watch_tick listen tls cpath addr e t (prev, w) = ((p, w), l) \<and> l \<noteq> Reloaded) \<or>
   (\<exists>p r c. watch_tick listen tls cpath addr e t (prev, w) = ((p, StoreGeneration r c w), Reloaded) \<and>
      published listen tls addr e t (ptr r, c))"
  by (auto simp: watch_tick_def published_def buildRuntimeGeneration_def rbind_Inr_iff split: sum.splits prod.splits)

text \<open>C37. However often the file changes and whatever it holds, the generation in use is either the
  one at the start or one that a complete, valid configuration with the same listen address and the
  same kind of listener was built into; every failure keeps the generation as it is.\<close>

theorem watch_keeps_or_publishes_valid:
  "generation_of (snd (watchConfig listen tls cpath addr tlsEnabled ts (prev, w))) = generation_of w \<or>
   (\<exists>t \<in> set ts. \<exists>g. generation_of (snd (watchConfig listen tls cpath addr tlsEnabled ts (prev, w))) = Some g \<and>
      published listen tls addr tlsEnabled t g)"
proof (induction ts arbitrary: prev w)
  case Nil
  then show ?case by simp
next
  case (Cons t ts)
  from watch_tick_cases [of listen tls cpath addr tlsEnabled t prev w] show ?case
  proof (elim disjE exE conjE)
    fix p l assume "watch_tick listen tls cpath addr tlsEnabled t (prev, w) = ((p, w), l)"
    then show ?thesis using Cons.IH [of p w] by auto
  next
    fix p r c assume t: "watch_tick listen tls cpath addr tlsEnabled t (prev, w) = ((p, StoreGeneration r c w), Reloaded)"
      and pub: "published listen tls addr tlsEnabled t (ptr r, c)"
    show ?thesis using Cons.IH [of p "StoreGeneration r c w"] t pub by auto
  qed
qed

lemma stores_close:
  assumes "current w = Some (r, c)" and "limiter r = Some l" and "distinct (ptr r # map (ptr \<circ> fst) gs)"
  shows "closed_routers (fold (\<lambda>(r, c). StoreGeneration r c) gs w) = closed_routers w @ butlast (ptr r # map (ptr \<circ> fst) gs) \<and>
    (\<exists>r' c'. current (fold (\<lambda>(r, c). StoreGeneration r c) gs w) = Some (r', c') \<and>
       ptr r' = last (ptr r # map (ptr \<circ> fst) gs) \<and> limiter r' = Some l)"
  using assms
proof (induction gs arbitrary: w r c)
  case Nil
  then show ?case by simp
next
  case (Cons g gs)
  obtain s d where g: "g = (s, d)" by fastforce
  define w1 where "w1 = StoreGeneration s d w"
  have cur: "current w1 = Some (s\<lparr>limiter := Some l\<rparr>, d)" "closed_routers w1 = closed_routers w @ [ptr r]"
    using Cons.prems by (simp_all add: w1_def StoreGeneration_def Let_def g)
  have "distinct (ptr (s\<lparr>limiter := Some l\<rparr>) # map (ptr \<circ> fst) gs)" using Cons.prems(3) by (simp add: g comp_def)
  from Cons.IH [OF cur(1) _ this] cur(2) show ?case by (simp add: g w1_def)
qed

text \<open>C38. Every router that is replaced is closed exactly once, in the order of replacement, and the one
  in use is not closed; all generations share the limiter of the first.\<close>

theorem reload_closes_replaced_routers:
  assumes "distinct (ptr r0 # map (ptr \<circ> fst) gs)"
  shows "let w = fold (\<lambda>(r, c). StoreGeneration r c) gs (newReloadableRouter r0 c0) in
    closed_routers w = butlast (ptr r0 # map (ptr \<circ> fst) gs) \<and>
    (\<exists>r c. current w = Some (r, c) \<and> ptr r = last (ptr r0 # map (ptr \<circ> fst) gs) \<and>
       limiter r = Some (case limiter r0 of Some l \<Rightarrow> l | None \<Rightarrow> 0))"
proof -
  let ?r = "if limiter r0 = None then r0\<lparr>limiter := Some 0\<rparr> else r0"
  have cur: "current (newReloadableRouter r0 c0) = Some (?r, c0)" "closed_routers (newReloadableRouter r0 c0) = []"
    by (simp_all add: newReloadableRouter_def)
  have l: "limiter ?r = Some (case limiter r0 of Some l \<Rightarrow> l | None \<Rightarrow> 0)" "ptr ?r = ptr r0"
    by (auto split: option.splits)
  from stores_close [OF cur(1) l(1), of gs] assms cur(2) l(2) show ?thesis by (simp add: Let_def)
qed

theorem reload_closes_replaced_routers_witness:
  "closed_routers (fold (\<lambda>(r, c). StoreGeneration r c) [(\<lparr>ptr = 2, limiter = None\<rparr>, Some ''b''), (\<lparr>ptr = 3, limiter = None\<rparr>, None)]
     (newReloadableRouter \<lparr>ptr = 1, limiter = None\<rparr> (Some ''a''))) = [1, 2]"
  using reload_closes_replaced_routers [of "\<lparr>ptr = 1, limiter = None\<rparr>"
      "[(\<lparr>ptr = 2, limiter = None\<rparr>, Some ''b''), (\<lparr>ptr = 3, limiter = None\<rparr>, None)]" "Some ''a''"]
  by (simp add: Let_def)

text \<open>A router is shut down at most once, and every probe is cancelled before any is waited for.\<close>

lemma close_router_once:
  "close_router g bs as (close_router g bs as (False, evs)) = close_router g bs as (False, evs)"
  by (simp add: close_router_def)

end
