(* ===== verification/Json.thy ===== *)
theory Json
  imports Prelude
begin

text \<open>
  The strict reading of the configuration document, \<open>validateJSON\<close> of \<open>src/config.go\<close>: no key twice
  in an object, and no key that the schema does not know at its place. A document is the sequence
  of tokens that \<open>json.Decoder.Token\<close> delivers (it leaves out colons and commas) with what follows
  the last one.
\<close>

section \<open>Documents and tokens\<close>

text \<open>Numbers keep their literal; strings are decoded.\<close>

datatype json =
    JNull
  | JBool bool
  | JNum string
  | JStr string
  | JArr "json list"
  | JObj "(string \<times> json) list"

datatype token = Delim char | TString string | TNumber string | TBool bool | TNull

text \<open>After the tokens: the end of the input, or an error, with the answer \<open>More\<close> gives before it.\<close>

datatype stream_end = EndOfInput | SyntaxError bool gerr

type_synonym decoder = "token list \<times> stream_end"

definition eof :: gerr where "eof = Err ''EOF'' []"

fun next_token :: "decoder \<Rightarrow> (token \<times> decoder) res" where
  "next_token (t # ts, e) = Inr (t, ts, e)"
| "next_token ([], EndOfInput) = Inl eof"
| "next_token ([], SyntaxError m e) = Inl e"

fun more :: "decoder \<Rightarrow> bool" where
  "more (t # ts, e) \<longleftrightarrow> t \<noteq> Delim CHR ''}'' \<and> t \<noteq> Delim CHR '']''"
| "more ([], EndOfInput) \<longleftrightarrow> False"
| "more ([], SyntaxError m e) \<longleftrightarrow> m"

section \<open>The schema\<close>

datatype jsonSchema =
    jsonAny | jsonRoot | jsonLimit | jsonBackends | jsonBackend | jsonBackendRetry | jsonBackendBody
  | jsonBackendBudget | jsonBackendHealth | jsonBackendProbe | jsonBackendBackoff | jsonSites | jsonSite
  | jsonRoutes | jsonRoute | jsonRespond | jsonHeaders | jsonResponseHeaders | jsonBackendTimeout
  | jsonDirectTimeout | jsonRouteMatch | jsonConditions | jsonTLS | jsonUpstreamTLS

text \<open>A \<open>switch\<close> over the keys of a schema, in the order of its cases.\<close>

fun key_switch :: "(string list \<times> jsonSchema) list \<Rightarrow> string \<Rightarrow> jsonSchema res" where
  "key_switch [] key = Inl (Err ''unknown field %q'' [S key])"
| "key_switch ((names, s) # cs) key = (if key \<in> set names then Inr s else key_switch cs key)"

fun childJSONSchema :: "jsonSchema \<Rightarrow> string \<Rightarrow> jsonSchema res" where
  "childJSONSchema jsonRoot key = key_switch
     [([''listen'', ''log'', ''id'', ''trustProxies''], jsonAny), ([''limit''], jsonLimit), ([''tls''], jsonTLS),
      ([''backends''], jsonBackends), ([''sites''], jsonSites)] key"
| "childJSONSchema jsonLimit key = key_switch [([''rate'', ''burst''], jsonAny)] key"
| "childJSONSchema jsonBackends key = Inr jsonBackend"
| "childJSONSchema jsonBackend key = key_switch
     [([''targets'', ''weights'', ''tries''], jsonAny), ([''tls''], jsonUpstreamTLS), ([''retry''], jsonBackendRetry),
      ([''timeout''], jsonBackendTimeout), ([''health''], jsonBackendHealth)] key"
| "childJSONSchema jsonBackendRetry key = key_switch
     [([''status'', ''methods'', ''deadline''], jsonAny), ([''body''], jsonBackendBody),
      ([''budget''], jsonBackendBudget), ([''backoff''], jsonBackendBackoff)] key"
| "childJSONSchema jsonBackendBody key = key_switch [([''max''], jsonAny)] key"
| "childJSONSchema jsonBackendBudget key = key_switch [([''max'', ''window''], jsonAny)] key"
| "childJSONSchema jsonBackendHealth key = key_switch
     [([''fail'', ''cool''], jsonAny), ([''probe''], jsonBackendProbe)] key"
| "childJSONSchema jsonBackendProbe key = key_switch [([''path'', ''every'', ''timeout''], jsonAny)] key"
| "childJSONSchema jsonBackendBackoff key = key_switch [([''base'', ''cap'', ''jitter''], jsonAny)] key"
| "childJSONSchema jsonBackendTimeout key = key_switch [([''dial'', ''header''], jsonAny)] key"
| "childJSONSchema jsonDirectTimeout key = key_switch [([''dial'', ''header'', ''body''], jsonAny)] key"
| "childJSONSchema jsonSite key = key_switch
     [([''hosts'', ''target'', ''backend''], jsonAny), ([''tls''], jsonUpstreamTLS), ([''timeout''], jsonDirectTimeout),
      ([''headers''], jsonHeaders), ([''response''], jsonResponseHeaders), ([''routes''], jsonRoutes)] key"
| "childJSONSchema jsonRoute key = key_switch
     [([''path'', ''rewrite'', ''methods'', ''target'', ''backend'', ''strip''], jsonAny), ([''respond''], jsonRespond),
      ([''tls''], jsonUpstreamTLS), ([''timeout''], jsonDirectTimeout), ([''match''], jsonRouteMatch),
      ([''headers''], jsonHeaders), ([''response''], jsonResponseHeaders)] key"
| "childJSONSchema jsonRespond key = key_switch [([''status'', ''body''], jsonAny), ([''headers''], jsonHeaders)] key"
| "childJSONSchema jsonResponseHeaders key = key_switch
     [([''set'', ''add''], jsonHeaders), ([''remove''], jsonAny)] key"
| "childJSONSchema jsonRouteMatch key = key_switch
     [([''header'', ''query''], jsonConditions), ([''ip''], jsonAny)] key"
| "childJSONSchema jsonConditions key = Inr jsonAny"
| "childJSONSchema jsonTLS key = key_switch [([''cert'', ''key''], jsonAny)] key"
| "childJSONSchema jsonUpstreamTLS key = key_switch [([''ca'', ''name'', ''cert'', ''key''], jsonAny)] key"
| "childJSONSchema s key = Inr jsonAny"

fun arrayItemJSONSchema :: "jsonSchema \<Rightarrow> jsonSchema" where
  "arrayItemJSONSchema jsonSites = jsonSite"
| "arrayItemJSONSchema jsonRoutes = jsonRoute"
| "arrayItemJSONSchema s = jsonAny"

section \<open>Validation\<close>

text \<open>
  The recursion consumes a token with every two calls, so fuel of twice the number of tokens is
  enough.
\<close>

definition no_fuel :: gerr where "no_fuel = Err ''fuel'' []"

fun consumeJSONValue :: "nat \<Rightarrow> jsonSchema \<Rightarrow> decoder \<Rightarrow> decoder res"
  and object_loop :: "nat \<Rightarrow> jsonSchema \<Rightarrow> string list \<Rightarrow> decoder \<Rightarrow> decoder res"
  and array_loop :: "nat \<Rightarrow> jsonSchema \<Rightarrow> decoder \<Rightarrow> decoder res" where
  "consumeJSONValue 0 schema d = Inl no_fuel"
| "consumeJSONValue (Suc n) schema d =
     rbind (next_token d) (\<lambda>(t, d1).
       case t of
         Delim c \<Rightarrow>
           if c = CHR ''{'' then
             rbind (object_loop n schema [] d1) (\<lambda>d2. rbind (next_token d2) (\<lambda>(t2, d3).
               if t2 \<noteq> Delim CHR ''}'' then Inl (Err ''invalid JSON object'' []) else Inr d3))
           else if c = CHR ''['' then
             rbind (array_loop n (arrayItemJSONSchema schema) d1) (\<lambda>d2. rbind (next_token d2) (\<lambda>(t2, d3).
               if t2 \<noteq> Delim CHR '']'' then Inl (Err ''invalid JSON array'' []) else Inr d3))
           else Inl (Err ''invalid JSON delimiter %q'' [S [c]])
       | _ \<Rightarrow> Inr d1)"
| "object_loop 0 schema seen d = Inl no_fuel"
| "object_loop (Suc n) schema seen d =
     (if \<not> more d then Inr d
      else rbind (next_token d) (\<lambda>(t, d1).
        case t of
          TString key \<Rightarrow>
            if key \<in> set seen then Inl (Err ''duplicate JSON key %q'' [S key])
            else rbind (childJSONSchema schema key) (\<lambda>child.
              rbind (consumeJSONValue n child d1) (object_loop n schema (key # seen)))
        | _ \<Rightarrow> Inl (Err ''object key is not a string'' [])))"
| "array_loop 0 child d = Inl no_fuel"
| "array_loop (Suc n) child d =
     (if \<not> more d then Inr d else rbind (consumeJSONValue n child d) (array_loop n child))"

definition json_fuel :: "decoder \<Rightarrow> nat" where
  "json_fuel d = 2 * length (fst d) + 2"

definition validateJSON :: "decoder \<Rightarrow> unit res" where
  "validateJSON d =
     rbind (consumeJSONValue (json_fuel d) jsonRoot d) (\<lambda>d1.
       case next_token d1 of
         Inl e \<Rightarrow> if e = eof then Inr () else Inl e
       | Inr _ \<Rightarrow> Inl (Err ''multiple JSON values'' []))"

section \<open>What is accepted\<close>

fun tokens_of :: "json \<Rightarrow> token list" where
  "tokens_of JNull = [TNull]"
| "tokens_of (JBool b) = [TBool b]"
| "tokens_of (JNum n) = [TNumber n]"
| "tokens_of (JStr s) = [TString s]"
| "tokens_of (JArr js) = Delim CHR ''['' # concat (map tokens_of js) @ [Delim CHR '']'']"
| "tokens_of (JObj ms) =
     Delim CHR ''{'' # concat (map (\<lambda>(k, j). TString k # tokens_of j) ms) @ [Delim CHR ''}'']"

text \<open>No key twice and only known keys, at every depth.\<close>

inductive conforms :: "jsonSchema \<Rightarrow> json \<Rightarrow> bool" where
  null: "conforms s JNull"
| bool: "conforms s (JBool b)"
| num: "conforms s (JNum n)"
| str: "conforms s (JStr x)"
| arr: "(\<And>j. j \<in> set js \<Longrightarrow> conforms (arrayItemJSONSchema s) j) \<Longrightarrow> conforms s (JArr js)"
| obj: "distinct (map fst ms) \<Longrightarrow>
    (\<And>k j. (k, j) \<in> set ms \<Longrightarrow> \<exists>child. childJSONSchema s k = Inr child \<and> conforms child j) \<Longrightarrow> conforms s (JObj ms)"

inductive_simps conforms_simps [simp]:
  "conforms s JNull" "conforms s (JBool b)" "conforms s (JNum n)" "conforms s (JStr x)"

inductive_simps conforms_arr: "conforms s (JArr js)"
inductive_simps conforms_obj: "conforms s (JObj ms)"

lemma tokens_pos: "0 < length (tokens_of j)"
  by (cases j) simp_all

lemma tokens_start: "more (tokens_of j @ ts, e)"
  by (cases j) simp_all

lemma next_token_iff: "next_token d = Inr (t, d1) \<longleftrightarrow> d = (t # fst d1, snd d1)"
  by (cases d rule: next_token.cases) auto

lemma more_None: "next_token d = Inr (t, d1) \<Longrightarrow> \<not> more d \<Longrightarrow> t = Delim CHR ''}'' \<or> t = Delim CHR '']''"
  by (cases d rule: next_token.cases) auto

definition member_tokens :: "(string \<times> json) list \<Rightarrow> token list" where
  "member_tokens ms = concat (map (\<lambda>(k, j). TString k # tokens_of j) ms)"

definition members_ok :: "jsonSchema \<Rightarrow> string list \<Rightarrow> (string \<times> json) list \<Rightarrow> bool" where
  "members_ok s seen ms \<longleftrightarrow> distinct (map fst ms) \<and> set (map fst ms) \<inter> set seen = {} \<and>
     (\<forall>(k, j) \<in> set ms. \<exists>child. childJSONSchema s k = Inr child \<and> conforms child j)"

lemma conforms_members: "conforms s (JObj ms) \<longleftrightarrow> members_ok s [] ms"
  by (auto simp: conforms_obj members_ok_def)

lemma members_ok_Cons:
  "members_ok s seen ((k, j) # ms) \<longleftrightarrow> k \<notin> set seen \<and>
     (\<exists>child. childJSONSchema s k = Inr child \<and> conforms child j) \<and> members_ok s (k # seen) ms"
  by (auto simp: members_ok_def)

text \<open>Everything that is consumed is a document that conforms.\<close>

lemma consume_sound:
  "consumeJSONValue n s d = Inr d' \<Longrightarrow>
     \<exists>j. fst d = tokens_of j @ fst d' \<and> snd d = snd d' \<and> conforms s j"
  "object_loop n s seen d = Inr d' \<Longrightarrow>
     \<exists>ms. fst d = member_tokens ms @ fst d' \<and> snd d = snd d' \<and> members_ok s seen ms"
  "array_loop n s d = Inr d' \<Longrightarrow>
     \<exists>js. fst d = concat (map tokens_of js) @ fst d' \<and> snd d = snd d' \<and> (\<forall>j \<in> set js. conforms s j)"
proof (induction n s d and n s seen d and n s d arbitrary: d' and d' and d'
    rule: consumeJSONValue_object_loop_array_loop.induct)
  case (2 n schema d)
  obtain t d1 where t: "next_token d = Inr (t, d1)" using "2.prems" by (auto simp: rbind_Inr_iff)
  have d: "fst d = t # fst d1" "snd d = snd d1" using t by (auto simp: next_token_iff)
  show ?case
  proof (cases t)
    case (Delim c)
    consider (o) "c = CHR ''{''" | (a) "c = CHR ''[''" | "c \<noteq> CHR ''{''" "c \<noteq> CHR ''[''" by blast
    then show ?thesis
    proof cases
      case o
      then obtain d2 where l: "object_loop n schema [] d1 = Inr d2" "next_token d2 = Inr (Delim CHR ''}'', d')"
        using "2.prems" t Delim by (auto simp: rbind_Inr_iff split: if_splits)
      from "2.IH"(1) [OF Delim o l(1)] obtain ms where
        "fst d1 = member_tokens ms @ fst d2" "snd d1 = snd d2" "members_ok schema [] ms" by blast
      then have "fst d = tokens_of (JObj ms) @ fst d'" "snd d = snd d'" "conforms schema (JObj ms)"
        using d Delim o l(2) by (auto simp: next_token_iff member_tokens_def conforms_members)
      then show ?thesis by blast
    next
      case a
      then obtain d2 where l: "array_loop n (arrayItemJSONSchema schema) d1 = Inr d2"
          "next_token d2 = Inr (Delim CHR '']'', d')"
        using "2.prems" t Delim by (auto simp: rbind_Inr_iff split: if_splits)
      have "c \<noteq> CHR ''{''" using a by simp
      from "2.IH"(2) [OF Delim this a l(1)] obtain js where
        "fst d1 = concat (map tokens_of js) @ fst d2" "snd d1 = snd d2"
        "\<forall>j \<in> set js. conforms (arrayItemJSONSchema schema) j" by blast
      then have "fst d = tokens_of (JArr js) @ fst d'" "snd d = snd d'" "conforms schema (JArr js)"
        using d Delim a l(2) by (auto simp: next_token_iff conforms_arr)
      then show ?thesis by blast
    next
      case 3
      then show ?thesis using "2.prems" t Delim by simp
    qed
  next
    case (TString x)
    then have "fst d = tokens_of (JStr x) @ fst d' \<and> snd d = snd d' \<and> conforms schema (JStr x)"
      using "2.prems" t d by simp
    then show ?thesis by blast
  next
    case (TNumber x)
    then have "fst d = tokens_of (JNum x) @ fst d' \<and> snd d = snd d' \<and> conforms schema (JNum x)"
      using "2.prems" t d by simp
    then show ?thesis by blast
  next
    case (TBool x)
    then have "fst d = tokens_of (JBool x) @ fst d' \<and> snd d = snd d' \<and> conforms schema (JBool x)"
      using "2.prems" t d by simp
    then show ?thesis by blast
  next
    case TNull
    then have "fst d = tokens_of JNull @ fst d' \<and> snd d = snd d' \<and> conforms schema JNull"
      using "2.prems" t d by simp
    then show ?thesis by blast
  qed
next
  case (4 n schema seen d)
  show ?case
  proof (cases "more d")
    case False
    then have "fst d = member_tokens [] @ fst d' \<and> snd d = snd d' \<and> members_ok schema seen []"
      using "4.prems" by (simp add: member_tokens_def members_ok_def)
    then show ?thesis by blast
  next
    case True
    obtain t d1 where t: "next_token d = Inr (t, d1)" using "4.prems" True by (auto simp: rbind_Inr_iff)
    obtain key where key: "t = TString key" using "4.prems" True t by (cases t) auto
    obtain child d2 where c: "key \<notin> set seen" "childJSONSchema schema key = Inr child"
        "consumeJSONValue n child d1 = Inr d2" "object_loop n schema (key # seen) d2 = Inr d'"
      using "4.prems" True t key by (auto simp: rbind_Inr_iff split: if_splits)
    have nm: "\<not> \<not> more d" using True by simp
    from "4.IH"(1) [OF nm key c(1,3)] obtain j where
      j: "fst d1 = tokens_of j @ fst d2" "snd d1 = snd d2" "conforms child j" by blast
    from "4.IH"(2) [OF nm key c(1,4)] obtain ms where
      ms: "fst d2 = member_tokens ms @ fst d'" "snd d2 = snd d'" "members_ok schema (key # seen) ms" by blast
    have "fst d = member_tokens ((key, j) # ms) @ fst d'" "snd d = snd d'"
      using t key j ms by (auto simp: next_token_iff member_tokens_def)
    moreover have "members_ok schema seen ((key, j) # ms)"
      unfolding members_ok_Cons using c(1,2) j(3) ms(3) by auto
    ultimately show ?thesis by blast
  qed
next
  case (6 n child d)
  show ?case
  proof (cases "more d")
    case False
    then have "fst d = concat (map tokens_of []) @ fst d' \<and> snd d = snd d' \<and> (\<forall>j \<in> set []. conforms child j)"
      using "6.prems" by simp
    then show ?thesis by blast
  next
    case True
    then obtain d1 where c: "consumeJSONValue n child d = Inr d1" "array_loop n child d1 = Inr d'"
      using "6.prems" by (auto simp: rbind_Inr_iff)
    have nm: "\<not> \<not> more d" using True by simp
    from "6.IH"(1) [OF nm c(1)] obtain j where
      j: "fst d = tokens_of j @ fst d1" "snd d = snd d1" "conforms child j" by blast
    from "6.IH"(2) [OF nm c(2)] obtain js where
      js: "fst d1 = concat (map tokens_of js) @ fst d'" "snd d1 = snd d'" "\<forall>j \<in> set js. conforms child j" by blast
    have "fst d = concat (map tokens_of (j # js)) @ fst d' \<and> snd d = snd d' \<and> (\<forall>j \<in> set (j # js). conforms child j)"
      using j js by simp
    then show ?thesis by blast
  qed
qed simp_all

text \<open>Every conforming document is consumed.\<close>

lemma members_tokens_simps [simp]:
  "member_tokens [] = []" "member_tokens ((k, j) # ms) = TString k # tokens_of j @ member_tokens ms"
  by (simp_all add: member_tokens_def)

lemma tokens_of_obj: "tokens_of (JObj ms) = Delim CHR ''{'' # member_tokens ms @ [Delim CHR ''}'']"
  by (simp add: member_tokens_def)

definition consumes :: "json \<Rightarrow> bool" where
  "consumes j \<longleftrightarrow> (\<forall>s n ts e. conforms s j \<longrightarrow> 2 * length (tokens_of j) \<le> n \<longrightarrow>
     consumeJSONValue n s (tokens_of j @ ts, e) = Inr (ts, e))"

lemma object_loop_complete:
  assumes "\<forall>(k, j) \<in> set ms. consumes j" and "members_ok s seen ms"
    and "2 * length (member_tokens ms) < n" and "\<not> more (ts, e)"
  shows "object_loop n s seen (member_tokens ms @ ts, e) = Inr (ts, e)"
  using assms
proof (induction ms arbitrary: n seen)
  case Nil
  then show ?case by (cases n) simp_all
next
  case (Cons m ms)
  obtain k j where m: "m = (k, j)" by fastforce
  obtain n' where n: "n = Suc n'" using Cons.prems(3) by (cases n) auto
  obtain child where ok: "k \<notin> set seen" "childJSONSchema s k = Inr child" "conforms child j"
      "members_ok s (k # seen) ms"
    using Cons.prems(2) unfolding m members_ok_Cons by blast
  have len: "2 * length (tokens_of j) \<le> n'" "2 * length (member_tokens ms) < n'"
    using Cons.prems(3) tokens_pos [of j] by (simp_all add: m n del: length_greater_0_conv)
  have "consumeJSONValue n' child (tokens_of j @ member_tokens ms @ ts, e) = Inr (member_tokens ms @ ts, e)"
    using Cons.prems(1) ok(3) len(1) by (auto simp: m consumes_def)
  moreover have "object_loop n' s (k # seen) (member_tokens ms @ ts, e) = Inr (ts, e)"
    using Cons.IH Cons.prems(1,4) ok(4) len(2) by auto
  ultimately show ?case using ok(1,2) by (simp add: m n)
qed

lemma array_loop_complete:
  assumes "\<forall>j \<in> set js. consumes j \<and> conforms s j"
    and "2 * length (concat (map tokens_of js)) < n" and "\<not> more (ts, e)"
  shows "array_loop n s (concat (map tokens_of js) @ ts, e) = Inr (ts, e)"
  using assms
proof (induction js arbitrary: n)
  case Nil
  then show ?case by (cases n) simp_all
next
  case (Cons j js)
  obtain n' where n: "n = Suc n'" using Cons.prems(2) by (cases n) auto
  have len: "2 * length (tokens_of j) \<le> n'" "2 * length (concat (map tokens_of js)) < n'"
    using Cons.prems(2) tokens_pos [of j] by (simp_all add: n del: length_greater_0_conv)
  have "consumeJSONValue n' s (tokens_of j @ concat (map tokens_of js) @ ts, e) =
      Inr (concat (map tokens_of js) @ ts, e)"
    using Cons.prems(1) len(1) by (auto simp: consumes_def)
  moreover have "array_loop n' s (concat (map tokens_of js) @ ts, e) = Inr (ts, e)"
    using Cons.IH [OF _ len(2)] Cons.prems(1,3) by simp
  ultimately show ?case using tokens_start [of j "concat (map tokens_of js) @ ts" e] by (simp add: n)
qed

lemma consumes_literal:
  assumes "tokens_of j = [t]" and "\<And>c. t \<noteq> Delim c"
  shows "consumes j"
  unfolding consumes_def assms(1)
proof (intro allI impI)
  fix s n ts e assume "2 * length [t] \<le> n"
  then obtain n' where "n = Suc n'" by (cases n) auto
  moreover have "\<nexists>c. t = Delim c" using assms(2) by blast
  ultimately show "consumeJSONValue n s ([t] @ ts, e) = Inr (ts, e)" by (cases t) simp_all
qed

lemma consume_complete: "consumes j"
proof (induction j)
  case (JArr js)
  show ?case unfolding consumes_def
  proof (intro allI impI)
    fix s n ts e assume c: "conforms s (JArr js)" and n: "2 * length (tokens_of (JArr js)) \<le> n"
    obtain n' where n': "n = Suc n'" using n by (cases n) auto
    have "array_loop n' (arrayItemJSONSchema s) (concat (map tokens_of js) @ Delim CHR '']'' # ts, e) =
        Inr (Delim CHR '']'' # ts, e)"
      using JArr c n by (intro array_loop_complete) (auto simp: conforms_arr n')
    then show "consumeJSONValue n s (tokens_of (JArr js) @ ts, e) = Inr (ts, e)" by (simp add: n')
  qed
next
  case (JObj ms)
  show ?case unfolding consumes_def
  proof (intro allI impI)
    fix s n ts e assume c: "conforms s (JObj ms)" and n: "2 * length (tokens_of (JObj ms)) \<le> n"
    obtain n' where n': "n = Suc n'" using n by (cases n) auto
    have len: "2 * length (member_tokens ms) < n'" using n unfolding tokens_of_obj n' by simp
    have all: "\<forall>(k, j) \<in> set ms. consumes j" using JObj by fastforce
    have "object_loop n' s [] (member_tokens ms @ Delim CHR ''}'' # ts, e) = Inr (Delim CHR ''}'' # ts, e)"
      using object_loop_complete [OF all _ len] c by (simp add: conforms_members)
    then show "consumeJSONValue n s (tokens_of (JObj ms) @ ts, e) = Inr (ts, e)"
      unfolding tokens_of_obj by (simp add: n')
  qed
qed (auto intro: consumes_literal)

text \<open>C35. A configuration document passes exactly if it is one JSON value in which no object has a key
  twice and every key is one the schema knows at its place, with nothing after it; anything else is
  an error, at whatever depth it is.\<close>

theorem validateJSON_accepts_iff:
  assumes "\<And>m. e \<noteq> SyntaxError m eof"
  shows "validateJSON (ts, e) = Inr () \<longleftrightarrow>
    e = EndOfInput \<and> (\<exists>j. ts = tokens_of j \<and> conforms jsonRoot j)"
proof
  assume "validateJSON (ts, e) = Inr ()"
  then obtain d1 where d1: "consumeJSONValue (json_fuel (ts, e)) jsonRoot (ts, e) = Inr d1"
      "(case next_token d1 of Inl x \<Rightarrow> if x = eof then Inr () else Inl x
        | Inr _ \<Rightarrow> Inl (Err ''multiple JSON values'' [])) = Inr ()"
    unfolding validateJSON_def rbind_Inr_iff by blast
  then have end1: "next_token d1 = Inl eof" by (auto split: sum.splits if_splits)
  obtain j where j: "ts = tokens_of j @ fst d1" "e = snd d1" "conforms jsonRoot j"
    using consume_sound(1) [OF d1(1)] by auto
  have "fst d1 = []" "snd d1 = EndOfInput"
    using end1 assms j(2) by (cases d1 rule: next_token.cases; auto)+
  then show "e = EndOfInput \<and> (\<exists>j. ts = tokens_of j \<and> conforms jsonRoot j)" using j by auto
next
  assume "e = EndOfInput \<and> (\<exists>j. ts = tokens_of j \<and> conforms jsonRoot j)"
  then obtain j where j: "e = EndOfInput" "ts = tokens_of j" "conforms jsonRoot j" by blast
  have "consumeJSONValue (json_fuel (ts, e)) jsonRoot (ts @ [], e) = Inr ([], e)"
    using consume_complete [of j] j(3) unfolding consumes_def j(1,2) json_fuel_def
    by (simp del: consumeJSONValue.simps append_Nil2)
  then show "validateJSON (ts, e) = Inr ()" by (simp add: validateJSON_def j(1))
qed

theorem validateJSON_accepts_iff_witness:
  "validateJSON (tokens_of (JObj [(''log'', JBool True)]), EndOfInput) = Inr ()"
proof -
  have "conforms jsonRoot (JObj [(''log'', JBool True)])" by (simp add: conforms_obj)
  then show ?thesis
    using validateJSON_accepts_iff [of EndOfInput "tokens_of (JObj [(''log'', JBool True)])"] by blast
qed

end
