(* ===== verification/Decode.thy ===== *)
theory Decode
  imports Json TLS Serve
begin

text \<open>
  The decoders of \<open>src/config.go\<close>: every \<open>UnmarshalJSON\<close> as a function on the document tree. An error of
  \<open>encoding/json\<close> itself is \<open>json_err\<close>, whatever its text; as there, a value of the wrong type or an
  unknown field is remembered and reported when the object is done, while an error of an
  \<open>UnmarshalJSON\<close> ends the decoding. \<open>dur\<close> is \<open>time.ParseDuration\<close>, which computes fractions in floating
  point. An optional field is an \<open>option\<close>: \<open>None\<close> while it is not set.
\<close>

section \<open>Struct fields\<close>

definition json_err :: gerr where "json_err = Err ''json'' []"

definition must_object :: gerr where "must_object = Err ''must be an object'' []"

text \<open>A field is found by its exact name, else by one that differs in case only.\<close>

definition find_field :: "string list \<Rightarrow> string \<Rightarrow> string option" where
  "find_field names key = (if key \<in> set names then Some key else find (\<lambda>n. equal_fold n key) names)"

text \<open>The object so far, and whether an error is remembered.\<close>

type_synonym 'a partial = "gerr + 'a \<times> bool"

fun decode_members ::
  "bool \<Rightarrow> string list \<Rightarrow> (string \<Rightarrow> json \<Rightarrow> 'a \<Rightarrow> 'a partial) \<Rightarrow> (string \<times> json) list \<Rightarrow> 'a \<Rightarrow> bool \<Rightarrow> 'a partial" where
  "decode_members strict names setf [] a saved = Inr (a, saved)"
| "decode_members strict names setf ((k, j) # ms) a saved =
     (case find_field names k of
        None \<Rightarrow> decode_members strict names setf ms a (saved \<or> strict)
      | Some f \<Rightarrow> rbind (setf f j a) (\<lambda>(a', s). decode_members strict names setf ms a' (saved \<or> s)))"

fun decode_struct ::
  "bool \<Rightarrow> string list \<Rightarrow> (string \<Rightarrow> json \<Rightarrow> 'a \<Rightarrow> 'a partial) \<Rightarrow> json \<Rightarrow> 'a \<Rightarrow> 'a partial" where
  "decode_struct strict names setf (JObj ms) a = decode_members strict names setf ms a False"
| "decode_struct strict names setf JNull a = Inr (a, False)"
| "decode_struct strict names setf _ a = Inr (a, True)"

definition finish :: "'a partial \<Rightarrow> 'a res" where
  "finish r = rbind r (\<lambda>(a, saved). if saved then Inl json_err else Inr a)"

text \<open>A field whose type has an \<open>UnmarshalJSON\<close>.\<close>

definition via :: "'b res \<Rightarrow> ('b \<Rightarrow> 'a) \<Rightarrow> 'a partial" where
  "via r put = rbind r (\<lambda>b. Inr (put b, False))"

text \<open>The common shape: an object, decoded strictly.\<close>

definition unmarshal_struct ::
  "string list \<Rightarrow> (string \<Rightarrow> json \<Rightarrow> 'a \<Rightarrow> 'a partial) \<Rightarrow> 'a \<Rightarrow> json \<Rightarrow> 'a res" where
  "unmarshal_struct names setf a j =
     (case j of JObj ms \<Rightarrow> finish (decode_struct True names setf j a) | _ \<Rightarrow> Inl must_object)"

definition opt_val :: "'a \<Rightarrow> 'a option \<Rightarrow> 'a" where
  "opt_val d x = (case x of None \<Rightarrow> d | Some v \<Rightarrow> v)"

section \<open>Values\<close>

fun unmarshal_optionalString :: "json \<Rightarrow> string res" where
  "unmarshal_optionalString JNull = Inl (Err ''must be a string'' [])"
| "unmarshal_optionalString (JStr s) = Inr s"
| "unmarshal_optionalString _ = Inl (Wrap ''must be a string: %w'' [] json_err)"

fun decode_strings :: "nat \<Rightarrow> json list \<Rightarrow> string list res" where
  "decode_strings i [] = Inr []"
| "decode_strings i (JStr s # js) = rbind (decode_strings (Suc i) js) (\<lambda>r. Inr (s # r))"
| "decode_strings i (JNull # js) = Inl (Err ''item %d must be a string'' [N (int i)])"
| "decode_strings i (j # js) = Inl (Wrap ''item %d must be a string: %w'' [N (int i)] json_err)"

fun unmarshal_stringArray :: "json \<Rightarrow> string list res" where
  "unmarshal_stringArray JNull = Inl (Err ''must be an array'' [])"
| "unmarshal_stringArray (JArr js) = decode_strings 0 js"
| "unmarshal_stringArray _ = Inl (Wrap ''must be an array of strings: %w'' [] json_err)"

definition int_err :: gerr where
  "int_err = Err ''must be an integer without a decimal point or exponent'' []"

definition read_int :: "string \<Rightarrow> int option" where
  "read_int s =
     (let (neg, t) = (if take 1 s = ''-'' then (True, drop 1 s) else (False, s));
          v = (if neg then - int (dec_val 0 t) else int (dec_val 0 t))
      in if all_digits t \<and> in_i64 v then Some v else None)"

fun unmarshal_optionalInt :: "json \<Rightarrow> int res" where
  "unmarshal_optionalInt (JNum n) =
     (if contains_byte n CHR ''.'' \<or> contains_byte n CHR ''e'' \<or> contains_byte n CHR ''E'' then Inl int_err
      else case read_int n of Some v \<Rightarrow> Inr v | None \<Rightarrow> Inl int_err)"
| "unmarshal_optionalInt _ = Inl int_err"

fun decode_ints :: "nat \<Rightarrow> json list \<Rightarrow> int list res" where
  "decode_ints i [] = Inr []"
| "decode_ints i (j # js) =
     (case unmarshal_optionalInt j of
        Inl e \<Rightarrow> Inl (Err ''item %d must be an integer without a decimal point or exponent'' [N (int i)])
      | Inr v \<Rightarrow> rbind (decode_ints (Suc i) js) (\<lambda>r. Inr (v # r)))"

fun unmarshal_optionalIntArray :: "json \<Rightarrow> int list res" where
  "unmarshal_optionalIntArray (JArr js) = decode_ints 0 js"
| "unmarshal_optionalIntArray _ = Inl (Err ''must be an array of integers'' [])"

definition duration_err :: gerr where "duration_err = Err ''must be a positive Go duration string'' []"

fun unmarshal_optionalDuration :: "(string \<Rightarrow> int option) \<Rightarrow> json \<Rightarrow> int res" where
  "unmarshal_optionalDuration dur (JStr s) =
     (case dur s of Some d \<Rightarrow> if d \<le> 0 then Inl duration_err else Inr d | None \<Rightarrow> Inl duration_err)"
| "unmarshal_optionalDuration dur _ = Inl duration_err"

fun unmarshal_strictBool :: "json \<Rightarrow> bool res" where
  "unmarshal_strictBool JNull = Inl (Err ''must be a boolean'' [])"
| "unmarshal_strictBool (JBool b) = Inr b"
| "unmarshal_strictBool _ = Inl (Wrap ''must be a boolean: %w'' [] json_err)"

text \<open>A pointer field: null leaves nil.\<close>

fun decode_stringPtr :: "json \<Rightarrow> (string option \<Rightarrow> 'a) \<Rightarrow> 'a \<Rightarrow> 'a partial" where
  "decode_stringPtr JNull put a = Inr (put None, False)"
| "decode_stringPtr (JStr s) put a = Inr (put (Some s), False)"
| "decode_stringPtr _ put a = Inr (a, True)"

section \<open>Maps\<close>

fun header_members :: "(string \<times> json) list \<Rightarrow> (string, string) gomap \<Rightarrow> (string, string) gomap res" where
  "header_members [] m = Inr m"
| "header_members ((name, JStr v) # ms) m = header_members ms (go_put name v m)"
| "header_members ((name, _) # ms) m = Inl (Err ''header %q value must be a string'' [S name])"

fun unmarshal_headerMap :: "json \<Rightarrow> (string, string) gomap res" where
  "unmarshal_headerMap JNull = Inl (Err ''headers must be an object'' [])"
| "unmarshal_headerMap (JObj ms) = header_members (put_all [] ms) []"
| "unmarshal_headerMap _ = Inl (Wrap ''headers must be an object: %w'' [] json_err)"

fun value_members :: "(string \<times> json) list \<Rightarrow> (string, string list) gomap \<Rightarrow> (string, string list) gomap res" where
  "value_members [] m = Inr m"
| "value_members ((name, JStr v) # ms) m = value_members ms (go_put name [v] m)"
| "value_members ((name, j) # ms) m =
     rbind (wrap_err ''header %q value must be a string or non-empty array of strings: %w'' [S name]
             (unmarshal_stringArray j)) (\<lambda>arr.
       if length arr = 0 then Inl (Err ''header %q value array must not be empty'' [S name])
       else value_members ms (go_put name arr m))"

fun unmarshal_headerValues :: "json \<Rightarrow> (string, string list) gomap res" where
  "unmarshal_headerValues JNull = Inl (Err ''headers must be an object'' [])"
| "unmarshal_headerValues (JObj ms) = value_members (put_all [] ms) []"
| "unmarshal_headerValues _ = Inl (Wrap ''headers must be an object: %w'' [] json_err)"

fun find_duplicate :: "nat \<Rightarrow> string list \<Rightarrow> string list \<Rightarrow> nat option" where
  "find_duplicate i seen [] = None"
| "find_duplicate i seen (x # xs) = (if x \<in> set seen then Some i else find_duplicate (Suc i) (x # seen) xs)"

fun condition_members :: "(string \<times> json) list \<Rightarrow> (string, string list) gomap \<Rightarrow> (string, string list) gomap res" where
  "condition_members [] m = Inr m"
| "condition_members ((name, JStr v) # ms) m = condition_members ms (go_put name [v] m)"
| "condition_members ((name, j) # ms) m =
     rbind (wrap_err ''property %q must be a string or non-empty array of strings: %w'' [S name]
             (unmarshal_stringArray j)) (\<lambda>alts.
       if length alts = 0 then Inl (Err ''property %q alternative array must not be empty'' [S name])
       else case find_duplicate 0 [] alts of
              Some i \<Rightarrow> Inl (Err ''property %q contains duplicate alternative at index %d'' [S name, N (int i)])
            | None \<Rightarrow> condition_members ms (go_put name alts m))"

fun unmarshal_conditionValues :: "json \<Rightarrow> (string, string list) gomap res" where
  "unmarshal_conditionValues (JObj ms) = condition_members (put_all [] ms) []"
| "unmarshal_conditionValues _ = Inl must_object"

fun respond_members :: "(string \<times> json) list \<Rightarrow> (string, string list) gomap \<Rightarrow> (string, string list) gomap res" where
  "respond_members [] m = Inr m"
| "respond_members ((name, JArr js) # ms) m =
     rbind (wrap_err ''header %q value must be a non-empty array of strings: %w'' [S name]
             (unmarshal_stringArray (JArr js))) (\<lambda>arr.
       if length arr = 0 then Inl (Err ''header %q value array must not be empty'' [S name])
       else respond_members ms (go_put name arr m))"
| "respond_members ((name, _) # ms) m =
     Inl (Err ''header %q value must be a non-empty array of strings'' [S name])"

fun unmarshal_optionalRespondHeaders :: "json \<Rightarrow> (string, string list) gomap res" where
  "unmarshal_optionalRespondHeaders (JObj ms) = respond_members (put_all [] ms) []"
| "unmarshal_optionalRespondHeaders _ = Inl must_object"

end
