(* ===== verification/Config.thy ===== *)
theory Config
  imports Decode
begin

text \<open>
  The configuration of \<open>src/config.go\<close>: the raw structs with their \<open>UnmarshalJSON\<close>, the checked
  \<open>config\<close> and \<open>decodeConfig\<close>. A raw struct whose \<open>set\<close> flag is false is \<open>None\<close>. Where the code goes
  over a Go map, the entries come in the order of the document.
\<close>

section \<open>Limits and bounds\<close>

definition maxRetryBodyBytes :: int where "maxRetryBodyBytes = 64 * 2 ^ 20"
definition maxRetryBudget :: int where "maxRetryBudget = 1000000"
definition maxHealthFailures :: int where "maxHealthFailures = 1000"
definition hour :: int where "hour = 3600 * 1000000000"
definition maxHealthCooldown :: int where "maxHealthCooldown = 24 * hour"
definition maxHealthProbePathBytes :: nat where "maxHealthProbePathBytes = 2048"
definition maxHealthProbeDuration :: int where "maxHealthProbeDuration = 24 * hour"
definition maxDirectTimeout :: int where "maxDirectTimeout = 24 * hour"

section \<open>The checked configuration\<close>

record backendTimeout =
  TDial :: int
  THeader :: int

record directTimeout =
  DDial :: int
  DHeader :: int
  DBody :: int

record backendBudgetConfig =
  BudgetMax :: int
  Window :: int

record backendRetryConfig =
  RetryStatus :: "int list"
  RetryMethods :: "string list"
  RetryBody :: "int option"
  RetryBackoff :: "backoffConfig option"
  RetryDeadline :: int
  RetryBudget :: "backendBudgetConfig option"

record backendHealthProbeConfig =
  ProbePath :: url
  ProbeEvery :: int
  ProbeTimeout :: int

record backendHealthConfig =
  HFail :: int
  HCool :: int
  HProbe :: "backendHealthProbeConfig option"

record ('x, 'k) backendConfig =
  Targets :: "string list"
  Weights :: "int list option"
  Tries :: int
  BTimeout :: backendTimeout
  BTLS :: "('x, 'k) upstreamTLSConfig option"
  BHealth :: "backendHealthConfig option"
  BRetry :: "backendRetryConfig option"

record ('x, 'k) routeConfig =
  RPathText :: string
  Rewrite_to :: string
  RRespond :: "generatedResponse option"
  RMethods :: "string list"
  RMatch :: "routeMatchConfig option"
  RTarget :: string
  RBackend :: string
  RTimeout :: "directTimeout option"
  RTLS :: "('x, 'k) upstreamTLSConfig option"
  RHeaders :: "(string, string) gomap"
  RResponse :: responseHeaderPolicy
  Strip :: bool

record ('x, 'k) siteConfig =
  Hosts :: "string list"
  Target :: string
  SBackend :: string
  STimeout :: "directTimeout option"
  STLS :: "('x, 'k) upstreamTLSConfig option"
  SHeaders :: "(string, string) gomap"
  SResponse :: responseHeaderPolicy
  Routes :: "('x, 'k) routeConfig list"

record ('x, 'k) config =
  Listen :: string
  Log :: bool
  IDs :: bool
  Limit :: "limit_config option"
  ServerTLS :: "tlsConfig option"
  TrustProxies :: "string list"
  Backends :: "(string, ('x, 'k) backendConfig) gomap"
  Sites :: "('x, 'k) siteConfig list"

section \<open>Raw structs\<close>

record rawUpstreamTLS =
  rawCA :: "string option"
  rawName :: "string option"
  rawCert :: "string option"
  rawKey :: "string option"

record rawDirectTimeout =
  rawDial :: "int option"
  rawHeaderTime :: "int option"
  rawBodyTime :: "int option"

record rawBackendRetry =
  rrStatus :: "int list option"
  rrMethods :: "string list option"
  rrBody :: "int option"
  rrBackoff :: "backoffConfig option"
  rrDeadline :: "int option"
  rrBudget :: "backendBudgetConfig option"

record rawBackendConfig =
  rbTargets :: "string list option"
  rbWeights :: "int list option"
  rbTries :: "int option"
  rbTimeout :: "int option \<times> int option"
  rbTLS :: "rawUpstreamTLS option"
  rbHealth :: "backendHealthConfig option"
  rbRetry :: "rawBackendRetry option"

record rawRespond =
  respStatus :: int
  respBody :: "string option"
  respHeaders :: "(string, string list) gomap"

record rawRouteMatch =
  rmHeader :: "(string, string list) gomap option"
  rmQuery :: "(string, string list) gomap option"
  rmIP :: "string list option"

record rawRouteConfig =
  rtPath :: "string option"
  rtRewrite :: "string option"
  rtRespond :: "rawRespond option"
  rtMethods :: "string list option"
  rtMatch :: "rawRouteMatch option"
  rtTarget :: "string option"
  rtBackend :: "string option"
  rtTimeout :: "rawDirectTimeout option"
  rtTLS :: "rawUpstreamTLS option"
  rtHeaders :: "(string, string) gomap option"
  rtResponse :: responseHeaderPolicy
  rtStrip :: bool

record rawSiteConfig =
  rsHosts :: "string list option"
  rsTarget :: "string option"
  rsBackend :: "string option"
  rsTimeout :: "rawDirectTimeout option"
  rsTLS :: "rawUpstreamTLS option"
  rsHeaders :: "(string, string) gomap"
  rsResponse :: responseHeaderPolicy
  rsRoutes :: "rawRouteConfig list"

record rawConfig =
  rcListen :: "string option"
  rcLog :: bool
  rcID :: bool
  rcLimit :: "(int \<times> int) option"
  rcTLS :: "tlsConfig option"
  rcTrust :: "string list"
  rcBackends :: "(string, rawBackendConfig) gomap"
  rcSites :: "rawSiteConfig list option"

section \<open>Decoders of the structs\<close>

definition unmarshal_rawTLSConfig :: "json \<Rightarrow> tlsConfig res" where
  "unmarshal_rawTLSConfig j =
     rbind (unmarshal_struct [''cert'', ''key''] (\<lambda>f v (c, k).
         if f = ''cert'' then via (unmarshal_optionalString v) (\<lambda>s. (Some s, k))
         else via (unmarshal_optionalString v) (\<lambda>s. (c, Some s))) (None, None) j) (\<lambda>(c, k).
       if opt_val [] c = [] then Inl (Err ''cert must be a non-empty string'' [])
       else if opt_val [] k = [] then Inl (Err ''key must be a non-empty string'' [])
       else Inr \<lparr>Cert = opt_val [] c, Key = opt_val [] k\<rparr>)"

definition unmarshal_rawLimit :: "json \<Rightarrow> (int \<times> int) res" where
  "unmarshal_rawLimit j =
     rbind (unmarshal_struct [''rate'', ''burst''] (\<lambda>f v (r, b).
         if f = ''rate'' then via (unmarshal_optionalInt v) (\<lambda>n. (Some n, b))
         else via (unmarshal_optionalInt v) (\<lambda>n. (r, Some n))) (None, None) j) (\<lambda>p.
       case p of
         (Some r, Some b) \<Rightarrow>
           if r < 1 \<or> r > maxLimitRate then Inl (Err ''rate must be between 1 and %d'' [N maxLimitRate])
           else if b < 1 \<or> b > maxLimitBurst then Inl (Err ''burst must be between 1 and %d'' [N maxLimitBurst])
           else Inr (r, b)
       | _ \<Rightarrow> Inl (Err ''must contain rate and burst'' []))"

definition unmarshal_rawUpstreamTLS :: "json \<Rightarrow> rawUpstreamTLS res" where
  "unmarshal_rawUpstreamTLS j =
     rbind (unmarshal_struct [''ca'', ''name'', ''cert'', ''key''] (\<lambda>f v t.
         via (unmarshal_optionalString v) (\<lambda>s.
           if f = ''ca'' then t\<lparr>rawCA := Some s\<rparr> else if f = ''name'' then t\<lparr>rawName := Some s\<rparr>
           else if f = ''cert'' then t\<lparr>rawCert := Some s\<rparr> else t\<lparr>rawKey := Some s\<rparr>))
         \<lparr>rawCA = None, rawName = None, rawCert = None, rawKey = None\<rparr> j) (\<lambda>t.
       if rawCA t = None \<and> rawName t = None \<and> rawCert t = None \<and> rawKey t = None
       then Inl (Err ''must contain ca, name, cert, or key'' [])
       else if rawCA t = Some [] then Inl (Err ''ca must be a non-empty string'' [])
       else if rawName t = Some [] then Inl (Err ''name must be a non-empty string'' [])
       else rbind (case rawName t of
                     Some n \<Rightarrow> wrap_err ''name: %w'' [] (validateUpstreamServerName n) | None \<Rightarrow> Inr ()) (\<lambda>_.
         if (rawCert t = None) \<noteq> (rawKey t = None) then Inl (Err ''cert and key must be set together'' [])
         else if rawCert t = Some [] then Inl (Err ''cert must be a non-empty string'' [])
         else if rawKey t = Some [] then Inl (Err ''key must be a non-empty string'' [])
         else Inr t))"

definition unmarshal_rawBackendTimeout :: "(string \<Rightarrow> int option) \<Rightarrow> json \<Rightarrow> (int option \<times> int option) res" where
  "unmarshal_rawBackendTimeout dur j =
     rbind (unmarshal_struct [''dial'', ''header''] (\<lambda>f v (d, h).
         if f = ''dial'' then via (unmarshal_optionalDuration dur v) (\<lambda>n. (Some n, h))
         else via (unmarshal_optionalDuration dur v) (\<lambda>n. (d, Some n))) (None, None) j) (\<lambda>(d, h).
       if d = None \<and> h = None then Inl (Err ''must contain dial or header'' []) else Inr (d, h))"

definition above :: "int \<Rightarrow> int option \<Rightarrow> bool" where
  "above m x = (case x of Some v \<Rightarrow> v > m | None \<Rightarrow> False)"

definition unmarshal_rawDirectTimeout :: "(string \<Rightarrow> int option) \<Rightarrow> json \<Rightarrow> rawDirectTimeout res" where
  "unmarshal_rawDirectTimeout dur j =
     rbind (unmarshal_struct [''dial'', ''header'', ''body''] (\<lambda>f v t.
         via (unmarshal_optionalDuration dur v) (\<lambda>n.
           if f = ''dial'' then t\<lparr>rawDial := Some n\<rparr> else if f = ''header'' then t\<lparr>rawHeaderTime := Some n\<rparr>
           else t\<lparr>rawBodyTime := Some n\<rparr>))
         \<lparr>rawDial = None, rawHeaderTime = None, rawBodyTime = None\<rparr> j) (\<lambda>t.
       if rawDial t = None \<and> rawHeaderTime t = None \<and> rawBodyTime t = None
       then Inl (Err ''must contain dial, header, or body'' [])
       else if above maxDirectTimeout (rawDial t)
       then Inl (Err ''dial must be no greater than %s'' [N maxDirectTimeout])
       else if above maxDirectTimeout (rawHeaderTime t)
       then Inl (Err ''header must be no greater than %s'' [N maxDirectTimeout])
       else if above maxDirectTimeout (rawBodyTime t)
       then Inl (Err ''body must be no greater than %s'' [N maxDirectTimeout])
       else Inr t)"

definition unmarshal_rawBackendBody :: "json \<Rightarrow> int res" where
  "unmarshal_rawBackendBody j =
     rbind (unmarshal_struct [''max''] (\<lambda>f v m. via (unmarshal_optionalInt v) Some) None j) (\<lambda>m.
       case m of
         None \<Rightarrow> Inl (Err ''max must be an integer between 1 and %d'' [N maxRetryBodyBytes])
       | Some v \<Rightarrow> if v < 1 \<or> v > maxRetryBodyBytes
                   then Inl (Err ''max must be an integer between 1 and %d'' [N maxRetryBodyBytes]) else Inr v)"

definition unmarshal_rawBackendBudget :: "(string \<Rightarrow> int option) \<Rightarrow> json \<Rightarrow> backendBudgetConfig res" where
  "unmarshal_rawBackendBudget dur j =
     rbind (unmarshal_struct [''max'', ''window''] (\<lambda>f v (m, w).
         if f = ''max'' then via (unmarshal_optionalInt v) (\<lambda>n. (Some n, w))
         else via (unmarshal_optionalDuration dur v) (\<lambda>n. (m, Some n))) (None, None) j) (\<lambda>(m, w).
       case m of
         None \<Rightarrow> Inl (Err ''max must be an integer between 1 and %d'' [N maxRetryBudget])
       | Some v \<Rightarrow>
           if v < 1 \<or> v > maxRetryBudget
           then Inl (Err ''max must be an integer between 1 and %d'' [N maxRetryBudget])
           else (case w of None \<Rightarrow> Inl (Err ''window must be set'' [])
                 | Some d \<Rightarrow> Inr \<lparr>BudgetMax = v, Window = d\<rparr>))"

definition unmarshal_rawBackendBackoff :: "(string \<Rightarrow> int option) \<Rightarrow> json \<Rightarrow> backoffConfig res" where
  "unmarshal_rawBackendBackoff dur j =
     rbind (unmarshal_struct [''base'', ''cap'', ''jitter''] (\<lambda>f v (b, c, jt).
         if f = ''base'' then via (unmarshal_optionalDuration dur v) (\<lambda>n. (Some n, c, jt))
         else if f = ''cap'' then via (unmarshal_optionalDuration dur v) (\<lambda>n. (b, Some n, jt))
         else via (unmarshal_optionalString v) (\<lambda>s. (b, c, Some s))) (None, None, None) j) (\<lambda>t.
       case t of
         (Some b, Some c, jt) \<Rightarrow>
           if c < b then Inl (Err ''cap must be greater than or equal to base'' [])
           else (let jitter = opt_val ''none'' jt in
             if jitter \<noteq> ''none'' \<and> jitter \<noteq> ''full'' then Inl (Err ''jitter must be none or full'' [])
             else Inr \<lparr>Base = b, Cap = c, Jitter = (jitter = ''full'')\<rparr>)
       | _ \<Rightarrow> Inl (Err ''base and cap must be set'' []))"

definition unmarshal_rawBackendRetry :: "(string \<Rightarrow> int option) \<Rightarrow> json \<Rightarrow> rawBackendRetry res" where
  "unmarshal_rawBackendRetry dur j =
     rbind (unmarshal_struct [''status'', ''methods'', ''body'', ''backoff'', ''deadline'', ''budget''] (\<lambda>f v t.
         if f = ''status'' then via (unmarshal_optionalIntArray v) (\<lambda>x. t\<lparr>rrStatus := Some x\<rparr>)
         else if f = ''methods'' then via (unmarshal_stringArray v) (\<lambda>x. t\<lparr>rrMethods := Some x\<rparr>)
         else if f = ''body'' then via (unmarshal_rawBackendBody v) (\<lambda>x. t\<lparr>rrBody := Some x\<rparr>)
         else if f = ''backoff'' then via (unmarshal_rawBackendBackoff dur v) (\<lambda>x. t\<lparr>rrBackoff := Some x\<rparr>)
         else if f = ''deadline'' then via (unmarshal_optionalDuration dur v) (\<lambda>x. t\<lparr>rrDeadline := Some x\<rparr>)
         else via (unmarshal_rawBackendBudget dur v) (\<lambda>x. t\<lparr>rrBudget := Some x\<rparr>))
         \<lparr>rrStatus = None, rrMethods = None, rrBody = None, rrBackoff = None, rrDeadline = None, rrBudget = None\<rparr> j) (\<lambda>t.
       if opt_val [] (rrStatus t) = [] then Inl (Err ''status must be a non-empty array'' []) else Inr t)"

text \<open>\<open>url.ParseRequestURI\<close> of a text that starts with one slash and has no control character: the path and
  the query.\<close>

definition parse_request_uri :: "string \<Rightarrow> url option" where
  "parse_request_uri raw =
     (let force = (has_suffix raw ''?'' \<and> length (filter (\<lambda>c. c = CHR ''?'') raw) = 1);
          (rest, q) = (if force then (take (length raw - 1) raw, []) else cut_at CHR ''?'' raw)
      in case path_unescape rest of
           None \<Rightarrow> None
         | Some p \<Rightarrow> Some \<lparr>Scheme = [], UHost = [], Path = p, RawPath = (if path_escape p = rest then [] else rest),
                       RawQuery = q, ForceQuery = force\<rparr>)"

definition parseHealthProbePath :: "string \<Rightarrow> url res" where
  "parseHealthProbePath raw =
     (if raw = [] then Inl (Err ''must not be empty'' [])
      else if length raw > maxHealthProbePathBytes
      then Inl (Err ''must not exceed %d bytes'' [N (int maxHealthProbePathBytes)])
      else if \<not> has_prefix raw ''/'' \<or> has_prefix raw ''//'' \<or> contains_byte raw CHR ''#''
      then Inl (Err ''must be an origin-form request-target'' [])
      else if list_ex (\<lambda>c. c \<le> CHR '' '' \<or> c = CHR 0x7F) raw
      then Inl (Err ''must not contain spaces or control characters'' [])
      else case parse_request_uri raw of
             None \<Rightarrow> Inl (Wrap ''must be a valid request-target: %w'' [] (Err ''url'' []))
           | Some u \<Rightarrow> if Scheme u \<noteq> [] \<or> UHost u \<noteq> [] then Inl (Err ''must be an origin-form request-target'' [])
                       else Inr u)"

definition unmarshal_rawBackendHealthProbe :: "(string \<Rightarrow> int option) \<Rightarrow> json \<Rightarrow> backendHealthProbeConfig res" where
  "unmarshal_rawBackendHealthProbe dur j =
     rbind (unmarshal_struct [''path'', ''every'', ''timeout''] (\<lambda>f v (p, e, t).
         if f = ''path'' then via (unmarshal_optionalString v) (\<lambda>x. (Some x, e, t))
         else if f = ''every'' then via (unmarshal_optionalDuration dur v) (\<lambda>n. (p, Some n, t))
         else via (unmarshal_optionalDuration dur v) (\<lambda>n. (p, e, Some n))) (None, None, None) j) (\<lambda>(p, e, t).
       case p of
         None \<Rightarrow> Inl (Err ''path must be set'' [])
       | Some raw \<Rightarrow> rbind (wrap_err ''path: %w'' [] (parseHealthProbePath raw)) (\<lambda>u.
           if e = None \<or> above maxHealthProbeDuration e
           then Inl (Err ''every must be no greater than %s'' [N maxHealthProbeDuration])
           else if t = None then Inl (Err ''timeout must be set'' [])
           else if opt_val 0 t > opt_val 0 e then Inl (Err ''timeout must be no greater than every'' [])
           else Inr \<lparr>ProbePath = u, ProbeEvery = opt_val 0 e, ProbeTimeout = opt_val 0 t\<rparr>))"

definition unmarshal_rawBackendHealth :: "(string \<Rightarrow> int option) \<Rightarrow> json \<Rightarrow> backendHealthConfig res" where
  "unmarshal_rawBackendHealth dur j =
     rbind (unmarshal_struct [''fail'', ''cool'', ''probe''] (\<lambda>f v (n, c, p).
         if f = ''fail'' then via (unmarshal_optionalInt v) (\<lambda>x. (Some x, c, p))
         else if f = ''cool'' then via (unmarshal_optionalDuration dur v) (\<lambda>x. (n, Some x, p))
         else via (unmarshal_rawBackendHealthProbe dur v) (\<lambda>x. (n, c, Some x))) (None, None, None) j) (\<lambda>(n, c, p).
       if n = None \<or> opt_val 0 n < 1 \<or> opt_val 0 n > maxHealthFailures
       then Inl (Err ''fail must be an integer between 1 and %d'' [N maxHealthFailures])
       else if c = None \<or> above maxHealthCooldown c
       then Inl (Err ''cool must be greater than zero and no greater than %s'' [N maxHealthCooldown])
       else Inr \<lparr>HFail = opt_val 0 n, HCool = opt_val 0 c, HProbe = p\<rparr>)"

fun decode_arrayPtr :: "json \<Rightarrow> (string list option \<Rightarrow> 'a) \<Rightarrow> 'a partial" where
  "decode_arrayPtr JNull put = Inr (put None, False)"
| "decode_arrayPtr j put = via (unmarshal_stringArray j) (\<lambda>x. put (Some x))"

definition zero_backend :: rawBackendConfig where
  "zero_backend = \<lparr>rbTargets = None, rbWeights = None, rbTries = None, rbTimeout = (None, None), rbTLS = None,
     rbHealth = None, rbRetry = None\<rparr>"

text \<open>This object is decoded without \<open>DisallowUnknownFields\<close>.\<close>

definition unmarshal_rawBackendConfig :: "(string \<Rightarrow> int option) \<Rightarrow> json \<Rightarrow> rawBackendConfig res" where
  "unmarshal_rawBackendConfig dur j =
     (case j of
        JObj ms \<Rightarrow> finish (decode_struct False
          [''targets'', ''weights'', ''tries'', ''timeout'', ''tls'', ''health'', ''retry''] (\<lambda>f v t.
            if f = ''targets'' then decode_arrayPtr v (\<lambda>x. t\<lparr>rbTargets := x\<rparr>)
            else if f = ''weights'' then via (unmarshal_optionalIntArray v) (\<lambda>x. t\<lparr>rbWeights := Some x\<rparr>)
            else if f = ''tries'' then via (unmarshal_optionalInt v) (\<lambda>x. t\<lparr>rbTries := Some x\<rparr>)
            else if f = ''timeout'' then via (unmarshal_rawBackendTimeout dur v) (\<lambda>x. t\<lparr>rbTimeout := x\<rparr>)
            else if f = ''tls'' then via (unmarshal_rawUpstreamTLS v) (\<lambda>x. t\<lparr>rbTLS := Some x\<rparr>)
            else if f = ''health'' then via (unmarshal_rawBackendHealth dur v) (\<lambda>x. t\<lparr>rbHealth := Some x\<rparr>)
            else via (unmarshal_rawBackendRetry dur v) (\<lambda>x. t\<lparr>rbRetry := Some x\<rparr>)) j zero_backend)
      | _ \<Rightarrow> Inl must_object)"

fun backend_members ::
  "(string \<Rightarrow> int option) \<Rightarrow> (string \<times> json) list \<Rightarrow> (string, rawBackendConfig) gomap \<Rightarrow>
   (string, rawBackendConfig) gomap res" where
  "backend_members dur [] m = Inr m"
| "backend_members dur ((k, j) # ms) m =
     rbind (unmarshal_rawBackendConfig dur j) (\<lambda>b. backend_members dur ms (go_put k b m))"

fun unmarshal_rawBackends :: "(string \<Rightarrow> int option) \<Rightarrow> json \<Rightarrow> (string, rawBackendConfig) gomap res" where
  "unmarshal_rawBackends dur JNull = Inl must_object"
| "unmarshal_rawBackends dur (JObj ms) = wrap_err ''must be an object: %w'' [] (backend_members dur ms [])"
| "unmarshal_rawBackends dur _ = Inl (Wrap ''must be an object: %w'' [] json_err)"

definition unmarshal_rawRespond :: "json \<Rightarrow> rawRespond res" where
  "unmarshal_rawRespond j =
     rbind (unmarshal_struct [''status'', ''body'', ''headers''] (\<lambda>f v (s, b, h).
         if f = ''status'' then via (unmarshal_optionalInt v) (\<lambda>x. (Some x, b, h))
         else if f = ''body'' then via (unmarshal_optionalString v) (\<lambda>x. (s, Some x, h))
         else via (unmarshal_optionalRespondHeaders v) (\<lambda>x. (s, b, x))) (None, None, []) j) (\<lambda>(s, b, h).
       if s = None \<or> opt_val 0 s < 200 \<or> opt_val 0 s > 599
       then Inl (Err ''status must be an integer between 200 and 599'' [])
       else if length (opt_val [] b) > maxGeneratedBodyBytes
       then Inl (Err ''body must not exceed %d bytes'' [N (int maxGeneratedBodyBytes)])
       else if (s = Some 204 \<or> s = Some 205 \<or> s = Some 304) \<and> opt_val [] b \<noteq> []
       then Inl (Err ''body must be empty for status %d'' [N (opt_val 0 s)])
       else Inr \<lparr>respStatus = opt_val 0 s, respBody = b, respHeaders = h\<rparr>)"

definition unmarshal_rawRouteMatch :: "json \<Rightarrow> rawRouteMatch res" where
  "unmarshal_rawRouteMatch j =
     rbind (unmarshal_struct [''header'', ''query'', ''ip''] (\<lambda>f v t.
         if f = ''header'' then via (unmarshal_conditionValues v) (\<lambda>x. t\<lparr>rmHeader := Some x\<rparr>)
         else if f = ''query'' then via (unmarshal_conditionValues v) (\<lambda>x. t\<lparr>rmQuery := Some x\<rparr>)
         else via (unmarshal_stringArray v) (\<lambda>x. t\<lparr>rmIP := Some x\<rparr>))
         \<lparr>rmHeader = None, rmQuery = None, rmIP = None\<rparr> j) (\<lambda>t.
       if rmHeader t = None \<and> rmQuery t = None \<and> rmIP t = None
       then Inl (Err ''must contain header, query, or ip'' [])
       else if rmHeader t = Some [] then Inl (Err ''header must not be empty'' [])
       else if rmQuery t = Some [] then Inl (Err ''query must not be empty'' [])
       else if rmIP t = Some [] then Inl (Err ''ip must not be empty'' [])
       else Inr t)"

definition no_policy :: responseHeaderPolicy where
  "no_policy = \<lparr>Set = [], Add = [], Remove = []\<rparr>"

definition unmarshal_responseHeaderPolicy :: "json \<Rightarrow> responseHeaderPolicy res" where
  "unmarshal_responseHeaderPolicy j =
     rbind (unmarshal_struct [''set'', ''add'', ''remove''] (\<lambda>f v (s, a, r).
         if f = ''set'' then via (unmarshal_headerValues v) (\<lambda>x. (Some x, a, r))
         else if f = ''add'' then via (unmarshal_headerValues v) (\<lambda>x. (s, Some x, r))
         else via (unmarshal_stringArray v) (\<lambda>x. (s, a, Some x))) (None, None, None) j) (\<lambda>(s, a, r).
       if s = None \<and> a = None \<and> r = None
       then Inl (Err ''must contain at least one of set, add, or remove'' [])
       else if s = Some [] then Inl (Err ''set must not be empty'' [])
       else if a = Some [] then Inl (Err ''add must not be empty'' [])
       else if r = Some [] then Inl (Err ''remove must not be empty'' [])
       else Inr \<lparr>Set = opt_val [] s, Add = opt_val [] a, Remove = opt_val [] r\<rparr>)"

section \<open>Routes, sites and the root\<close>

text \<open>The items of an array, each decoded into a fresh element.\<close>

fun decode_items :: "(json \<Rightarrow> 'a partial) \<Rightarrow> json list \<Rightarrow> 'a list partial" where
  "decode_items f [] = Inr ([], False)"
| "decode_items f (j # js) = rbind (f j) (\<lambda>(a, s). rbind (decode_items f js) (\<lambda>(as, s'). Inr (a # as, s \<or> s')))"

definition zero_route :: rawRouteConfig where
  "zero_route = \<lparr>rtPath = None, rtRewrite = None, rtRespond = None, rtMethods = None, rtMatch = None, rtTarget = None,
     rtBackend = None, rtTimeout = None, rtTLS = None, rtHeaders = None, rtResponse = no_policy, rtStrip = False\<rparr>"

definition route_names :: "string list" where
  "route_names = [''path'', ''rewrite'', ''respond'', ''methods'', ''match'', ''target'', ''backend'', ''timeout'', ''tls'',
     ''headers'', ''response'', ''strip'']"

definition set_route :: "(string \<Rightarrow> int option) \<Rightarrow> string \<Rightarrow> json \<Rightarrow> rawRouteConfig \<Rightarrow> rawRouteConfig partial" where
  "set_route dur f v t =
     (if f = ''path'' then decode_stringPtr v (\<lambda>x. t\<lparr>rtPath := x\<rparr>) t
      else if f = ''rewrite'' then via (unmarshal_optionalString v) (\<lambda>x. t\<lparr>rtRewrite := Some x\<rparr>)
      else if f = ''respond'' then via (unmarshal_rawRespond v) (\<lambda>x. t\<lparr>rtRespond := Some x\<rparr>)
      else if f = ''methods'' then via (unmarshal_stringArray v) (\<lambda>x. t\<lparr>rtMethods := Some x\<rparr>)
      else if f = ''match'' then via (unmarshal_rawRouteMatch v) (\<lambda>x. t\<lparr>rtMatch := Some x\<rparr>)
      else if f = ''target'' then via (unmarshal_optionalString v) (\<lambda>x. t\<lparr>rtTarget := Some x\<rparr>)
      else if f = ''backend'' then via (unmarshal_optionalString v) (\<lambda>x. t\<lparr>rtBackend := Some x\<rparr>)
      else if f = ''timeout'' then via (unmarshal_rawDirectTimeout dur v) (\<lambda>x. t\<lparr>rtTimeout := Some x\<rparr>)
      else if f = ''tls'' then via (unmarshal_rawUpstreamTLS v) (\<lambda>x. t\<lparr>rtTLS := Some x\<rparr>)
      else if f = ''headers'' then via (unmarshal_headerMap v) (\<lambda>x. t\<lparr>rtHeaders := Some x\<rparr>)
      else if f = ''response'' then via (unmarshal_responseHeaderPolicy v) (\<lambda>x. t\<lparr>rtResponse := x\<rparr>)
      else via (unmarshal_strictBool v) (\<lambda>x. t\<lparr>rtStrip := x\<rparr>))"

definition unmarshal_rawRoutes :: "(string \<Rightarrow> int option) \<Rightarrow> json \<Rightarrow> rawRouteConfig list res" where
  "unmarshal_rawRoutes dur j =
     (case j of
        JNull \<Rightarrow> Inl (Err ''must be an array'' [])
      | JArr js \<Rightarrow> wrap_err ''must be an array: %w'' []
          (finish (decode_items (\<lambda>i. decode_struct True route_names (set_route dur) i zero_route) js))
      | _ \<Rightarrow> Inl (Wrap ''must be an array: %w'' [] json_err))"

definition zero_site :: rawSiteConfig where
  "zero_site = \<lparr>rsHosts = None, rsTarget = None, rsBackend = None, rsTimeout = None, rsTLS = None, rsHeaders = [],
     rsResponse = no_policy, rsRoutes = []\<rparr>"

definition site_names :: "string list" where
  "site_names = [''hosts'', ''target'', ''backend'', ''timeout'', ''tls'', ''headers'', ''response'', ''routes'']"

definition set_site :: "(string \<Rightarrow> int option) \<Rightarrow> string \<Rightarrow> json \<Rightarrow> rawSiteConfig \<Rightarrow> rawSiteConfig partial" where
  "set_site dur f v t =
     (if f = ''hosts'' then decode_arrayPtr v (\<lambda>x. t\<lparr>rsHosts := x\<rparr>)
      else if f = ''target'' then via (unmarshal_optionalString v) (\<lambda>x. t\<lparr>rsTarget := Some x\<rparr>)
      else if f = ''backend'' then via (unmarshal_optionalString v) (\<lambda>x. t\<lparr>rsBackend := Some x\<rparr>)
      else if f = ''timeout'' then via (unmarshal_rawDirectTimeout dur v) (\<lambda>x. t\<lparr>rsTimeout := Some x\<rparr>)
      else if f = ''tls'' then via (unmarshal_rawUpstreamTLS v) (\<lambda>x. t\<lparr>rsTLS := Some x\<rparr>)
      else if f = ''headers'' then via (unmarshal_headerMap v) (\<lambda>x. t\<lparr>rsHeaders := x\<rparr>)
      else if f = ''response'' then via (unmarshal_responseHeaderPolicy v) (\<lambda>x. t\<lparr>rsResponse := x\<rparr>)
      else via (unmarshal_rawRoutes dur v) (\<lambda>x. t\<lparr>rsRoutes := x\<rparr>))"

definition zero_config :: rawConfig where
  "zero_config = \<lparr>rcListen = None, rcLog = False, rcID = False, rcLimit = None, rcTLS = None, rcTrust = [],
     rcBackends = [], rcSites = None\<rparr>"

definition root_names :: "string list" where
  "root_names = [''listen'', ''log'', ''id'', ''limit'', ''tls'', ''trustProxies'', ''backends'', ''sites'']"

definition set_root :: "(string \<Rightarrow> int option) \<Rightarrow> string \<Rightarrow> json \<Rightarrow> rawConfig \<Rightarrow> rawConfig partial" where
  "set_root dur f v t =
     (if f = ''listen'' then decode_stringPtr v (\<lambda>x. t\<lparr>rcListen := x\<rparr>) t
      else if f = ''log'' then via (unmarshal_strictBool v) (\<lambda>x. t\<lparr>rcLog := x\<rparr>)
      else if f = ''id'' then via (unmarshal_strictBool v) (\<lambda>x. t\<lparr>rcID := x\<rparr>)
      else if f = ''limit'' then via (unmarshal_rawLimit v) (\<lambda>x. t\<lparr>rcLimit := Some x\<rparr>)
      else if f = ''tls'' then via (unmarshal_rawTLSConfig v) (\<lambda>x. t\<lparr>rcTLS := Some x\<rparr>)
      else if f = ''trustProxies'' then via (unmarshal_stringArray v) (\<lambda>x. t\<lparr>rcTrust := x\<rparr>)
      else if f = ''backends'' then via (unmarshal_rawBackends dur v) (\<lambda>x. t\<lparr>rcBackends := x\<rparr>)
      else (case v of
              JNull \<Rightarrow> Inr (t\<lparr>rcSites := None\<rparr>, False)
            | JArr js \<Rightarrow> rbind (decode_items (\<lambda>i. decode_struct True site_names (set_site dur) i zero_site) js)
                (\<lambda>(xs, s). Inr (t\<lparr>rcSites := Some xs\<rparr>, s))
            | _ \<Rightarrow> Inr (t, True)))"

definition decode_raw :: "(string \<Rightarrow> int option) \<Rightarrow> json \<Rightarrow> rawConfig res" where
  "decode_raw dur j = finish (decode_struct True root_names (set_root dur) j zero_config)"

section \<open>decodeConfig\<close>

fun validate_statuses_from :: "nat \<Rightarrow> int list \<Rightarrow> int list \<Rightarrow> unit res" where
  "validate_statuses_from i seen [] = Inr ()"
| "validate_statuses_from i seen (s # ss) =
     (if s < 400 \<or> s > 599 then Inl (Err ''item %d must be between 400 and 599'' [N (int i)])
      else if s \<in> set seen then Inl (Err ''item %d duplicates status %d'' [N (int i), N s])
      else validate_statuses_from (Suc i) (s # seen) ss)"

definition validateRetryStatuses :: "int list \<Rightarrow> unit res" where
  "validateRetryStatuses statuses =
     (if length statuses = 0 then Inl (Err ''must not be empty'' []) else validate_statuses_from 0 [] statuses)"

definition decodeUpstreamTLS :: "rawUpstreamTLS option \<Rightarrow> ('x, 'k) upstreamTLSConfig option" where
  "decodeUpstreamTLS raw =
     (case raw of
        None \<Rightarrow> None
      | Some t \<Rightarrow> Some \<lparr>CAPath = opt_val [] (rawCA t), RootCAs = None, CAHash = zero_hash, ServerName = opt_val [] (rawName t),
          CertPath = opt_val [] (rawCert t), KeyPath = (if rawCert t = None then [] else opt_val [] (rawKey t)),
          ClientCert = None, CertHash = zero_hash, KeyHash = zero_hash\<rparr>)"

definition decodeDirectTimeout :: "rawDirectTimeout option \<Rightarrow> directTimeout option" where
  "decodeDirectTimeout raw =
     (case raw of
        None \<Rightarrow> None
      | Some t \<Rightarrow> Some \<lparr>DDial = opt_val 0 (rawDial t), DHeader = opt_val 0 (rawHeaderTime t), DBody = opt_val 0 (rawBodyTime t)\<rparr>)"

text \<open>\<open>ok\<close> stands for the rest of a body after a guard.\<close>

definition require :: "bool \<Rightarrow> string \<Rightarrow> garg list \<Rightarrow> 'a res \<Rightarrow> 'a res" where
  "require bad msg args ok = (if bad then Inl (Err msg args) else ok)"

definition check_retry :: "string \<Rightarrow> rawBackendConfig \<Rightarrow> int \<Rightarrow> backendRetryConfig option res" where
  "check_retry name rb n =
     (case rbRetry rb of
        None \<Rightarrow> Inr None
      | Some r \<Rightarrow>
          require (rbTries rb = None \<or> n \<le> 1) ''backends[%q].retry requires tries greater than one'' [S name]
          (rbind (wrap_err ''backends[%q].retry.status: %w'' [S name] (validateRetryStatuses (opt_val [] (rrStatus r)))) (\<lambda>_.
           rbind (case rrMethods r of
                    None \<Rightarrow> Inr ()
                  | Some ms \<Rightarrow> wrap_err ''backends[%q].retry.methods: %w'' [S name] (validateRetryMethods ms)) (\<lambda>_.
             Inr (Some \<lparr>RetryStatus = opt_val [] (rrStatus r), RetryMethods = opt_val [] (rrMethods r), RetryBody = rrBody r,
                RetryBackoff = rrBackoff r, RetryDeadline = opt_val 0 (rrDeadline r), RetryBudget = rrBudget r\<rparr>)))))"

definition check_backend :: "string \<Rightarrow> rawBackendConfig \<Rightarrow> ('x, 'k) backendConfig res" where
  "check_backend name rb =
     require (name = []) ''backend name must not be empty'' []
     (require (opt_val [] (rbTargets rb) = []) ''backends[%q].targets must not be empty'' [S name]
     (rbind (case rbWeights rb of
               None \<Rightarrow> Inr ()
             | Some ws \<Rightarrow> wrap_err ''backends[%q].weights: %w'' [S name]
                 (validateTargetWeights ws (length (opt_val [] (rbTargets rb))))) (\<lambda>_.
      let n = opt_val 1 (rbTries rb) in
      require (rbTries rb \<noteq> None \<and> (n < 1 \<or> n > int (length (opt_val [] (rbTargets rb)))))
        ''backends[%q].tries must be between 1 and the target count'' [S name]
      (rbind (check_retry name rb n) (\<lambda>retry.
        Inr \<lparr>Targets = opt_val [] (rbTargets rb), Weights = rbWeights rb, Tries = n,
          BTimeout = \<lparr>TDial = opt_val 0 (fst (rbTimeout rb)), THeader = opt_val 0 (snd (rbTimeout rb))\<rparr>,
          BTLS = decodeUpstreamTLS (rbTLS rb), BHealth = rbHealth rb, BRetry = retry\<rparr>)))))"

fun check_backends ::
  "(string, rawBackendConfig) gomap \<Rightarrow> (string, ('x, 'k) backendConfig) gomap \<Rightarrow>
   (string, ('x, 'k) backendConfig) gomap res" where
  "check_backends [] m = Inr m"
| "check_backends ((name, rb) # raw) m = rbind (check_backend name rb) (\<lambda>b. check_backends raw (go_put name b m))"

definition check_respond ::
  "(string \<Rightarrow> string option) \<Rightarrow> garg list \<Rightarrow> rawRouteConfig \<Rightarrow> generatedResponse option res" where
  "check_respond env at rr =
     (case rtRespond rr of
        None \<Rightarrow> Inr None
      | Some r \<Rightarrow>
          require (rtTarget rr \<noteq> None \<or> rtBackend rr \<noteq> None \<or> rtTimeout rr \<noteq> None \<or> rtTLS rr \<noteq> None \<or> rtHeaders rr \<noteq> None \<or>
              \<not> emptyResponseHeaderPolicy (rtResponse rr) \<or> rtRewrite rr \<noteq> None \<or> rtStrip rr)
            ''sites[%d].routes[%d].respond cannot be combined with upstream, headers, response, or rewrite fields'' at
          (rbind (wrap_err ''sites[%d].routes[%d].respond.headers: %w'' at
             (resolveResponseHeaders env \<lparr>Set = respHeaders r, Add = [], Remove = []\<rparr>)) (\<lambda>h.
            Inr (Some \<lparr>GStatus = respStatus r, GBody = opt_val [] (respBody r), GHeaders = h, Prepared = []\<rparr>))))"

definition check_match :: "garg list \<Rightarrow> rawRouteConfig \<Rightarrow> routeMatchConfig option res" where
  "check_match at rr =
     (case rtMatch rr of
        None \<Rightarrow> Inr None
      | Some m \<Rightarrow>
          rbind (wrap_err ''sites[%d].routes[%d].match.ip: %w'' at (parseRouteMatchPrefixes (opt_val [] (rmIP m)))) (\<lambda>ip.
            Inr (Some \<lparr>MatchHeader = opt_val [] (rmHeader m), MatchQuery = opt_val [] (rmQuery m), MatchIP = ip\<rparr>)))"

definition check_route ::
  "(string \<Rightarrow> string option) \<Rightarrow> garg list \<Rightarrow> rawSiteConfig \<Rightarrow> rawRouteConfig \<Rightarrow> ('x, 'k) routeConfig res" where
  "check_route env at rs rr =
     require (opt_val [] (rtPath rr) = []) ''sites[%d].routes[%d].path must be set'' at
     (rbind (case rtMethods rr of
               None \<Rightarrow> Inr () | Some ms \<Rightarrow> wrap_err ''sites[%d].routes[%d].methods: %w'' at (validateMethods ms)) (\<lambda>_.
      require (rtRewrite rr = Some []) ''sites[%d].routes[%d].rewrite must not be empty'' at
      (require (rtRewrite rr \<noteq> None \<and> rtStrip rr) ''sites[%d].routes[%d] cannot combine rewrite with strip:true'' at
      (rbind (check_respond env at rr) (\<lambda>respond.
       require (rtTarget rr \<noteq> None \<and> rtBackend rr \<noteq> None) ''sites[%d].routes[%d] cannot set both target and backend'' at
       (require (rtTarget rr = Some []) ''sites[%d].routes[%d].target must not be empty'' at
       (require (rtBackend rr = Some []) ''sites[%d].routes[%d].backend must not be empty'' at
       (require (rtTimeout rr \<noteq> None \<and> (rtBackend rr \<noteq> None \<or> rtTarget rr = None \<and> rsBackend rs \<noteq> None))
         ''sites[%d].routes[%d].timeout is not allowed with backend'' at
       (rbind (check_match at rr) (\<lambda>mat.
         Inr \<lparr>RPathText = opt_val [] (rtPath rr), Rewrite_to = opt_val [] (rtRewrite rr), RRespond = respond,
           RMethods = opt_val [] (rtMethods rr), RMatch = mat,
           RTarget = opt_val [] (rtTarget rr),
           RBackend = (if rtTarget rr = None then opt_val [] (rtBackend rr) else []),
           RTimeout = decodeDirectTimeout (rtTimeout rr), RTLS = decodeUpstreamTLS (rtTLS rr),
           RHeaders = opt_val [] (rtHeaders rr), RResponse = rtResponse rr, Strip = rtStrip rr\<rparr>))))))))))"

fun check_routes ::
  "(string \<Rightarrow> string option) \<Rightarrow> nat \<Rightarrow> nat \<Rightarrow> rawSiteConfig \<Rightarrow> rawRouteConfig list \<Rightarrow> ('x, 'k) routeConfig list res" where
  "check_routes env i k rs [] = Inr []"
| "check_routes env i k rs (r # rs') =
     rbind (check_route env [N (int i), N (int k)] rs r) (\<lambda>a.
       rbind (check_routes env i (Suc k) rs rs') (\<lambda>as. Inr (a # as)))"

definition check_site ::
  "(string \<Rightarrow> string option) \<Rightarrow> nat \<Rightarrow> rawSiteConfig \<Rightarrow> ('x, 'k) siteConfig res" where
  "check_site env i rs =
     require (opt_val [] (rsHosts rs) = []) ''sites[%d].hosts must not be empty'' [N (int i)]
     (require ((rsTarget rs \<noteq> None) = (rsBackend rs \<noteq> None))
       ''sites[%d] must set exactly one of target or backend'' [N (int i)]
     (require (rsTarget rs = Some []) ''sites[%d].target must not be empty'' [N (int i)]
     (require (rsBackend rs = Some []) ''sites[%d].backend must not be empty'' [N (int i)]
     (require (rsBackend rs \<noteq> None \<and> rsTimeout rs \<noteq> None) ''sites[%d].timeout is not allowed with backend'' [N (int i)]
     (rbind (check_routes env i 0 rs (rsRoutes rs)) (\<lambda>rts.
       Inr \<lparr>Hosts = opt_val [] (rsHosts rs), Target = opt_val [] (rsTarget rs),
         SBackend = (if rsTarget rs = None then opt_val [] (rsBackend rs) else []),
         STimeout = decodeDirectTimeout (rsTimeout rs), STLS = decodeUpstreamTLS (rsTLS rs), SHeaders = rsHeaders rs,
         SResponse = rsResponse rs, Routes = rts\<rparr>))))))"

fun check_sites ::
  "(string \<Rightarrow> string option) \<Rightarrow> nat \<Rightarrow> rawSiteConfig list \<Rightarrow> ('x, 'k) siteConfig list res" where
  "check_sites env i [] = Inr []"
| "check_sites env i (s # ss) =
     rbind (check_site env i s) (\<lambda>a. rbind (check_sites env (Suc i) ss) (\<lambda>as. Inr (a # as)))"

text \<open>What \<open>decodeConfig\<close> does with the decoded document; \<open>ptr\<close> is the address of the new
  \<open>limitConfig\<close>.\<close>

definition check_config :: "(string \<Rightarrow> string option) \<Rightarrow> nat \<Rightarrow> rawConfig \<Rightarrow> ('x, 'k) config res" where
  "check_config env ptr raw =
     require (trim_space (opt_val [] (rcListen raw)) = []) ''listen must be set'' []
     (require (opt_val [] (rcSites raw) = []) ''sites must define at least one site'' []
     (rbind (check_backends (rcBackends raw) []) (\<lambda>bs.
      rbind (check_sites env 0 (opt_val [] (rcSites raw))) (\<lambda>ss.
        Inr \<lparr>Listen = opt_val [] (rcListen raw), Log = rcLog raw, IDs = rcID raw,
          Limit = map_option (\<lambda>(r, b). \<lparr>cfg_ptr = ptr, Rate = r, Burst = b\<rparr>) (rcLimit raw),
          ServerTLS = rcTLS raw, TrustProxies = rcTrust raw, Backends = bs, Sites = ss\<rparr>))))"

definition decodeConfig ::
  "(string \<Rightarrow> int option) \<Rightarrow> (string \<Rightarrow> string option) \<Rightarrow> nat \<Rightarrow> json \<Rightarrow> ('x, 'k) config res" where
  "decodeConfig dur env ptr j =
     rbind (validateJSON (tokens_of j, EndOfInput)) (\<lambda>_. rbind (decode_raw dur j) (check_config env ptr))"

definition loadConfig ::
  "(string \<Rightarrow> int option) \<Rightarrow> (string \<Rightarrow> string option) \<Rightarrow> nat \<Rightarrow> string \<Rightarrow> gerr + json \<Rightarrow> ('x, 'k) config res" where
  "loadConfig dur env ptr fname data =
     rbind (wrap_err ''read %s: %w'' [S fname] data) (\<lambda>j. wrap_err ''parse %s: %w'' [S fname] (decodeConfig dur env ptr j))"

section \<open>Conditions of a route\<close>

fun alternatives_from :: "bool \<Rightarrow> nat \<Rightarrow> string list \<Rightarrow> string list \<Rightarrow> unit res" where
  "alternatives_from header i seen [] = Inr ()"
| "alternatives_from header i seen (a # as) =
     (if header \<and> \<not> validHeaderValue a
      then Inl (Err ''alternative %d contains invalid control characters'' [N (int i)])
      else if a \<in> set seen then Inl (Err ''duplicate alternative at index %d'' [N (int i)])
      else alternatives_from header (Suc i) (a # seen) as)"

definition validateMatchAlternatives :: "string list \<Rightarrow> bool \<Rightarrow> unit res" where
  "validateMatchAlternatives alts header =
     (if length alts = 0 then Inl (Err ''alternative array must not be empty'' [])
      else alternatives_from header 0 [] alts)"

fun resolve_match_header ::
  "(string, string list) gomap \<Rightarrow> (string, string list) gomap \<Rightarrow> (string, string list) gomap res" where
  "resolve_match_header m [] = Inr m"
| "resolve_match_header m ((name, alts) # raw) =
     (if \<not> validHeaderName name then Inl (Err ''header property %q is not a valid field name'' [S name])
      else let key = canonical_key name in
        if map_of m key \<noteq> None then Inl (Err ''header contains duplicate field name %q'' [S key])
        else rbind (wrap_err ''header property %q: %w'' [S key] (validateMatchAlternatives alts True)) (\<lambda>_.
          resolve_match_header (go_put key alts m) raw))"

fun resolve_match_query ::
  "(string, string list) gomap \<Rightarrow> (string, string list) gomap \<Rightarrow> (string, string list) gomap res" where
  "resolve_match_query m [] = Inr m"
| "resolve_match_query m ((name, alts) # raw) =
     (if name = [] then Inl (Err ''query property name must not be empty'' [])
      else rbind (wrap_err ''query property %q: %w'' [S name] (validateMatchAlternatives alts False)) (\<lambda>_.
        resolve_match_query (go_put name alts m) raw))"

text \<open>An empty map stands for a nil one: the decoders never leave an empty map.\<close>

definition resolveRouteMatch :: "routeMatchConfig option \<Rightarrow> routeMatchConfig res" where
  "resolveRouteMatch raw =
     (case raw of
        None \<Rightarrow> Inr \<lparr>MatchHeader = [], MatchQuery = [], MatchIP = []\<rparr>
      | Some c \<Rightarrow>
          require (length (MatchHeader c) = 0 \<and> length (MatchQuery c) = 0 \<and> length (MatchIP c) = 0)
            ''must contain header, query, or ip'' []
          (rbind (resolve_match_header [] (MatchHeader c)) (\<lambda>h.
           rbind (resolve_match_query [] (MatchQuery c)) (\<lambda>q.
           rbind (if length (MatchIP c) > 0 then wrap_err ''ip: %w'' [] (normalizeRouteMatchPrefixes (MatchIP c))
                  else Inr []) (\<lambda>ip.
             Inr \<lparr>MatchHeader = h, MatchQuery = q, MatchIP = ip\<rparr>)))))"

end
