(* ===== verification/Accepted.thy ===== *)
theory Accepted
  imports Config
begin

text \<open>
  What an accepted configuration promises. \<open>config_ok\<close> collects the guarantees the rest of the program
  relies on; \<open>decodeConfig\<close> gives them for every document it accepts. Behind it is a small calculus:
  \<open>yields r P\<close> says that the result of \<open>r\<close>, if there is one, satisfies \<open>P\<close>.
\<close>

named_theorems yield "what a decoder yields"

section \<open>Results that satisfy a predicate\<close>

definition yields :: "('e + 'a) \<Rightarrow> ('a \<Rightarrow> bool) \<Rightarrow> bool" where
  "yields r P \<longleftrightarrow> (\<forall>a. r = Inr a \<longrightarrow> P a)"

lemma yields_simps [simp]:
  "yields (Inl e) P" "yields (Inr a) P \<longleftrightarrow> P a"
  "yields (rbind r f) P \<longleftrightarrow> yields r (\<lambda>a. yields (f a) P)"
  "yields (wrap_err s g x) P \<longleftrightarrow> yields x P"
  "yields (require bad m g y) P \<longleftrightarrow> (\<not> bad \<longrightarrow> yields y P)"
  "yields (via z put) Q \<longleftrightarrow> yields z (\<lambda>b. Q (put b, False))"
  "yields (finish p) R \<longleftrightarrow> yields p (\<lambda>(a, saved). \<not> saved \<longrightarrow> R a)"
  by (auto simp: yields_def rbind_def via_def finish_def require_def split: sum.splits)

lemma yieldsD: "yields r P \<Longrightarrow> r = Inr a \<Longrightarrow> P a"
  by (simp add: yields_def)

lemma yields_mono: "yields r P \<Longrightarrow> (\<And>a. P a \<Longrightarrow> Q a) \<Longrightarrow> yields r Q"
  by (simp add: yields_def)

lemma yields_result: "yields r (\<lambda>a. r = Inr a)"
  by (simp add: yields_def)

lemma yields_any [simp]: "yields r (\<lambda>a. True)"
  by (simp add: yields_def)

text \<open>Members keep an invariant that every field keeps.\<close>

lemma yields_members:
  assumes "\<And>f v a. f \<in> set names \<Longrightarrow> Q a \<Longrightarrow> yields (setf f v a) (\<lambda>(b, s). Q b)" and "Q a"
  shows "yields (decode_members strict names setf ms a saved) (\<lambda>(b, s). Q b)"
  using assms(2)
proof (induction ms arbitrary: a saved)
  case Nil
  then show ?case by simp
next
  case (Cons m ms)
  obtain k j where m: "m = (k, j)" by force
  show ?case
  proof (cases "find_field names k")
    case None
    then show ?thesis using Cons m by simp
  next
    case (Some f)
    then have f: "f \<in> set names"
      by (auto simp: find_field_def find_Some_iff split: if_splits)
    have "yields (setf f j a) (\<lambda>(b, s). yields (decode_members strict names setf ms b (saved \<or> s)) (\<lambda>(c, s). Q c))"
      by (rule yields_mono [OF assms(1) [OF f Cons.prems, of j]]) (auto intro!: Cons.IH)
    then show ?thesis using m Some by (simp add: case_prod_unfold)
  qed
qed

lemma yields_decode_struct:
  assumes "\<And>f v a. f \<in> set names \<Longrightarrow> Q a \<Longrightarrow> yields (setf f v a) (\<lambda>(b, s). Q b)" and "Q a"
  shows "yields (decode_struct strict names setf j a) (\<lambda>(b, s). Q b)"
  using assms yields_members [of names Q setf a strict _ False] by (cases j) (simp_all add: assms(2))

lemma yields_struct:
  assumes "\<And>f v a. f \<in> set names \<Longrightarrow> Q a \<Longrightarrow> yields (setf f v a) (\<lambda>(b, s). Q b)" and "Q a"
  shows "yields (unmarshal_struct names setf a j) Q"
proof (cases j)
  case (JObj ms)
  from yields_decode_struct [of names Q setf a True j, OF assms] show ?thesis
    by (auto simp: unmarshal_struct_def JObj intro: yields_mono)
qed (simp_all add: unmarshal_struct_def)

lemma yields_ifI: "yields x Q \<Longrightarrow> yields y Q \<Longrightarrow> yields (if c then x else y) Q"
  by simp

lemma yields_items:
  assumes "\<And>j. yields (f j) (\<lambda>(b, s). Q b)"
  shows "yields (decode_items f js) (\<lambda>(bs, s). list_all Q bs)"
proof (induction js)
  case Nil
  then show ?case by simp
next
  case (Cons j js)
  then show ?case using assms [of j] by (auto simp: yields_def rbind_Inr_iff)
qed

section \<open>What is promised\<close>

definition some_ok :: "('a \<Rightarrow> bool) \<Rightarrow> 'a option \<Rightarrow> bool" where
  "some_ok P x = (case x of None \<Rightarrow> True | Some a \<Rightarrow> P a)"

lemma some_ok_simps [simp]: "some_ok P None" "some_ok P (Some a) = P a"
  by (simp_all add: some_ok_def)

definition budget_ok :: "backendBudgetConfig \<Rightarrow> bool" where
  "budget_ok b \<longleftrightarrow> 1 \<le> BudgetMax b \<and> BudgetMax b \<le> maxRetryBudget \<and> 0 < Window b"

definition backoff_ok :: "backoffConfig \<Rightarrow> bool" where
  "backoff_ok b \<longleftrightarrow> 0 < Base b \<and> Base b \<le> Cap b"

definition probe_ok :: "backendHealthProbeConfig \<Rightarrow> bool" where
  "probe_ok p \<longleftrightarrow> 0 < ProbeTimeout p \<and> ProbeTimeout p \<le> ProbeEvery p \<and> ProbeEvery p \<le> maxHealthProbeDuration \<and>
     has_prefix (Path (ProbePath p)) ''/'' \<and> Scheme (ProbePath p) = [] \<and> UHost (ProbePath p) = []"

definition health_ok :: "backendHealthConfig \<Rightarrow> bool" where
  "health_ok h \<longleftrightarrow> 1 \<le> HFail h \<and> HFail h \<le> maxHealthFailures \<and> 0 < HCool h \<and> HCool h \<le> maxHealthCooldown \<and>
     some_ok probe_ok (HProbe h)"

definition statuses_ok :: "int list \<Rightarrow> bool" where
  "statuses_ok ss \<longleftrightarrow> ss \<noteq> [] \<and> distinct ss \<and> (\<forall>s \<in> set ss. 400 \<le> s \<and> s \<le> 599)"

definition retry_ok :: "backendRetryConfig \<Rightarrow> bool" where
  "retry_ok r \<longleftrightarrow> statuses_ok (RetryStatus r) \<and>
     (RetryMethods r = [] \<or> validateRetryMethods (RetryMethods r) = Inr ()) \<and>
     some_ok (\<lambda>m. 1 \<le> m \<and> m \<le> maxRetryBodyBytes) (RetryBody r) \<and> some_ok backoff_ok (RetryBackoff r) \<and>
     0 \<le> RetryDeadline r \<and> some_ok budget_ok (RetryBudget r)"

definition upstream_tls_ok :: "('x, 'k) upstreamTLSConfig \<Rightarrow> bool" where
  "upstream_tls_ok t \<longleftrightarrow> (CertPath t = [] \<longleftrightarrow> KeyPath t = []) \<and> \<not> (CAPath t = [] \<and> ServerName t = [] \<and> CertPath t = []) \<and>
     (ServerName t = [] \<or> validateUpstreamServerName (ServerName t) = Inr ())"

definition timeout_ok :: "directTimeout \<Rightarrow> bool" where
  "timeout_ok t \<longleftrightarrow> (\<forall>d \<in> {DDial t, DHeader t, DBody t}. 0 \<le> d \<and> d \<le> maxDirectTimeout) \<and>
     (0 < DDial t \<or> 0 < DHeader t \<or> 0 < DBody t)"

definition backend_ok :: "('x, 'k) backendConfig \<Rightarrow> bool" where
  "backend_ok b \<longleftrightarrow> Targets b \<noteq> [] \<and> 1 \<le> Tries b \<and> Tries b \<le> int (length (Targets b)) \<and>
     some_ok (\<lambda>ws. validateTargetWeights ws (length (Targets b)) = Inr ()) (Weights b) \<and>
     0 \<le> TDial (BTimeout b) \<and> 0 \<le> THeader (BTimeout b) \<and> some_ok upstream_tls_ok (BTLS b) \<and>
     some_ok health_ok (BHealth b) \<and> some_ok (\<lambda>r. retry_ok r \<and> 1 < Tries b) (BRetry b)"

definition respond_ok :: "generatedResponse \<Rightarrow> bool" where
  "respond_ok g \<longleftrightarrow> validateGeneratedResponse g = Inr ()"

definition match_ok :: "routeMatchConfig \<Rightarrow> bool" where
  "match_ok m \<longleftrightarrow> \<not> (MatchHeader m = [] \<and> MatchQuery m = [] \<and> MatchIP m = [])"

text \<open>A generated response stands alone; otherwise at most one of target and backend is given and a
  timeout belongs to a target, the route's own or that of the site.\<close>

definition routeConfig_ok :: "string \<Rightarrow> ('x, 'k) routeConfig \<Rightarrow> bool" where
  "routeConfig_ok site_target r \<longleftrightarrow> RPathText r \<noteq> [] \<and> (RMethods r = [] \<or> validateMethods (RMethods r) = Inr ()) \<and>
     \<not> (Rewrite_to r \<noteq> [] \<and> Strip r) \<and> (RTarget r = [] \<or> RBackend r = []) \<and>
     some_ok match_ok (RMatch r) \<and> some_ok upstream_tls_ok (RTLS r) \<and>
     some_ok (\<lambda>t. timeout_ok t \<and> RBackend r = [] \<and> (RTarget r \<noteq> [] \<or> site_target \<noteq> [])) (RTimeout r) \<and>
     some_ok (\<lambda>g. respond_ok g \<and> RTarget r = [] \<and> RBackend r = [] \<and> RTimeout r = None \<and> RTLS r = None \<and> RHeaders r = [] \<and>
       emptyResponseHeaderPolicy (RResponse r) \<and> Rewrite_to r = [] \<and> \<not> Strip r) (RRespond r)"

definition siteConfig_ok :: "('x, 'k) siteConfig \<Rightarrow> bool" where
  "siteConfig_ok s \<longleftrightarrow> Hosts s \<noteq> [] \<and> (Target s = [] \<longleftrightarrow> SBackend s \<noteq> []) \<and>
     some_ok (\<lambda>t. timeout_ok t \<and> SBackend s = []) (STimeout s) \<and> some_ok upstream_tls_ok (STLS s) \<and>
     list_all (routeConfig_ok (Target s)) (Routes s)"

definition config_ok :: "('x, 'k) config \<Rightarrow> bool" where
  "config_ok c \<longleftrightarrow> trim_space (Listen c) \<noteq> [] \<and> Sites c \<noteq> [] \<and> list_all siteConfig_ok (Sites c) \<and>
     wf_gomap (Backends c) \<and> list_all (\<lambda>(name, b). name \<noteq> [] \<and> backend_ok b) (Backends c) \<and>
     some_ok (\<lambda>l. 1 \<le> Rate l \<and> Rate l \<le> maxLimitRate \<and> 1 \<le> Burst l \<and> Burst l \<le> maxLimitBurst) (Limit c) \<and>
     some_ok (\<lambda>t. Cert t \<noteq> [] \<and> Key t \<noteq> []) (ServerTLS c)"

lemma some_ok_mono: "some_ok P x \<Longrightarrow> (\<And>a. P a \<Longrightarrow> Q a) \<Longrightarrow> some_ok Q x"
  by (cases x) auto

lemma opt_val_Nil_iff: "opt_val [] x = [] \<longleftrightarrow> x = None \<or> x = Some []"
  by (auto simp: opt_val_def split: option.splits)

section \<open>The decoders keep the promises\<close>

lemma yields_all: "(\<And>a. Q a) \<Longrightarrow> yields r Q"
  by (simp add: yields_def)

lemmas yields_values [yield] =
  yields_all [of _ "unmarshal_optionalInt j" for j] yields_all [of _ "unmarshal_optionalString j" for j]
  yields_all [of _ "unmarshal_stringArray j" for j] yields_all [of _ "unmarshal_optionalIntArray j" for j]
  yields_all [of _ "unmarshal_strictBool j" for j] yields_all [of _ "unmarshal_headerMap j" for j]
  yields_all [of _ "unmarshal_conditionValues j" for j] yields_all [of _ "unmarshal_optionalRespondHeaders j" for j]
  yields_all [of _ "unmarshal_responseHeaderPolicy j" for j]

lemma yields_duration [yield]:
  "(\<And>d. 0 < d \<Longrightarrow> Q d) \<Longrightarrow> yields (unmarshal_optionalDuration dur j) Q"
  by (cases "(dur, j)" rule: unmarshal_optionalDuration.cases) (auto split: option.splits)

lemma yields_structI:
  assumes "\<And>f v a. f \<in> set names \<Longrightarrow> Q a \<Longrightarrow> yields (setf f v a) (\<lambda>(b, s). Q b)" and "Q a"
    and "\<And>b. Q b \<Longrightarrow> P b"
  shows "yields (unmarshal_struct names setf a j) P"
  by (rule yields_mono [OF yields_struct [where Q = Q], OF assms(1,2)]) (use assms(3) in auto)

definition raw_limit_ok :: "int \<times> int \<Rightarrow> bool" where
  "raw_limit_ok p \<longleftrightarrow> 1 \<le> fst p \<and> fst p \<le> maxLimitRate \<and> 1 \<le> snd p \<and> snd p \<le> maxLimitBurst"

lemma limit_yields: "yields (unmarshal_rawLimit j) raw_limit_ok"
  unfolding unmarshal_rawLimit_def yields_simps
  by (rule yields_all) (auto simp: raw_limit_ok_def split: prod.splits option.splits)

lemma server_tls_yields: "yields (unmarshal_rawTLSConfig j) (\<lambda>t. Cert t \<noteq> [] \<and> Key t \<noteq> [])"
  unfolding unmarshal_rawTLSConfig_def yields_simps by (rule yields_all) (auto split: prod.splits)

definition raw_times_ok :: "int option \<times> int option \<Rightarrow> bool" where
  "raw_times_ok p \<longleftrightarrow> some_ok ((<) 0) (fst p) \<and> some_ok ((<) 0) (snd p)"

lemma backend_timeout_yields: "yields (unmarshal_rawBackendTimeout dur j) raw_times_ok"
  unfolding unmarshal_rawBackendTimeout_def yields_simps
  by (rule yields_structI [where Q = raw_times_ok]) (auto simp: raw_times_ok_def intro!: yield split: prod.splits)

definition raw_tls_ok :: "rawUpstreamTLS \<Rightarrow> bool" where
  "raw_tls_ok t \<longleftrightarrow> \<not> (rawCA t = None \<and> rawName t = None \<and> rawCert t = None) \<and>
     rawCA t \<noteq> Some [] \<and> rawName t \<noteq> Some [] \<and> rawCert t \<noteq> Some [] \<and> rawKey t \<noteq> Some [] \<and>
     (rawCert t = None \<longleftrightarrow> rawKey t = None) \<and> some_ok (\<lambda>n. validateUpstreamServerName n = Inr ()) (rawName t)"

lemma upstream_tls_yields: "yields (unmarshal_rawUpstreamTLS j) raw_tls_ok"
  unfolding unmarshal_rawUpstreamTLS_def yields_simps
  by (rule yields_all)
     (auto simp: raw_tls_ok_def some_ok_def yields_def rbind_Inr_iff split: if_splits option.splits)

definition raw_timeout_ok :: "rawDirectTimeout \<Rightarrow> bool" where
  "raw_timeout_ok t \<longleftrightarrow> \<not> (rawDial t = None \<and> rawHeaderTime t = None \<and> rawBodyTime t = None) \<and>
     (\<forall>x \<in> {rawDial t, rawHeaderTime t, rawBodyTime t}. some_ok (\<lambda>d. 0 < d \<and> d \<le> maxDirectTimeout) x)"

lemma direct_timeout_yields: "yields (unmarshal_rawDirectTimeout dur j) raw_timeout_ok"
  unfolding unmarshal_rawDirectTimeout_def yields_simps
  by (rule yields_structI [where
        Q = "\<lambda>t. \<forall>x \<in> {rawDial t, rawHeaderTime t, rawBodyTime t}. some_ok ((<) 0) x"])
     (auto simp: raw_timeout_ok_def some_ok_def above_def intro!: yield split: option.splits)

lemma body_yields: "yields (unmarshal_rawBackendBody j) (\<lambda>m. 1 \<le> m \<and> m \<le> maxRetryBodyBytes)"
  unfolding unmarshal_rawBackendBody_def yields_simps by (rule yields_all) (auto split: option.splits)

lemma budget_yields: "yields (unmarshal_rawBackendBudget dur j) budget_ok"
  unfolding unmarshal_rawBackendBudget_def yields_simps
  by (rule yields_structI [where Q = "\<lambda>(m, w). some_ok ((<) 0) w"])
     (auto simp: budget_ok_def intro!: yield split: option.splits)

lemma backoff_yields: "yields (unmarshal_rawBackendBackoff dur j) backoff_ok"
  unfolding unmarshal_rawBackendBackoff_def yields_simps
  by (rule yields_structI [where Q = "\<lambda>(b, c, s). some_ok ((<) 0) b \<and> some_ok ((<) 0) c"])
     (auto simp: backoff_ok_def Let_def intro!: yield split: option.splits prod.splits)

lemmas yields_nested [yield] = yields_mono [OF limit_yields] yields_mono [OF server_tls_yields]
  yields_mono [OF backend_timeout_yields] yields_mono [OF upstream_tls_yields] yields_mono [OF direct_timeout_yields]
  yields_mono [OF body_yields] yields_mono [OF budget_yields] yields_mono [OF backoff_yields]

definition raw_retry_ok :: "rawBackendRetry \<Rightarrow> bool" where
  "raw_retry_ok r \<longleftrightarrow> some_ok (\<lambda>m. 1 \<le> m \<and> m \<le> maxRetryBodyBytes) (rrBody r) \<and> some_ok backoff_ok (rrBackoff r) \<and>
     some_ok ((<) 0) (rrDeadline r) \<and> some_ok budget_ok (rrBudget r)"

lemma retry_yields: "yields (unmarshal_rawBackendRetry dur j) raw_retry_ok"
  unfolding unmarshal_rawBackendRetry_def yields_simps
  by (rule yields_structI [where Q = raw_retry_ok]) (auto simp: raw_retry_ok_def intro!: yield)

lemma probe_path_yields:
  "yields (parseHealthProbePath raw) (\<lambda>u. has_prefix (Path u) ''/'' \<and> Scheme u = [] \<and> UHost u = [])"
proof -
  have "has_prefix (Path u) ''/''" if u: "parse_request_uri raw = Some u" and r: "has_prefix raw ''/''" for u
  proof -
    from r obtain t where t: "raw = CHR ''/'' # t" by (auto simp: go_str)
    have "\<exists>w. fst (cut_at CHR ''?'' raw) = CHR ''/'' # w" by (simp add: cut_at_def t)
    moreover have "\<exists>w. take (length raw - 1) raw = CHR ''/'' # w"
      if "has_suffix raw ''?''"
    proof -
      from that obtain q where q: "raw = q @ ''?''" by (auto simp: go_str)
      with t obtain w where "q = CHR ''/'' # w" by (cases q) auto
      then show ?thesis using q by simp
    qed
    ultimately show ?thesis using u
      by (auto simp: parse_request_uri_def Let_def go_str split: prod.splits if_splits option.splits)
  qed
  then show ?thesis
    by (auto simp: parseHealthProbePath_def split: option.splits)
qed

lemma probe_yields: "yields (unmarshal_rawBackendHealthProbe dur j) probe_ok"
  unfolding unmarshal_rawBackendHealthProbe_def yields_simps
  by (rule yields_structI [where Q = "\<lambda>(p, e, t). some_ok ((<) 0) e \<and> some_ok ((<) 0) t"])
     (auto simp: probe_ok_def above_def opt_val_def intro!: yield yields_mono [OF probe_path_yields] split: option.splits)

lemma health_yields: "yields (unmarshal_rawBackendHealth dur j) health_ok"
  unfolding unmarshal_rawBackendHealth_def yields_simps
  by (rule yields_structI [where Q = "\<lambda>(n, c, p). some_ok ((<) 0) c \<and> some_ok probe_ok p"])
     (auto simp: health_ok_def above_def opt_val_def intro!: yield yields_mono [OF probe_yields] split: option.splits)

definition raw_backend_ok :: "rawBackendConfig \<Rightarrow> bool" where
  "raw_backend_ok b \<longleftrightarrow> raw_times_ok (rbTimeout b) \<and> some_ok raw_tls_ok (rbTLS b) \<and> some_ok health_ok (rbHealth b) \<and>
     some_ok raw_retry_ok (rbRetry b)"

lemma arrayPtr_yields [yield]: "(\<And>x. Q (put x, False)) \<Longrightarrow> yields (decode_arrayPtr j put) Q"
  by (cases "(j, put)" rule: decode_arrayPtr.cases) (auto intro: yields_all)

lemma stringPtr_yields [yield]: "(\<And>x. Q (put x, False)) \<Longrightarrow> Q (a, True) \<Longrightarrow> yields (decode_stringPtr j put a) Q"
  by (cases "(j, put, a)" rule: decode_stringPtr.cases) auto

lemma backend_yields: "yields (unmarshal_rawBackendConfig dur j) raw_backend_ok"
proof (cases j)
  case (JObj ms)
  show ?thesis
    unfolding unmarshal_rawBackendConfig_def JObj json.case yields_simps
  proof (rule yields_mono, rule yields_decode_struct [where Q = raw_backend_ok], goal_cases)
    case (1 f v a)
    show ?case
      by (intro yields_ifI; use 1(2) in \<open>auto simp: raw_backend_ok_def intro!: yield yields_mono [OF health_yields]
        yields_mono [OF retry_yields]\<close>)
  qed (auto simp: raw_backend_ok_def zero_backend_def raw_times_ok_def)
qed (simp_all add: unmarshal_rawBackendConfig_def)

definition raw_backends_ok :: "(string, rawBackendConfig) gomap \<Rightarrow> bool" where
  "raw_backends_ok m \<longleftrightarrow> wf_gomap m \<and> list_all (\<lambda>(k, b). raw_backend_ok b) m"

lemma raw_backends_Nil [simp]: "raw_backends_ok []"
  by (simp add: raw_backends_ok_def)

lemma raw_backends_put: "raw_backends_ok m \<Longrightarrow> raw_backend_ok b \<Longrightarrow> raw_backends_ok (go_put k b m)"
  using go_put_set [of k b m] by (auto simp: raw_backends_ok_def list_all_iff)

lemma backend_members_yields: "raw_backends_ok m \<Longrightarrow> yields (backend_members dur ms m) raw_backends_ok"
proof (induction ms arbitrary: m)
  case (Cons p ms)
  then show ?case
    by (cases p) (auto intro!: yields_mono [OF backend_yields] Cons.IH raw_backends_put)
qed simp

lemma backends_yields: "yields (unmarshal_rawBackends dur j) raw_backends_ok"
  by (cases "(dur, j)" rule: unmarshal_rawBackends.cases)
     (auto intro!: backend_members_yields simp: raw_backends_ok_def)

definition raw_respond_ok :: "rawRespond \<Rightarrow> bool" where
  "raw_respond_ok r \<longleftrightarrow> 200 \<le> respStatus r \<and> respStatus r \<le> 599 \<and>
     length (opt_val [] (respBody r)) \<le> maxGeneratedBodyBytes \<and>
     (respStatus r \<in> {204, 205, 304} \<longrightarrow> opt_val [] (respBody r) = [])"

lemma respond_yields: "yields (unmarshal_rawRespond j) raw_respond_ok"
  unfolding unmarshal_rawRespond_def yields_simps
  by (rule yields_all) (auto simp: raw_respond_ok_def opt_val_def split: prod.splits option.splits if_splits)

definition raw_match_ok :: "rawRouteMatch \<Rightarrow> bool" where
  "raw_match_ok t \<longleftrightarrow> \<not> (rmHeader t = None \<and> rmQuery t = None \<and> rmIP t = None) \<and>
     rmHeader t \<noteq> Some [] \<and> rmQuery t \<noteq> Some [] \<and> rmIP t \<noteq> Some []"

lemma match_yields: "yields (unmarshal_rawRouteMatch j) raw_match_ok"
  unfolding unmarshal_rawRouteMatch_def yields_simps by (rule yields_all) (auto simp: raw_match_ok_def)

definition raw_route_ok :: "rawRouteConfig \<Rightarrow> bool" where
  "raw_route_ok r \<longleftrightarrow> some_ok raw_respond_ok (rtRespond r) \<and> some_ok raw_match_ok (rtMatch r) \<and>
     some_ok raw_timeout_ok (rtTimeout r) \<and> some_ok raw_tls_ok (rtTLS r)"

lemma route_yields:
  "yields (decode_struct True route_names (set_route dur) j zero_route) (\<lambda>(r, s). raw_route_ok r)"
proof (rule yields_decode_struct, goal_cases)
  case (1 f v a)
  show ?case
    unfolding set_route_def
    by (intro yields_ifI; use 1(2) in \<open>auto simp: raw_route_ok_def intro!: yield yields_mono [OF respond_yields]
      yields_mono [OF match_yields]\<close>)
qed (simp add: raw_route_ok_def zero_route_def)

lemma routes_yields: "yields (unmarshal_rawRoutes dur j) (list_all raw_route_ok)"
proof (cases j)
  case (JArr js)
  have "yields (decode_items (\<lambda>i. decode_struct True route_names (set_route dur) i zero_route) js)
      (\<lambda>(bs, s). list_all raw_route_ok bs)"
    by (rule yields_items) (rule route_yields)
  then show ?thesis
    by (auto simp: unmarshal_rawRoutes_def JArr elim: yields_mono)
qed (simp_all add: unmarshal_rawRoutes_def)

definition raw_site_ok :: "rawSiteConfig \<Rightarrow> bool" where
  "raw_site_ok s \<longleftrightarrow> some_ok raw_timeout_ok (rsTimeout s) \<and> some_ok raw_tls_ok (rsTLS s) \<and>
     list_all raw_route_ok (rsRoutes s)"

lemma site_yields:
  "yields (decode_struct True site_names (set_site dur) j zero_site) (\<lambda>(r, s). raw_site_ok r)"
proof (rule yields_decode_struct, goal_cases)
  case (1 f v a)
  show ?case
    unfolding set_site_def
    by (intro yields_ifI; use 1(2) in \<open>auto simp: raw_site_ok_def intro!: yield yields_mono [OF routes_yields]\<close>)
qed (simp add: raw_site_ok_def zero_site_def)

definition raw_config_ok :: "rawConfig \<Rightarrow> bool" where
  "raw_config_ok c \<longleftrightarrow> some_ok raw_limit_ok (rcLimit c) \<and> some_ok (\<lambda>t. Cert t \<noteq> [] \<and> Key t \<noteq> []) (rcTLS c) \<and>
     raw_backends_ok (rcBackends c) \<and> some_ok (list_all raw_site_ok) (rcSites c)"

lemma root_yields: "yields (decode_raw dur j) raw_config_ok"
proof -
  have sites: "yields (decode_items (\<lambda>i. decode_struct True site_names (set_site dur) i zero_site) js)
      (\<lambda>(bs, s). list_all raw_site_ok bs)" for js
    by (rule yields_items) (rule site_yields)
  have "yields (decode_struct True root_names (set_root dur) j zero_config) (\<lambda>(c, s). raw_config_ok c)"
  proof (rule yields_decode_struct, goal_cases)
    case (1 f v a)
    show ?case
      unfolding set_root_def
      by (intro yields_ifI; (cases v rule: json.exhaust)?; use 1(2) in \<open>auto simp: raw_config_ok_def intro!: yield backend_members_yields yields_mono [OF backends_yields]
        yields_mono [OF sites]\<close>)
  qed (simp add: raw_config_ok_def zero_config_def raw_backends_ok_def)
  then show ?thesis by (auto simp: decode_raw_def elim: yields_mono)
qed

section \<open>The checks of decodeConfig\<close>

lemma validate_statuses_iff:
  "validate_statuses_from i seen ss = Inr () \<longleftrightarrow>
     distinct ss \<and> set ss \<inter> set seen = {} \<and> (\<forall>s \<in> set ss. 400 \<le> s \<and> s \<le> 599)"
  by (induction i seen ss rule: validate_statuses_from.induct) auto

lemma validateRetryStatuses_iff: "validateRetryStatuses ss = Inr () \<longleftrightarrow> statuses_ok ss"
  by (auto simp: validateRetryStatuses_def statuses_ok_def validate_statuses_iff)

lemma decode_tls_ok: "some_ok raw_tls_ok t \<Longrightarrow> some_ok upstream_tls_ok (decodeUpstreamTLS t)"
  by (cases t) (auto simp: decodeUpstreamTLS_def raw_tls_ok_def upstream_tls_ok_def opt_val_def split: option.splits)

lemma decode_timeout_ok:
  "some_ok raw_timeout_ok t \<Longrightarrow> some_ok timeout_ok (decodeDirectTimeout t)"
  by (cases t)
     (auto simp: decodeDirectTimeout_def raw_timeout_ok_def timeout_ok_def opt_val_def maxDirectTimeout_def hour_def
       split: option.splits)

lemma decode_none [simp]:
  "decodeUpstreamTLS None = None" "decodeDirectTimeout None = None"
  "decodeDirectTimeout t = None \<longleftrightarrow> t = None" "decodeUpstreamTLS u = None \<longleftrightarrow> u = None"
  by (auto simp: decodeUpstreamTLS_def decodeDirectTimeout_def split: option.splits)

lemma check_retry_yields:
  "some_ok raw_retry_ok (rbRetry rb) \<Longrightarrow>
   yields (check_retry name rb n) (some_ok (\<lambda>r. retry_ok r \<and> 1 < n))"
  unfolding check_retry_def
  by (auto simp: yields_def rbind_Inr_iff require_def retry_ok_def raw_retry_ok_def opt_val_def
      validateRetryStatuses_iff less_imp_le split: option.splits if_splits)

lemma check_backend_yields:
  assumes "raw_backend_ok rb"
  shows "yields (check_backend name rb) (\<lambda>b. name \<noteq> [] \<and> backend_ok b)"
proof -
  have times: "0 \<le> opt_val 0 (fst (rbTimeout rb))" "0 \<le> opt_val 0 (snd (rbTimeout rb))"
    using assms by (auto simp: raw_backend_ok_def raw_times_ok_def opt_val_def some_ok_def split: option.splits)
  have weights: "yields (case rbWeights rb of None \<Rightarrow> Inr ()
        | Some ws \<Rightarrow> wrap_err m g (validateTargetWeights ws k))
      (\<lambda>u. some_ok (\<lambda>ws. validateTargetWeights ws k = Inr ()) (rbWeights rb))" for m g k
    by (cases "rbWeights rb") (simp_all add: yields_def)
  have tries: "1 \<le> opt_val 1 (rbTries rb) \<and> opt_val 1 (rbTries rb) \<le> int (length (opt_val [] (rbTargets rb)))"
    if "opt_val [] (rbTargets rb) \<noteq> []"
       "rbTries rb = None \<or> \<not> opt_val 1 (rbTries rb) < 1 \<and> \<not> int (length (opt_val [] (rbTargets rb))) < opt_val 1 (rbTries rb)"
    using that by (cases "rbTries rb") (auto simp: opt_val_def Suc_leI split: option.splits)
  show ?thesis
    using assms times tries
    by (auto simp: check_backend_def Let_def backend_ok_def raw_backend_ok_def decode_tls_ok
        intro!: yields_mono [OF weights] yields_mono [OF check_retry_yields])
qed

lemma check_backends_yields:
  assumes "raw_backends_ok raw" "wf_gomap m" "list_all (\<lambda>(name, b). name \<noteq> [] \<and> backend_ok b) m"
  shows "yields (check_backends raw m) (\<lambda>bs. wf_gomap bs \<and> list_all (\<lambda>(name, b). name \<noteq> [] \<and> backend_ok b) bs)"
  using assms
proof (induction raw m rule: check_backends.induct)
  case (2 name rb raw m)
  have "raw_backends_ok raw" "raw_backend_ok rb"
    using 2(2) by (auto simp: raw_backends_ok_def wf_gomap_def)
  moreover have "list_all (\<lambda>(name, b). name \<noteq> [] \<and> backend_ok b) (go_put name b m)"
    if "name \<noteq> []" "backend_ok b" for b :: "('a, 'b) backendConfig"
    using go_put_set [of name b m] 2(4) that by (auto simp: list_all_iff)
  ultimately show ?case
    using 2(1,3) by (auto intro!: yields_mono [OF check_backend_yields])
qed simp

lemma check_respond_yields:
  assumes "some_ok raw_respond_ok (rtRespond rr)"
  shows "yields (check_respond env at rr) (some_ok (\<lambda>g. respond_ok g \<and> rtTarget rr = None \<and> rtBackend rr = None \<and>
    rtTimeout rr = None \<and> rtTLS rr = None \<and> rtHeaders rr = None \<and> emptyResponseHeaderPolicy (rtResponse rr) \<and>
    rtRewrite rr = None \<and> \<not> rtStrip rr))"
  using assms
  by (cases "rtRespond rr")
     (auto simp: check_respond_def respond_ok_def raw_respond_ok_def validateGeneratedResponse_def intro!: yields_all)

lemma normalize_from_length: "normalize_from i seen ps = Inr qs \<Longrightarrow> length qs = length ps"
  by (induction i seen ps arbitrary: qs rule: normalize_from.induct)
     (auto simp: rbind_Inr_iff Let_def split: if_splits)

lemma parse_match_length: "parse_match_from i vs = Inr ps \<Longrightarrow> length ps = length vs"
  by (induction i vs arbitrary: ps rule: parse_match_from.induct)
     (auto simp: rbind_Inr_iff split: option.splits)

lemma parse_prefixes_length: "parseRouteMatchPrefixes vs = Inr ps \<Longrightarrow> length ps = length vs"
  by (auto simp: parseRouteMatchPrefixes_def normalizeRouteMatchPrefixes_def rbind_Inr_iff
      dest!: normalize_from_length parse_match_length)

lemma check_match_yields:
  assumes "some_ok raw_match_ok (rtMatch rr)"
  shows "yields (check_match at rr) (some_ok match_ok)"
proof (cases "rtMatch rr")
  case (Some m)
  have parsed: "yields (parseRouteMatchPrefixes xs) (\<lambda>ps. length ps = length xs)" for xs
    by (simp add: parse_prefixes_length yields_def)
  show ?thesis
    using assms Some
    by (auto simp: check_match_def match_ok_def raw_match_ok_def opt_val_def intro!: yields_mono [OF parsed]
        split: option.splits)
qed (simp add: check_match_def)

lemma methods_yields:
  "yields (case ms of None \<Rightarrow> Inr () | Some xs \<Rightarrow> wrap_err s g (validateMethods xs))
     (\<lambda>u. opt_val [] ms = [] \<or> validateMethods (opt_val [] ms) = Inr ())"
  by (cases ms) (simp_all add: yields_def opt_val_def)

lemma check_route_yields:
  assumes "raw_route_ok rr" and site: "rsTarget rs = None \<longleftrightarrow> rsBackend rs \<noteq> None" "rsTarget rs \<noteq> Some []"
  shows "yields (check_route env at rs rr) (routeConfig_ok (opt_val [] (rsTarget rs)))"
proof -
  have parts: "some_ok raw_respond_ok (rtRespond rr)" "some_ok raw_match_ok (rtMatch rr)"
      "some_ok timeout_ok (decodeDirectTimeout (rtTimeout rr) :: directTimeout option)"
      "some_ok upstream_tls_ok (decodeUpstreamTLS (rtTLS rr) :: ('a, 'b) upstreamTLSConfig option)"
    using assms(1) by (simp_all add: raw_route_ok_def decode_timeout_ok decode_tls_ok)
  show ?thesis
    unfolding check_route_def yields_simps
  proof (intro impI yields_mono [OF methods_yields] yields_mono [OF check_respond_yields [OF parts(1)]]
        yields_mono [OF check_match_yields [OF parts(2)]], goal_cases)
    case (1 u respond mat)
    have target: "rtTarget rr \<noteq> None \<Longrightarrow> opt_val [] (rtTarget rr) \<noteq> []"
      and site_target: "rsBackend rs = None \<Longrightarrow> opt_val [] (rsTarget rs) \<noteq> []"
      using 1 site by (auto simp: opt_val_Nil_iff)
    have "some_ok (\<lambda>t. timeout_ok t \<and> (if rtTarget rr = None then opt_val [] (rtBackend rr) else []) = [] \<and>
        (opt_val [] (rtTarget rr) \<noteq> [] \<or> opt_val [] (rsTarget rs) \<noteq> [])) (decodeDirectTimeout (rtTimeout rr))"
    proof (cases "decodeDirectTimeout (rtTimeout rr)")
      case (Some t)
      then have "rtTimeout rr \<noteq> None" by (metis decode_none(2) option.distinct(1))
      then show ?thesis using 1 Some parts(3) target site_target by (auto simp: opt_val_def)
    qed simp
    moreover have "some_ok (\<lambda>g. respond_ok g \<and> opt_val [] (rtTarget rr) = [] \<and>
        (if rtTarget rr = None then opt_val [] (rtBackend rr) else []) = [] \<and>
        decodeDirectTimeout (rtTimeout rr) = None \<and> (decodeUpstreamTLS (rtTLS rr) :: ('a, 'b) upstreamTLSConfig option) = None \<and>
        opt_val [] (rtHeaders rr) = [] \<and> emptyResponseHeaderPolicy (rtResponse rr) \<and> opt_val [] (rtRewrite rr) = [] \<and>
        \<not> rtStrip rr) respond"
      by (rule some_ok_mono [OF 1(5)]) (simp add: opt_val_def)
    moreover have "opt_val [] (rtTarget rr) = [] \<or> (if rtTarget rr = None then opt_val [] (rtBackend rr) else []) = []"
      by (simp add: opt_val_def)
    moreover have "\<not> (opt_val [] (rtRewrite rr) \<noteq> [] \<and> rtStrip rr)"
      using 1(4) by (auto simp: opt_val_def)
    ultimately show ?case
      unfolding routeConfig_ok_def using 1(1,2,10) parts(4) by simp
  qed
qed

lemma check_routes_yields:
  assumes "list_all raw_route_ok rrs" "rsTarget rs = None \<longleftrightarrow> rsBackend rs \<noteq> None" "rsTarget rs \<noteq> Some []"
  shows "yields (check_routes env i k rs rrs) (list_all (routeConfig_ok (opt_val [] (rsTarget rs))))"
  using assms(1)
proof (induction rrs arbitrary: k)
  case (Cons r rrs)
  then have "raw_route_ok r" "list_all raw_route_ok rrs" by simp_all
  then show ?case
    using Cons.IH by (auto intro!: yields_mono [OF check_route_yields [OF _ assms(2,3)]] yields_mono [OF Cons.IH])
qed simp

lemma check_site_yields:
  assumes "raw_site_ok rs"
  shows "yields (check_site env i rs) siteConfig_ok"
  unfolding check_site_def yields_simps
proof (intro impI, goal_cases)
  case 1
  have raw: "list_all raw_route_ok (rsRoutes rs)"
      "some_ok timeout_ok (decodeDirectTimeout (rsTimeout rs))"
      "some_ok upstream_tls_ok (decodeUpstreamTLS (rsTLS rs) :: ('a, 'b) upstreamTLSConfig option)"
    using assms by (simp_all add: raw_site_ok_def decode_timeout_ok decode_tls_ok)
  have one: "rsTarget rs = None \<longleftrightarrow> rsBackend rs \<noteq> None" "rsTarget rs \<noteq> Some []"
    using 1 by auto
  have "some_ok (\<lambda>t. timeout_ok t \<and> (if rsTarget rs = None then opt_val [] (rsBackend rs) else []) = [])
      (decodeDirectTimeout (rsTimeout rs))"
  proof (cases "decodeDirectTimeout (rsTimeout rs)")
    case (Some t)
    then have "rsTimeout rs \<noteq> None" by (metis decode_none(2) option.distinct(1))
    then show ?thesis using 1 Some raw(2) by (auto simp: opt_val_def)
  qed simp
  moreover have "opt_val [] (rsTarget rs) = [] \<longleftrightarrow> (if rsTarget rs = None then opt_val [] (rsBackend rs) else []) \<noteq> []"
    using 1 by (auto simp: opt_val_Nil_iff)
  ultimately show ?case
    by (rule_tac yields_mono [OF check_routes_yields [OF raw(1) one]]) (use 1(1) raw(3) in \<open>simp add: siteConfig_ok_def\<close>)
qed

lemma check_sites_yields:
  "list_all raw_site_ok rss \<Longrightarrow> yields (check_sites env i rss) (\<lambda>ss. list_all siteConfig_ok ss \<and> length ss = length rss)"
proof (induction rss arbitrary: i)
  case (Cons r rss)
  then have "raw_site_ok r" "list_all raw_site_ok rss" by simp_all
  then show ?case using Cons.IH by (auto intro!: yields_mono [OF check_site_yields] yields_mono [OF Cons.IH])
qed simp

lemma check_config_yields:
  assumes "raw_config_ok raw"
  shows "yields (check_config env ptr raw) config_ok"
proof -
  have raw: "raw_backends_ok (rcBackends raw)" "list_all raw_site_ok (opt_val [] (rcSites raw))"
    using assms by (auto simp: raw_config_ok_def opt_val_def some_ok_def split: option.splits)
  have limit: "some_ok (\<lambda>l. 1 \<le> Rate l \<and> Rate l \<le> maxLimitRate \<and> 1 \<le> Burst l \<and> Burst l \<le> maxLimitBurst)
      (map_option (\<lambda>(r, b). \<lparr>cfg_ptr = ptr, Rate = r, Burst = b\<rparr>) (rcLimit raw))"
    using assms by (cases "rcLimit raw") (auto simp: raw_config_ok_def raw_limit_ok_def)
  show ?thesis
    unfolding check_config_def yields_simps
  proof (intro impI yields_mono [OF check_backends_yields [OF raw(1)]]
      yields_mono [OF check_sites_yields [OF raw(2)]], goal_cases)
    case (3 bs ss)
    then show ?case using limit assms by (auto simp: config_ok_def raw_config_ok_def)
  qed simp_all
qed

lemma decodeConfig_ok:
  assumes "decodeConfig dur env ptr j = Inr c"
  shows "config_ok c"
proof -
  have "yields (decodeConfig dur env ptr j) config_ok"
    unfolding decodeConfig_def yields_simps
    by (rule yields_all, rule yields_mono [OF root_yields], rule check_config_yields)
  then show ?thesis using assms by (rule yieldsD)
qed

text \<open>C4. The configuration the program works with is well-formed: whenever \<open>decodeConfig\<close> accepts a document,
  the listen address is not blank, there is a site, every number is inside its documented bounds and
  every duration positive where one is required, a backend has between one and as many tries as targets
  and retries only with more than one. Of the fields that exclude each other it promises these: a site
  has exactly one of target and backend, a route at most one; a time-out stands beside no backend
  of its own site or route; a route does not both strip and rewrite; and beside a generated response
  there is no upstream, header, response, rewrite or strip field. (TLS settings beside a backend are not
  among them: \<open>decodeConfig\<close> lets them pass and \<open>newProxyForSelection\<close> refuses them when the router is
  built.) This covers every \<open>UnmarshalJSON\<close> of the configuration, whatever the order and the nesting of
  the fields.\<close>

theorem decodeConfig_sound:
  assumes "decodeConfig dur env ptr j = Inr c"
  shows "config_ok c"
  using assms by (rule decodeConfig_ok)

definition sample_document :: json where
  "sample_document = JObj [
     (''listen'', JStr '':8080''),
     (''limit'', JObj [(''rate'', JNum ''5''), (''burst'', JNum ''10'')]),
     (''backends'', JObj [(''api'', JObj [
        (''targets'', JArr [JStr ''http://a:1'', JStr ''http://b:2'']), (''tries'', JNum ''2''),
        (''retry'', JObj [(''status'', JArr [JNum ''503''])])])]),
     (''sites'', JArr [JObj [(''hosts'', JArr [JStr ''a.test'']), (''backend'', JStr ''api''),
        (''routes'', JArr [JObj [(''path'', JStr ''/x''), (''target'', JStr ''http://c'')]])]])]"

lemma decodeConfig_sound_witness:
  "\<exists>c :: (unit, unit) config. decodeConfig (\<lambda>s. None) (\<lambda>n. None) 1 sample_document = Inr c \<and> config_ok c"
proof -
  have "is_ok (decodeConfig (\<lambda>s. None) (\<lambda>n. None) 1 sample_document :: (unit, unit) config res)"
    by code_simp
  then obtain c :: "(unit, unit) config" where c: "decodeConfig (\<lambda>s. None) (\<lambda>n. None) 1 sample_document = Inr c"
    by (auto simp: is_ok_iff)
  from decodeConfig_sound [OF this] c show ?thesis by blast
qed

end
