(* ===== verification/UrlParse.thy ===== *)
theory UrlParse
  imports Http
begin

text \<open>
  What the program uses of Go's \<open>net/url\<close> to read and print a whole URL, as of Go 1.25: \<open>url.Parse\<close>,
  \<open>URL.Hostname\<close>, \<open>URL.Port\<close>, \<open>URL.String\<close>, and the joining of paths in \<open>ProxyRequest.SetURL\<close>. Library
  definitions, none of them code under src/. The fragment of a URL is checked but not kept.
\<close>

section \<open>Parsing\<close>

record parsed_url = url +
  POpaque :: string
  PUser :: bool

definition is_ctl :: "char \<Rightarrow> bool" where
  "is_ctl c \<longleftrightarrow> c < CHR '' '' \<or> c = CHR 0x7F"

definition is_letter :: "char \<Rightarrow> bool" where
  "is_letter c \<longleftrightarrow> is_lower c \<or> is_upper c"

text \<open>The position of the colon that ends a scheme.\<close>

fun scheme_end :: "nat \<Rightarrow> string \<Rightarrow> nat option" where
  "scheme_end i [] = None"
| "scheme_end i (c # cs) =
     (if is_letter c then scheme_end (Suc i) cs
      else if is_digit c \<or> c \<in> set ''+-.'' then (if i = 0 then None else scheme_end (Suc i) cs)
      else if c = CHR '':'' then Some i else None)"

definition get_scheme :: "string \<Rightarrow> (string \<times> string) option" where
  "get_scheme raw =
     (case scheme_end 0 raw of
        None \<Rightarrow> Some ([], raw)
      | Some i \<Rightarrow> if i = 0 then None else Some (take i raw, drop (i + 1) raw))"

text \<open>The characters a host or zone may contain as they are.\<close>

definition host_keeps :: "char \<Rightarrow> bool" where
  "host_keeps c \<longleftrightarrow> is_letter c \<or> is_digit c \<or> c \<in> set ''-_.~!$&()*+,;=:[]<>'' \<or> c = CHR 0x27 \<or> c = CHR 0x22"

fun host_unescape :: "bool \<Rightarrow> string \<Rightarrow> string option" where
  "host_unescape zone [] = Some []"
| "host_unescape zone (c # cs) =
     (if c = CHR ''%'' then
        (case cs of
           a # b # rest \<Rightarrow>
             (case (hex_val a, hex_val b) of
                (Some x, Some y) \<Rightarrow>
                  (let v = char_of (16 * x + y); percent = (a = CHR ''2'' \<and> b = CHR ''5'') in
                   if \<not> zone \<and> x < 8 \<and> \<not> percent then None
                   else if zone \<and> \<not> percent \<and> v \<noteq> CHR '' '' \<and> \<not> host_keeps v then None
                   else map_option ((#) v) (host_unescape zone rest))
              | _ \<Rightarrow> None)
         | _ \<Rightarrow> None)
      else if c < CHR 0x80 \<and> \<not> host_keeps c then None
      else map_option ((#) c) (host_unescape zone cs))"

definition valid_optional_port :: "string \<Rightarrow> bool" where
  "valid_optional_port p \<longleftrightarrow> p = [] \<or> (hd p = CHR '':'' \<and> list_all is_digit (tl p))"

fun find_percent25 :: "string \<Rightarrow> nat option" where
  "find_percent25 [] = None"
| "find_percent25 (c # cs) = (if has_prefix (c # cs) ''%25'' then Some 0 else map_option Suc (find_percent25 cs))"

definition parse_host :: "string \<Rightarrow> string option" where
  "parse_host h =
     (if has_prefix h ''['' then
        (case last_index h CHR '']'' of
           None \<Rightarrow> None
         | Some i \<Rightarrow>
             if \<not> valid_optional_port (drop (i + 1) h) then None
             else (case find_percent25 (take i h) of
                     None \<Rightarrow> host_unescape False h
                   | Some z \<Rightarrow>
                       (case (host_unescape False (take z h), host_unescape True (drop z (take i h)),
                              host_unescape False (drop i h)) of
                          (Some a, Some b, Some c) \<Rightarrow> Some (a @ b @ c)
                        | _ \<Rightarrow> None)))
      else (case last_index h CHR '':'' of
              None \<Rightarrow> host_unescape False h
            | Some i \<Rightarrow> if valid_optional_port (drop i h) then host_unescape False h else None))"

definition userinfo_byte :: "char \<Rightarrow> bool" where
  "userinfo_byte c \<longleftrightarrow> is_letter c \<or> is_digit c \<or> c \<in> set ''-._:~!$&()*+,;=%@'' \<or> c = CHR 0x27"

text \<open>Whether there is user information, and the host.\<close>

definition parse_authority :: "string \<Rightarrow> (bool \<times> string) option" where
  "parse_authority a =
     (case last_index a CHR ''@'' of
        None \<Rightarrow> map_option (\<lambda>h. (False, h)) (parse_host a)
      | Some i \<Rightarrow>
          (case parse_host (drop (i + 1) a) of
             None \<Rightarrow> None
           | Some h \<Rightarrow>
               (let (name, pass) = cut_at CHR '':'' (take i a) in
                if \<not> list_all userinfo_byte (take i a) \<or> path_unescape name = None \<or> path_unescape pass = None then None
                else Some (True, h))))"

definition count_byte :: "char \<Rightarrow> string \<Rightarrow> nat" where
  "count_byte c s = length (filter (\<lambda>x. x = c) s)"

definition parse_path ::
  "string \<Rightarrow> bool \<Rightarrow> string \<Rightarrow> string \<Rightarrow> bool \<Rightarrow> string \<Rightarrow> parsed_url option" where
  "parse_path scheme user host q force rest =
     (case path_unescape rest of
        None \<Rightarrow> None
      | Some p \<Rightarrow> Some \<lparr>Scheme = scheme, UHost = host, Path = p, RawPath = (if path_escape p = rest then [] else rest),
          RawQuery = q, ForceQuery = force, POpaque = [], PUser = user\<rparr>)"

definition parse_without_fragment :: "string \<Rightarrow> parsed_url option" where
  "parse_without_fragment raw =
     (if list_ex is_ctl raw then None
      else if raw = ''*''
      then Some \<lparr>Scheme = [], UHost = [], Path = ''*'', RawPath = [], RawQuery = [], ForceQuery = False, POpaque = [], PUser = False\<rparr>
      else case get_scheme raw of
        None \<Rightarrow> None
      | Some (s, rest0) \<Rightarrow>
          (let scheme = to_lower s;
               force = (has_suffix rest0 ''?'' \<and> count_byte CHR ''?'' rest0 = 1);
               (rest, q) = (if force then (take (length rest0 - 1) rest0, []) else cut_at CHR ''?'' rest0)
           in if \<not> has_prefix rest ''/'' \<and> scheme \<noteq> []
              then Some \<lparr>Scheme = scheme, UHost = [], Path = [], RawPath = [], RawQuery = q, ForceQuery = force,
                     POpaque = rest, PUser = False\<rparr>
              else if \<not> has_prefix rest ''/'' \<and> contains_byte (fst (cut_at CHR ''/'' rest)) CHR '':'' then None
              else if has_prefix rest ''//'' \<and> (scheme \<noteq> [] \<or> \<not> has_prefix rest ''///'')
              then (let a = takeWhile (\<lambda>c. c \<noteq> CHR ''/'') (drop 2 rest)
                    in case parse_authority a of
                         None \<Rightarrow> None
                       | Some (user, h) \<Rightarrow> parse_path scheme user h q force (drop (2 + length a) rest))
              else parse_path scheme False [] q force rest))"

definition url_parse :: "string \<Rightarrow> parsed_url option" where
  "url_parse raw =
     (let (u, frag) = cut_at CHR ''#'' raw in
      case parse_without_fragment u of
        None \<Rightarrow> None
      | Some p \<Rightarrow> if path_unescape frag = None then None else Some p)"

section \<open>Host and port\<close>

definition url_split_host_port :: "string \<Rightarrow> string \<times> string" where
  "url_split_host_port hp =
     (let (h, p) = (case last_index hp CHR '':'' of
                      None \<Rightarrow> (hp, [])
                    | Some i \<Rightarrow> if valid_optional_port (drop i hp) then (take i hp, drop (i + 1) hp) else (hp, []))
      in (if has_prefix h ''['' \<and> has_suffix h '']'' then take (length h - 2) (drop 1 h) else h, p))"

definition url_hostname :: "'a url_scheme \<Rightarrow> string" where
  "url_hostname u = fst (url_split_host_port (UHost u))"

definition url_port :: "'a url_scheme \<Rightarrow> string" where
  "url_port u = snd (url_split_host_port (UHost u))"

section \<open>Printing\<close>

fun host_escape :: "string \<Rightarrow> string" where
  "host_escape [] = []"
| "host_escape (c # cs) =
     (if host_keeps c then [c]
      else [CHR ''%'', upper_hex (of_char c div 16), upper_hex (of_char c mod 16)]) @ host_escape cs"

text \<open>\<open>URL.String\<close> of a URL with a scheme and a host and without user information and fragment.\<close>

definition url_string :: "'a url_scheme \<Rightarrow> string" where
  "url_string u =
     (let p = escaped_path (Path u) (RawPath u)
      in Scheme u @ ''://'' @ host_escape (UHost u) @
         (if p \<noteq> [] \<and> \<not> has_prefix p ''/'' \<and> UHost u \<noteq> [] then ''/'' else []) @ p @
         (if ForceQuery u \<or> RawQuery u \<noteq> [] then ''?'' @ RawQuery u else []))"

section \<open>ProxyRequest.SetURL\<close>

definition single_joining_slash :: "string \<Rightarrow> string \<Rightarrow> string" where
  "single_joining_slash a b =
     (if has_suffix a ''/'' \<and> has_prefix b ''/'' then a @ drop 1 b
      else if \<not> has_suffix a ''/'' \<and> \<not> has_prefix b ''/'' then a @ ''/'' @ b else a @ b)"

definition join_url_path :: "'a url_scheme \<Rightarrow> 'b url_scheme \<Rightarrow> string \<times> string" where
  "join_url_path a b =
     (if RawPath a = [] \<and> RawPath b = [] then (single_joining_slash (Path a) (Path b), [])
      else (let ap = escaped_path (Path a) (RawPath a); bp = escaped_path (Path b) (RawPath b) in
        if has_suffix ap ''/'' \<and> has_prefix bp ''/'' then (Path a @ drop 1 (Path b), ap @ drop 1 bp)
        else if \<not> has_suffix ap ''/'' \<and> \<not> has_prefix bp ''/'' then (Path a @ ''/'' @ Path b, ap @ ''/'' @ bp)
        else (Path a @ Path b, ap @ bp)))"

definition rewrite_request_url :: "'a url_scheme \<Rightarrow> url \<Rightarrow> url" where
  "rewrite_request_url target u =
     (let (p, rp) = join_url_path target u in
      u\<lparr>Scheme := Scheme target, UHost := UHost target, Path := p, RawPath := rp,
        RawQuery := (if RawQuery target = [] \<or> RawQuery u = [] then RawQuery target @ RawQuery u
                     else RawQuery target @ ''&'' @ RawQuery u)\<rparr>)"

end
