(* ===== verification/Upstream.thy ===== *)
theory Upstream
  imports Accepted UrlParse
begin

text \<open>
  What the proxies of \<open>src/proxy.go\<close> are built from: \<open>parseTarget\<close>, transports and their cache, and
  \<open>newBackend\<close>, which turns a checked configuration into the running \<open>backend\<close>. A transport is the record
  of the settings the code gives it; its identity is its position in \<open>all\<close>.
\<close>

section \<open>Targets\<close>

definition validateTargetPort :: "'a url_scheme \<Rightarrow> unit res" where
  "validateTargetPort target =
     (let port = url_port target in
      if port = [] \<and> contains_byte (UHost target) CHR '':'' \<and> \<not> has_suffix (UHost target) '']''
      then Inl (Err ''invalid port'' [])
      else if port = [] then Inr () else validatePort port)"

definition parseTarget :: "string \<Rightarrow> url res" where
  "parseTarget raw =
     (case url_parse raw of
        None \<Rightarrow> Inl (Err ''invalid URL'' [])
      | Some t \<Rightarrow>
          require (\<not> equal_fold (Scheme t) ''http'' \<and> \<not> equal_fold (Scheme t) ''https'')
            ''must be an absolute HTTP(S) URL'' []
          (require (url_hostname t = []) ''must include a hostname'' []
          (require (PUser t) ''userinfo is not allowed'' []
          (rbind (validateTargetPort t) (\<lambda>_.
           require (Path t \<noteq> [] \<or> RawPath t \<noteq> [] \<or> RawQuery t \<noteq> [] \<or> ForceQuery t \<or>
               contains_byte raw CHR ''#'' \<or> POpaque t \<noteq> [])
             ''path, query, fragment, and userinfo are not allowed'' []
           (Inr (url.truncate t\<lparr>Scheme := to_lower (Scheme t)\<rparr>)))))))"

section \<open>Which targets are accepted\<close>

lemma scheme_end_letters: "list_all is_letter p \<Longrightarrow> scheme_end i (p @ CHR '':'' # r) = Some (i + length p)"
  by (induction p arbitrary: i) (auto simp: is_letter_def is_lower_def is_upper_def is_digit_def)

definition scheme_byte :: "char \<Rightarrow> bool" where
  "scheme_byte c \<longleftrightarrow> is_letter c \<or> is_digit c \<or> c \<in> set ''+-.''"

lemma scheme_end_SomeD:
  "scheme_end i s = Some j \<Longrightarrow> \<exists>p r. s = p @ CHR '':'' # r \<and> j = i + length p \<and> list_all scheme_byte p"
proof (induction s arbitrary: i)
  case (Cons c cs)
  show ?case
  proof (cases "scheme_byte c")
    case True
    then have "scheme_end (Suc i) cs = Some j" using Cons.prems by (auto simp: scheme_byte_def split: if_splits)
    from Cons.IH [OF this] obtain p r where "cs = p @ CHR '':'' # r" "j = Suc i + length p" "list_all scheme_byte p"
      by auto
    then have "c # cs = (c # p) @ CHR '':'' # r \<and> j = i + length (c # p) \<and> list_all scheme_byte (c # p)"
      using True by simp
    then show ?thesis by blast
  next
    case False
    then have "c # cs = [] @ CHR '':'' # cs \<and> j = i + length ([] :: string) \<and> list_all scheme_byte []"
      using Cons.prems by (auto simp: scheme_byte_def split: if_splits)
    then show ?thesis by blast
  qed
qed simp

lemma get_schemeD:
  assumes "get_scheme raw = Some (s, rest)" and "s \<noteq> []"
  shows "raw = s @ CHR '':'' # rest \<and> list_all scheme_byte s"
  using assms by (auto simp: get_scheme_def split: option.splits if_splits dest!: scheme_end_SomeD)

lemma fold_ascii_plain: "list_all (\<lambda>c. c \<noteq> CHR 0xC5 \<and> c \<noteq> CHR 0xE2) s \<Longrightarrow> fold_ascii s = to_lower s"
  by (induction s) (auto simp: to_lower_def)

lemma lower_char_idem [simp]: "lower_char (lower_char c) = lower_char c"
  by (simp add: lower_char_def is_upper_def less_eq_char_def)

lemma to_lower_idem [simp]: "to_lower (to_lower s) = to_lower s"
  by (simp add: to_lower_def)

lemma lower_letter: "is_lower (lower_char c) \<Longrightarrow> is_letter c"
  by (auto simp: lower_char_def is_letter_def split: if_splits)

lemma http_letters: "to_lower s \<in> {''http'', ''https''} \<Longrightarrow> list_all is_letter s"
proof -
  assume s: "to_lower s \<in> {''http'', ''https''}"
  then have "list_all is_lower (to_lower s)" by (auto simp: is_lower_def less_eq_char_def)
  then show ?thesis by (auto simp: to_lower_def list_all_iff intro: lower_letter)
qed

text \<open>The characters of a scheme fold only among each other.\<close>

lemma scheme_fold:
  assumes "list_all scheme_byte s"
    and "t = ''http'' \<or> t = ''https''"
  shows "equal_fold (to_lower s) t \<longleftrightarrow> to_lower s = t"
proof -
  have plain: "lower_char c \<noteq> CHR 0xC5 \<and> lower_char c \<noteq> CHR 0xE2" if "scheme_byte c" for c
  proof -
    have "(of_char (lower_char c) :: nat) < 128"
      using that by (auto simp: scheme_byte_def lower_char_def is_letter_def is_upper_def is_lower_def is_digit_def
          less_eq_char_def)
    then show ?thesis by auto
  qed
  have "fold_ascii (to_lower s) = to_lower (to_lower s)"
    by (rule fold_ascii_plain) (use assms(1) plain in \<open>auto simp: to_lower_def list_all_iff\<close>)
  moreover have "fold_ascii t = t" using assms(2) by (auto simp: lower_char_def is_upper_def less_eq_char_def)
  ultimately show ?thesis by (simp add: equal_fold_def)
qed

lemma no_char_While:
  "c \<notin> set s \<Longrightarrow> takeWhile (\<lambda>x. x \<noteq> c) s = s" "c \<notin> set s \<Longrightarrow> dropWhile (\<lambda>x. x \<noteq> c) s = []"
  by (induction s) auto

lemma cut_at_absent [simp]: "c \<notin> set s \<Longrightarrow> cut_at c s = (s, [])"
  by (simp add: cut_at_def no_char_While)

lemma last_index_None [simp]: "last_index s c = None \<longleftrightarrow> c \<notin> set s"
  by (simp add: last_index_def index_byte_None_iff)

lemma path_unescape_Nil [simp]: "path_unescape s = Some [] \<longleftrightarrow> s = []"
  by (cases s) (auto split: list.splits option.splits)

lemma parse_authority_plain: "CHR ''@'' \<notin> set a \<Longrightarrow> parse_authority a = map_option (\<lambda>h. (False, h)) (parse_host a)"
  by (simp add: parse_authority_def iffD2 [OF last_index_None])

lemma parse_authority_no_user: "parse_authority a = Some (False, h) \<Longrightarrow> CHR ''@'' \<notin> set a \<and> parse_host a = Some h"
  by (cases "CHR ''@'' \<in> set a")
     (auto simp: parse_authority_def Let_def split: option.splits prod.splits if_splits)

text \<open>Without a query mark at the end there is none at all when the query is empty.\<close>

lemma no_query:
  assumes "cut_at CHR ''?'' r = (p, [])" and "\<not> (has_suffix r ''?'' \<and> count_byte CHR ''?'' r = 1)"
  shows "CHR ''?'' \<notin> set r \<and> p = r"
proof -
  have "CHR ''?'' \<notin> set r"
  proof
    assume "CHR ''?'' \<in> set r"
    then obtain x y where r: "r = x @ CHR ''?'' # y" "CHR ''?'' \<notin> set x" by (meson split_list_first)
    then have "snd (cut_at CHR ''?'' r) = y" using r(2) by (simp add: cut_at_def) (subst dropWhile_append2; auto)
    then have "y = []" using assms(1) by simp
    moreover have "filter (\<lambda>c. c = CHR ''?'') x = []" using r(2) by (auto simp: filter_empty_conv)
    ultimately show False using assms(2) r(1) by (simp add: go_str count_byte_def)
  qed
  then show ?thesis using assms(1) by simp
qed

lemma parse_with_hostD:
  assumes p: "parse_without_fragment raw = Some t"
    and t: "Scheme t \<noteq> []" "UHost t \<noteq> []" "Path t = []" "RawQuery t = []" "\<not> ForceQuery t"
  shows "\<exists>s a. raw = s @ ''://'' @ a \<and> list_all scheme_byte s \<and> \<not> list_ex is_ctl raw \<and> set a \<inter> set ''?/'' = {} \<and>
    parse_authority a = Some (PUser t, UHost t) \<and> Scheme t = to_lower s \<and> RawPath t = [] \<and> POpaque t = []"
proof -
  obtain s rest0 where g: "get_scheme raw = Some (s, rest0)" and ctl: "\<not> list_ex is_ctl raw" and star: "raw \<noteq> ''*''"
    using p t(2) by (auto simp: parse_without_fragment_def split: if_splits option.splits)
  define force where "force = (has_suffix rest0 ''?'' \<and> count_byte CHR ''?'' rest0 = 1)"
  obtain rest q where rq: "(if force then (take (length rest0 - 1) rest0, []) else cut_at CHR ''?'' rest0) = (rest, q)"
    by fastforce
  note unfold = p [unfolded parse_without_fragment_def, simplified ctl star g if_False option.case prod.case,
      folded force_def, unfolded Let_def, simplified rq prod.case]
  have slash: "has_prefix rest ''//''"
    using unfold t(1,2) by (auto simp: parse_path_def split: if_splits option.splits)
  then obtain z where z: "rest = ''//'' @ z" by (auto simp: go_str)
  define a where "a = takeWhile (\<lambda>c. c \<noteq> CHR ''/'') z"
  have host: "(case parse_authority a of None \<Rightarrow> None
      | Some (user, h) \<Rightarrow> parse_path (to_lower s) user h q force (drop (length a) z)) = Some t"
    using unfold t(2) unfolding a_def z
    by (auto simp: go_str parse_path_def split: if_splits option.splits)
  then obtain user h where auth: "parse_authority a = Some (user, h)"
    and pp: "parse_path (to_lower s) user h q force (drop (length a) z) = Some t"
    by (auto split: option.splits)
  have fields: "drop (length a) z = []" "Scheme t = to_lower s" "UHost t = h" "PUser t = user" "RawPath t = []"
      "POpaque t = []" "q = []" "\<not> force"
    using pp t by (auto simp: parse_path_def split: option.splits)
  have "z = a" using fields(1) by (metis a_def append_Nil2 append_eq_conv_conj takeWhile_dropWhile_id)
  moreover have "CHR ''/'' \<notin> set a" unfolding a_def by (auto dest: set_takeWhileD)
  moreover have "CHR ''?'' \<notin> set rest0 \<and> rest = rest0"
    by (rule no_query) (use rq fields(7,8) in \<open>auto simp: force_def\<close>)
  moreover have "s \<noteq> []" using t(1) fields(2) by (auto simp: to_lower_def)
  from get_schemeD [OF g this] have "raw = s @ CHR '':'' # rest0" "list_all scheme_byte s" by simp_all
  ultimately show ?thesis using z auth fields ctl by (intro exI [of _ s] exI [of _ a]) auto
qed

lemma parseTarget_plain:
  assumes r: "raw = s @ ''://'' @ a" and s: "to_lower s \<in> {''http'', ''https''}"
    and a: "set a \<inter> set ''#?/@'' = {}" "\<not> list_ex is_ctl a" "parse_host a = Some (UHost u)"
    and h: "url_hostname u \<noteq> []" "validateTargetPort u = Inr ()"
    and u: "u = \<lparr>Scheme = to_lower s, UHost = UHost u, Path = [], RawPath = [], RawQuery = [], ForceQuery = False\<rparr>"
  shows "parseTarget raw = Inr u"
proof -
  have letters: "list_all is_letter s" by (rule http_letters [OF s])
  have plain: "\<not> is_ctl c \<and> c \<noteq> CHR ''#''" if "is_letter c" for c
    using that by (auto simp: is_letter_def is_lower_def is_upper_def is_ctl_def less_eq_char_def less_char_def)
  have raw: "\<not> list_ex is_ctl raw" "CHR ''#'' \<notin> set raw" "raw \<noteq> ''*''"
    using letters a(1,2) plain s by (auto simp: r list_all_iff list_ex_iff is_ctl_def less_char_def to_lower_def
        Cons_eq_append_conv)
  define z where "z = ''//'' @ a"
  have g: "get_scheme raw = Some (s, z)"
    using scheme_end_letters [OF letters, of 0 z] s by (auto simp: get_scheme_def r z_def to_lower_def)
  have noq: "CHR ''?'' \<notin> set z" using a(1) by (auto simp: z_def)
  then have nos: "\<not> has_suffix z ''?''"
    by (metis UnCI has_suffix_iff list.set_intros(1) set_append)
  have slash: "has_prefix z ''/''" "has_prefix z ''//''" "drop 2 z = a" "drop (2 + length a) z = []"
    by (simp_all add: z_def has_prefix_def)
  have w: "takeWhile (\<lambda>c. c \<noteq> CHR ''/'') a = a" using a(1) by (intro no_char_While) auto
  have auth: "parse_authority a = Some (False, UHost u)"
    using a(1,3) by (subst parse_authority_plain) auto
  have ne: "to_lower s \<noteq> []" using s by auto
  have "parse_without_fragment raw = Some \<lparr>Scheme = to_lower s, UHost = UHost u, Path = [], RawPath = [],
      RawQuery = [], ForceQuery = False, POpaque = [], PUser = False\<rparr>"
    using raw ne by (simp only: parse_without_fragment_def g nos slash cut_at_absent [OF noq] w auth Let_def prod.case
        option.case if_False if_True simp_thms)
      (simp add: parse_path_def)
  then have "url_parse raw = Some \<lparr>Scheme = to_lower s, UHost = UHost u, Path = [], RawPath = [],
      RawQuery = [], ForceQuery = False, POpaque = [], PUser = False\<rparr>"
    using raw(2) by (simp add: url_parse_def)
  then show ?thesis
    using s h raw(2) scheme_fold [of s] letters
    by (subst u)
       (auto simp: parseTarget_def require_def url.truncate_def contains_byte_def url_hostname_def validateTargetPort_def
         url_port_def equal_fold_def)
qed

lemma parseTargetD:
  assumes "parseTarget raw = Inr u"
  shows "\<exists>s a. raw = s @ ''://'' @ a \<and> to_lower s \<in> {''http'', ''https''} \<and> set a \<inter> set ''#?/@'' = {} \<and>
    \<not> list_ex is_ctl a \<and> parse_host a = Some (UHost u) \<and> url_hostname u \<noteq> [] \<and> validateTargetPort u = Inr () \<and>
    u = \<lparr>Scheme = to_lower s, UHost = UHost u, Path = [], RawPath = [], RawQuery = [], ForceQuery = False\<rparr>"
proof -
  obtain t where t: "url_parse raw = Some t" and http: "equal_fold (Scheme t) ''http'' \<or> equal_fold (Scheme t) ''https''"
    and host: "url_hostname t \<noteq> []" and user: "\<not> PUser t" and port: "validateTargetPort t = Inr ()"
    and rest: "Path t = []" "RawPath t = []" "RawQuery t = []" "\<not> ForceQuery t" "CHR ''#'' \<notin> set raw"
    and u: "u = url.truncate t\<lparr>Scheme := to_lower (Scheme t)\<rparr>"
    using assms by (auto simp: parseTarget_def require_def rbind_Inr_iff contains_byte_def split: option.splits if_splits)
  have pw: "parse_without_fragment raw = Some t"
    using t rest(5) by (auto simp: url_parse_def split: option.splits)
  have UH: "UHost t \<noteq> []" using host by (auto simp: url_hostname_def url_split_host_port_def last_index_def has_prefix_def)
  have "Scheme t \<noteq> []" using http by (auto simp: equal_fold_def)
  from parse_with_hostD [OF pw this UH rest(1,3,4)] obtain s a where
    r: "raw = s @ ''://'' @ a" "list_all scheme_byte s" "\<not> list_ex is_ctl raw" "set a \<inter> set ''?/'' = {}"
      "parse_authority a = Some (PUser t, UHost t)" "Scheme t = to_lower s" "POpaque t = []" by blast
  have "CHR ''@'' \<notin> set a \<and> parse_host a = Some (UHost t)"
    using r(5) user by (intro parse_authority_no_user) simp
  moreover have "to_lower s \<in> {''http'', ''https''}" using http scheme_fold [OF r(2)] r(6) by auto
  moreover have "u = \<lparr>Scheme = to_lower s, UHost = UHost u, Path = [], RawPath = [], RawQuery = [], ForceQuery = False\<rparr>"
      "UHost u = UHost t" "url_hostname u = url_hostname t" "validateTargetPort u = validateTargetPort t"
    using rest r(6) by (simp_all add: u url.truncate_def url_hostname_def validateTargetPort_def url_port_def)
  ultimately show ?thesis using r(1,3,4) rest(5) host port
    by (intro exI [of _ s] exI [of _ a]) auto
qed

text \<open>C15. The targets the program accepts are exactly the texts of a scheme \<open>http\<close> or \<open>https\<close> in any case,
  \<open>://\<close> and an authority without user information that \<open>net/url\<close> parses, with a host name and a valid
  port if any, and nothing after it; the result is the lower-case scheme and the decoded authority.
\<close>

theorem parseTarget_exact:
  "parseTarget raw = Inr u \<longleftrightarrow>
     (\<exists>s a. raw = s @ ''://'' @ a \<and> to_lower s \<in> {''http'', ''https''} \<and> set a \<inter> set ''#?/@'' = {} \<and>
        \<not> list_ex is_ctl a \<and> parse_host a = Some (UHost u) \<and> url_hostname u \<noteq> [] \<and> validateTargetPort u = Inr () \<and>
        u = \<lparr>Scheme = to_lower s, UHost = UHost u, Path = [], RawPath = [], RawQuery = [], ForceQuery = False\<rparr>)"
  using parseTargetD [of raw u] parseTarget_plain by blast

section \<open>Transports\<close>

definition proxyDialTimeout :: int where "proxyDialTimeout = 5 * 1000000000"
definition proxyResponseHeaderTimeout :: int where "proxyResponseHeaderTimeout = 30 * 1000000000"
definition proxyMaxIdleConnsPerHost :: nat where "proxyMaxIdleConnsPerHost = 32"

record ('x, 'k) client_tls =
  TRootCAs :: "'x list option"
  TServerName :: string
  Certificates :: "'k list"

record ('x, 'k) transport =
  DialTimeout :: int
  TLSHandshakeTimeout :: int
  ResponseHeaderTimeout :: int
  MaxIdleConnsPerHost :: nat
  TLSClientConfig :: "('x, 'k) client_tls option"
  ForceAttemptHTTP2 :: bool

text \<open>The clone of \<open>http.DefaultTransport\<close> attempts HTTP/2 anyway.\<close>

definition newProxyTransportWithTLS :: "int \<Rightarrow> int \<Rightarrow> ('x, 'k) upstreamTLSConfig option \<Rightarrow> ('x, 'k) transport" where
  "newProxyTransportWithTLS dial header cfg =
     \<lparr>DialTimeout = dial, TLSHandshakeTimeout = dial, ResponseHeaderTimeout = header,
      MaxIdleConnsPerHost = proxyMaxIdleConnsPerHost,
      TLSClientConfig = (case cfg of
         None \<Rightarrow> None
       | Some c \<Rightarrow> Some \<lparr>TRootCAs = RootCAs c, TServerName = ServerName c,
           Certificates = (case ClientCert c of None \<Rightarrow> [] | Some k \<Rightarrow> [k])\<rparr>),
      ForceAttemptHTTP2 = True\<rparr>"

section \<open>The cache of direct transports\<close>

text \<open>
  A \<open>*upstreamTLSConfig\<close> is a pointer: an object has the address \<open>'a\<close> of the place in the configuration it
  was decoded from, and what \<open>loadUpstreamTLS\<close> returns for it is the same object when there is nothing to
  load and a new one otherwise. The roots and the client certificate in an identity are pointers too;
  they are named by the object that holds them. The files stay as they are while a router is built.
\<close>

datatype 'a tls_ref = Decoded 'a | Loaded 'a

record ('a, 'x, 'k) tls_object =
  tls_at :: "'a tls_ref"
  tls_data :: "('x, 'k) upstreamTLSConfig"

record 'a upstreamTLSKey =
  kCAPath :: string
  kCAHash :: string
  kName :: string
  kCertPath :: string
  kKeyPath :: string
  kCertHash :: string
  kKeyHash :: string
  kRoots :: "'a tls_ref option"
  kClient :: "'a tls_ref option"

definition upstreamTLSIdentity :: "('a, 'x, 'k) tls_object \<Rightarrow> 'a upstreamTLSKey" where
  "upstreamTLSIdentity ob =
     (let c = tls_data ob in
      \<lparr>kCAPath = CAPath c, kCAHash = CAHash c, kName = ServerName c, kCertPath = CertPath c, kKeyPath = KeyPath c,
       kCertHash = CertHash c, kKeyHash = KeyHash c,
       kRoots = (if CAHash c = zero_hash \<and> RootCAs c \<noteq> None then Some (tls_at ob) else None),
       kClient = (if (CertHash c = zero_hash \<or> KeyHash c = zero_hash) \<and> ClientCert c \<noteq> None then Some (tls_at ob) else None)\<rparr>)"

record ('a, 'x, 'k) directTransportCache =
  byKey :: "int \<times> int \<times> 'a tls_ref option \<Rightarrow> nat option"
  loadedByConfig :: "'a tls_ref \<Rightarrow> ('a, 'x, 'k) tls_object option"
  loadedByMaterial :: "'a upstreamTLSKey \<Rightarrow> ('a, 'x, 'k) tls_object option"
  all_transports :: "('x, 'k) transport list"

definition newDirectTransportCache :: "('a, 'x, 'k) directTransportCache" where
  "newDirectTransportCache = \<lparr>byKey = (\<lambda>_. None), loadedByConfig = (\<lambda>_. None), loadedByMaterial = (\<lambda>_. None),
     all_transports = []\<rparr>"

fun tls_address :: "'a tls_ref \<Rightarrow> 'a" where
  "tls_address (Decoded a) = a"
| "tls_address (Loaded a) = a"

definition load_object :: "('x, 'k) crypto \<Rightarrow> ('a, 'x, 'k) tls_object \<Rightarrow> ('a, 'x, 'k) tls_object res" where
  "load_object env ob =
     rbind (loadUpstreamTLS env (Some (tls_data ob))) (\<lambda>l.
       case l of
         None \<Rightarrow> Inr ob
       | Some d \<Rightarrow>
           Inr (if (CAPath (tls_data ob) \<noteq> [] \<and> RootCAs (tls_data ob) = None) \<or>
                   (CertPath (tls_data ob) \<noteq> [] \<and> ClientCert (tls_data ob) = None)
                then \<lparr>tls_at = Loaded (tls_address (tls_at ob)), tls_data = d\<rparr> else ob))"

definition cached_tls ::
  "('x, 'k) crypto \<Rightarrow> ('a, 'x, 'k) tls_object option \<Rightarrow> ('a, 'x, 'k) directTransportCache \<Rightarrow>
   (('a, 'x, 'k) tls_object option \<times> ('a, 'x, 'k) directTransportCache) res" where
  "cached_tls env cfg c =
     (case cfg of
        None \<Rightarrow> Inr (None, c)
      | Some ob \<Rightarrow>
          rbind (case loadedByConfig c (tls_at ob) of
                   Some l \<Rightarrow> Inr (l, c)
                 | None \<Rightarrow> rbind (load_object env ob) (\<lambda>l.
                     Inr (l, c\<lparr>loadedByConfig := (loadedByConfig c)(tls_at ob \<mapsto> l)\<rparr>))) (\<lambda>(l, c1).
            case loadedByMaterial c1 (upstreamTLSIdentity l) of
              None \<Rightarrow> Inr (Some l, c1\<lparr>loadedByMaterial := (loadedByMaterial c1)(upstreamTLSIdentity l \<mapsto> l)\<rparr>)
            | Some m \<Rightarrow> Inr (Some m, c1)))"

definition dial_of :: "directTimeout option \<Rightarrow> int" where
  "dial_of timeout = (case timeout of Some t \<Rightarrow> if DDial t > 0 then DDial t else proxyDialTimeout | None \<Rightarrow> proxyDialTimeout)"

definition header_of :: "directTimeout option \<Rightarrow> int" where
  "header_of timeout = (case timeout of Some t \<Rightarrow> if DHeader t > 0 then DHeader t else proxyResponseHeaderTimeout
     | None \<Rightarrow> proxyResponseHeaderTimeout)"

text \<open>The transport's position in \<open>all\<close>.\<close>

definition get_transport ::
  "('x, 'k) crypto \<Rightarrow> directTimeout option \<Rightarrow> ('a, 'x, 'k) tls_object option \<Rightarrow> ('a, 'x, 'k) directTransportCache \<Rightarrow>
   (nat \<times> ('a, 'x, 'k) directTransportCache) res" where
  "get_transport env timeout cfg c =
     rbind (cached_tls env cfg c) (\<lambda>(t, c1).
       let key = (dial_of timeout, header_of timeout, map_option tls_at t)
       in case byKey c1 key of
            Some i \<Rightarrow> Inr (i, c1)
          | None \<Rightarrow> Inr (length (all_transports c1),
              c1\<lparr>byKey := (byKey c1)(key \<mapsto> length (all_transports c1)),
                 all_transports := all_transports c1 @
                   [newProxyTransportWithTLS (dial_of timeout) (header_of timeout) (map_option tls_data t)]\<rparr>))"

definition directBodyTimeout :: "directTimeout option \<Rightarrow> int" where
  "directBodyTimeout timeout = (case timeout of None \<Rightarrow> 0 | Some t \<Rightarrow> DBody t)"

section \<open>newBackend\<close>

text \<open>The retry settings: statuses, methods, body limit and budget.\<close>

definition retry_settings ::
  "backendRetryConfig option \<Rightarrow> int \<Rightarrow> (int list option \<times> string list option \<times> int \<times> retryBudget option) res" where
  "retry_settings cfg n =
     (case cfg of
        None \<Rightarrow> Inr (None, None, 0, None)
      | Some r \<Rightarrow>
          require (n \<le> 1) ''retry requires tries greater than one'' []
          (require (RetryDeadline r < 0) ''retry.deadline must be greater than zero'' []
          (rbind (wrap_err ''retry.backoff: %w'' [] (validateBackoff (RetryBackoff r))) (\<lambda>_.
           rbind (if length (RetryMethods r) > 0 then wrap_err ''retry.methods: %w'' [] (validateRetryMethods (RetryMethods r))
                  else Inr ()) (\<lambda>_.
           require (case RetryBody r of Some m \<Rightarrow> m < 1 \<or> m > maxRetryBodyBytes | None \<Rightarrow> False)
             ''retry.body.max must be between 1 and %d'' [N maxRetryBodyBytes]
           (require (case RetryBudget r of Some b \<Rightarrow> BudgetMax b < 1 \<or> BudgetMax b > maxRetryBudget | None \<Rightarrow> False)
             ''retry.budget.max must be between 1 and %d'' [N maxRetryBudget]
           (require (case RetryBudget r of Some b \<Rightarrow> Window b \<le> 0 | None \<Rightarrow> False)
             ''retry.budget.window must be greater than zero'' []
           (rbind (wrap_err ''retry.status: %w'' [] (validateRetryStatuses (RetryStatus r))) (\<lambda>_.
              Inr (Some (RetryStatus r), if length (RetryMethods r) > 0 then Some (RetryMethods r) else None,
                   opt_val 0 (RetryBody r),
                   map_option (\<lambda>b. \<lparr>bmax = BudgetMax b, bwindow = Window b, started = None, used = 0\<rparr>) (RetryBudget r)))))))))))"

fun parse_targets :: "nat \<Rightarrow> string list \<Rightarrow> string list \<Rightarrow> url list res" where
  "parse_targets i seen [] = Inr []"
| "parse_targets i seen (raw # rs) =
     (if raw \<in> set seen then Inl (Err ''targets contains duplicate %q'' [S raw])
      else rbind (wrap_err ''targets[%d]: %w'' [N (int i)] (parseTarget raw)) (\<lambda>t.
        rbind (parse_targets (Suc i) (raw # seen) rs) (\<lambda>ts. Inr (t # ts))))"

text \<open>A backend as it runs: what its round trips read, its health checks, and its transport.\<close>

record ('x, 'k) built_backend =
  core :: backend
  budget :: "retryBudget option"
  targets_health :: "targetHealth list"
  probe :: "backendHealthProbeConfig option"
  probeTargets :: "string list"
  own_transport :: "('x, 'k) transport"

definition probe_url :: "backendHealthProbeConfig \<Rightarrow> url \<Rightarrow> url" where
  "probe_url p target = target\<lparr>Path := Path (ProbePath p), RawPath := RawPath (ProbePath p),
     RawQuery := RawQuery (ProbePath p), ForceQuery := ForceQuery (ProbePath p)\<rparr>"

text \<open>The value \<open>newBackend\<close> returns once every check has passed.\<close>

definition assemble_backend ::
  "('x, 'k) backendConfig \<Rightarrow> nat \<Rightarrow> int list option \<times> string list option \<times> int \<times> retryBudget option \<Rightarrow>
   url list \<Rightarrow> nat list \<Rightarrow> ('x, 'k) upstreamTLSConfig option \<Rightarrow> ('x, 'k) built_backend" where
  "assemble_backend cfg n retry ts sched tls =
     (let (statuses, methods, bodyMax, bud) = retry;
          backoff = (case BRetry cfg of Some r \<Rightarrow> RetryBackoff r | None \<Rightarrow> None);
          hp = (case BHealth cfg of Some h \<Rightarrow> HProbe h | None \<Rightarrow> None)
      in \<lparr>core = \<lparr>targets = ts, schedule = sched, tries = n, retryStatuses = statuses, retryMethods = methods,
             retryBodyMax = bodyMax, backoffDelays = map_option (\<lambda>b. buildBackoffDelays b n) backoff,
             backoffJitter = (case backoff of Some b \<Rightarrow> Jitter b | None \<Rightarrow> False),
             retryDeadline = (case BRetry cfg of Some r \<Rightarrow> RetryDeadline r | None \<Rightarrow> 0),
             health = map_option (\<lambda>h. \<lparr>fail_limit = HFail h, cool = HCool h\<rparr>) (BHealth cfg)\<rparr>,
           budget = bud,
           targets_health = (if BHealth cfg = None then [] else replicate (length ts) fresh_target),
           probe = hp,
           probeTargets = (case hp of Some p \<Rightarrow> map (\<lambda>t. url_string (probe_url p t)) ts | None \<Rightarrow> []),
           own_transport = newProxyTransportWithTLS
             (if TDial (BTimeout cfg) = 0 then proxyDialTimeout else TDial (BTimeout cfg))
             (if THeader (BTimeout cfg) = 0 then proxyResponseHeaderTimeout else THeader (BTimeout cfg)) tls\<rparr>)"

definition newBackend :: "('x, 'k) crypto \<Rightarrow> ('x, 'k) backendConfig \<Rightarrow> ('x, 'k) built_backend res" where
  "newBackend env cfg =
     require (length (Targets cfg) = 0) ''targets must not be empty'' []
     (let n = (if Tries cfg = 0 then 1 else Tries cfg) in
      require (n < 1 \<or> n > int (length (Targets cfg))) ''tries must be between 1 and the target count'' []
      (rbind (retry_settings (BRetry cfg) n) (\<lambda>retry.
       require (TDial (BTimeout cfg) < 0) ''timeout.dial must be greater than zero'' []
       (require (THeader (BTimeout cfg) < 0) ''timeout.header must be greater than zero'' []
       (rbind (parse_targets 0 [] (Targets cfg)) (\<lambda>ts.
        rbind (loadUpstreamTLS env (BTLS cfg)) (\<lambda>tls.
        rbind (case Weights cfg of
                 None \<Rightarrow> Inr []
               | Some ws \<Rightarrow> rbind (wrap_err ''weights: %w'' [] (validateTargetWeights ws (length ts))) (\<lambda>_.
                   Inr (buildTargetSchedule ws))) (\<lambda>sched.
        require (case BHealth cfg of Some h \<Rightarrow> HFail h < 1 \<or> HFail h > maxHealthFailures | None \<Rightarrow> False)
          ''health.fail must be between 1 and %d'' [N maxHealthFailures]
        (require (case BHealth cfg of Some h \<Rightarrow> HCool h \<le> 0 \<or> HCool h > maxHealthCooldown | None \<Rightarrow> False)
          ''health.cool must be greater than zero and no greater than %s'' [N maxHealthCooldown]
        (Inr (assemble_backend cfg (nat n) retry ts sched tls)))))))))))"

section \<open>What a built backend relies on\<close>

lemma parse_targets_length: "parse_targets i seen rs = Inr ts \<Longrightarrow> length ts = length rs"
  by (induction i seen rs arbitrary: ts rule: parse_targets.induct) (auto simp: rbind_Inr_iff split: if_splits)

definition target_ok :: "url \<Rightarrow> bool" where
  "target_ok t \<longleftrightarrow> Scheme t \<in> {''http'', ''https''} \<and> url_hostname t \<noteq> [] \<and> Path t = [] \<and> RawPath t = [] \<and> RawQuery t = [] \<and>
     \<not> ForceQuery t"

definition running_ok :: "('x, 'k) built_backend \<Rightarrow> bool" where
  "running_ok b \<longleftrightarrow> (let c = core b; n = length (targets c) in
     list_all target_ok (targets c) \<and> 1 \<le> tries c \<and> tries c \<le> n \<and> delays_ok c \<and> (schedule c = [] \<or> set (schedule c) = {..<n}) \<and>
     length (targets_health b) = (if health c = None then 0 else n) \<and>
     length (probeTargets b) = (if probe b = None then 0 else n) \<and>
     (retryStatuses c = None \<or> 1 < tries c) \<and> 0 \<le> retryBodyMax c \<and> 0 \<le> retryDeadline c \<and>
     0 < DialTimeout (own_transport b) \<and> 0 < ResponseHeaderTimeout (own_transport b))"

lemma parseTarget_target_ok: "parseTarget raw = Inr t \<Longrightarrow> target_ok t"
  using parseTargetD [of raw t] unfolding target_ok_def by (auto; metis url.simps)

lemma parse_targets_ok: "parse_targets i seen rs = Inr ts \<Longrightarrow> list_all target_ok ts"
  by (induction i seen rs arbitrary: ts rule: parse_targets.induct)
     (auto simp: rbind_Inr_iff parseTarget_target_ok split: if_splits)

lemma delays_built:
  assumes "0 < Base bo" "Base bo \<le> Cap bo" "Cap bo \<le> maxInt64"
  shows "length (buildBackoffDelays bo n) = n - 1 \<and> (\<forall>d \<in> set (buildBackoffDelays bo n). 0 < d)"
proof (cases "n - 1")
  case 0
  then show ?thesis by (simp add: buildBackoffDelays_def)
next
  case (Suc k)
  have d: "length (buildBackoffDelays bo n) = n - 1 \<and> buildBackoffDelays bo n ! i = min (Cap bo) (Base bo * 2 ^ i)"
    if "i < n - 1" for i
    using backoff_from_nth [OF assms that] by (simp add: buildBackoffDelays_def)
  have "0 < min (Cap bo) (Base bo * 2 ^ i)" for i using assms by simp
  then show ?thesis using d [of 0] d Suc by (auto simp: in_set_conv_nth)
qed

lemma retry_settings_ok:
  assumes "some_ok (\<lambda>r. retry_ok r \<and> 1 < n) cfg"
  shows "\<exists>st ms mx bd. retry_settings cfg n = Inr (st, ms, mx, bd) \<and> (st = None \<longleftrightarrow> cfg = None) \<and> 0 \<le> mx"
proof (cases cfg)
  case (Some r)
  have v: "validateBackoff (RetryBackoff r) = Inr ()"
    using assms Some by (auto simp: retry_ok_def validateBackoff_def backoff_ok_def some_ok_def split: option.splits)
  have b: "\<not> (case RetryBody r of None \<Rightarrow> False | Some m \<Rightarrow> m < 1 \<or> maxRetryBodyBytes < m)" "0 \<le> opt_val 0 (RetryBody r)"
    using assms Some by (auto simp: retry_ok_def some_ok_def opt_val_def split: option.splits)
  have g: "\<not> (case RetryBudget r of None \<Rightarrow> False | Some c \<Rightarrow> BudgetMax c < 1 \<or> maxRetryBudget < BudgetMax c)"
      "\<not> (case RetryBudget r of None \<Rightarrow> False | Some c \<Rightarrow> Window c \<le> 0)"
    using assms Some by (auto simp: retry_ok_def some_ok_def budget_ok_def split: option.splits)
  have st: "validateRetryStatuses (RetryStatus r) = Inr ()"
    using assms Some by (simp add: retry_ok_def validateRetryStatuses_iff)
  show ?thesis
    using assms Some v b g by (auto simp: retry_settings_def require_def retry_ok_def st)
qed (simp add: retry_settings_def)

lemma schedule_built:
  assumes "some_ok (\<lambda>ws. validateTargetWeights ws n = Inr ()) ws"
  shows "\<exists>sched. (case ws of None \<Rightarrow> Inr []
      | Some w \<Rightarrow> rbind (wrap_err m g (validateTargetWeights w n)) (\<lambda>_. Inr (buildTargetSchedule w))) = Inr sched \<and>
    (sched = [] \<or> set sched = {..<n})"
  using assms schedule_set by (cases ws) auto

lemma assemble_backend_simps [simp]:
  "targets (core (assemble_backend cfg n (st, ms, mx, bd) ts sched tls)) = ts"
  "schedule (core (assemble_backend cfg n (st, ms, mx, bd) ts sched tls)) = sched"
  "tries (core (assemble_backend cfg n (st, ms, mx, bd) ts sched tls)) = n"
  "retryStatuses (core (assemble_backend cfg n (st, ms, mx, bd) ts sched tls)) = st"
  "retryBodyMax (core (assemble_backend cfg n (st, ms, mx, bd) ts sched tls)) = mx"
  "retryDeadline (core (assemble_backend cfg n (st, ms, mx, bd) ts sched tls)) =
     (case BRetry cfg of Some r \<Rightarrow> RetryDeadline r | None \<Rightarrow> 0)"
  "backoffDelays (core (assemble_backend cfg n (st, ms, mx, bd) ts sched tls)) =
     map_option (\<lambda>b. buildBackoffDelays b n) (case BRetry cfg of Some r \<Rightarrow> RetryBackoff r | None \<Rightarrow> None)"
  "length (targets_health (assemble_backend cfg n (st, ms, mx, bd) ts sched tls)) =
     (if health (core (assemble_backend cfg n (st, ms, mx, bd) ts sched tls)) = None then 0 else length ts)"
  "length (probeTargets (assemble_backend cfg n (st, ms, mx, bd) ts sched tls)) =
     (if probe (assemble_backend cfg n (st, ms, mx, bd) ts sched tls) = None then 0 else length ts)"
  "0 \<le> TDial (BTimeout cfg) \<Longrightarrow> 0 < DialTimeout (own_transport (assemble_backend cfg n (st, ms, mx, bd) ts sched tls))"
  "0 \<le> THeader (BTimeout cfg) \<Longrightarrow> 0 < ResponseHeaderTimeout (own_transport (assemble_backend cfg n (st, ms, mx, bd) ts sched tls))"
  by (simp_all add: assemble_backend_def Let_def proxyDialTimeout_def proxyResponseHeaderTimeout_def
        newProxyTransportWithTLS_def split: option.splits)

lemma health_accepted:
  assumes "backend_ok cfg"
  shows "\<not> (case BHealth cfg of None \<Rightarrow> False | Some h \<Rightarrow> HFail h < 1 \<or> maxHealthFailures < HFail h)"
    and "\<not> (case BHealth cfg of None \<Rightarrow> False | Some h \<Rightarrow> HCool h \<le> 0 \<or> maxHealthCooldown < HCool h)"
  using assms by (auto simp: backend_ok_def some_ok_def health_ok_def split: option.splits)

lemma assembled_ok:
  assumes "backend_ok cfg"
    and "case BRetry cfg of Some r \<Rightarrow> (case RetryBackoff r of Some bo \<Rightarrow> Cap bo \<le> maxInt64 | None \<Rightarrow> True) | None \<Rightarrow> True"
    and "st = None \<longleftrightarrow> BRetry cfg = None" and "0 \<le> mx" and ts: "parse_targets 0 [] (Targets cfg) = Inr ts"
    and sched: "sched = [] \<or> set sched = {..<length ts}"
  shows "running_ok (assemble_backend cfg (nat (Tries cfg)) (st, ms, mx, bd) ts sched tls)"
proof -
  define b where "b = assemble_backend cfg (nat (Tries cfg)) (st, ms, mx, bd) ts sched tls"
  have n: "\<not> Tries cfg < 1" "\<not> int (length (Targets cfg)) < Tries cfg" "0 \<le> TDial (BTimeout cfg)" "0 \<le> THeader (BTimeout cfg)"
    and retry: "some_ok (\<lambda>r. retry_ok r \<and> 1 < Tries cfg) (BRetry cfg)" using assms(1) by (auto simp: backend_ok_def)
  have delays: "delays_ok (core b)"
    using retry assms(2) delays_built
    by (auto simp: delays_ok_def b_def retry_ok_def backoff_ok_def some_ok_def split: option.splits)
  have deadline: "0 \<le> retryDeadline (core b)"
    using retry by (auto simp: b_def retry_ok_def some_ok_def split: option.splits)
  have statuses: "retryStatuses (core b) = None \<or> 1 < tries (core b)"
    using retry assms(3) n(1) by (cases "BRetry cfg") (auto simp: b_def)
  have "list_all target_ok ts" by (rule parse_targets_ok [OF ts])
  then have "running_ok b"
    unfolding running_ok_def Let_def using delays deadline statuses
    by (intro conjI) (use n assms(4) parse_targets_length [OF ts] sched in \<open>simp_all add: b_def\<close>)
  then show ?thesis by (simp add: b_def)
qed

text \<open>C10. A configuration that \<open>decodeConfig\<close> accepted can only fail to become a backend over a target that is no
  valid URL or is repeated, or over the files of its TLS block: none of the other checks \<open>newBackend\<close>
  repeats can fail. What is built is fit to run: between one and as many tries as targets, one positive
  pause before each further attempt, a schedule of exactly the targets, the health state and the probe
  URL of each of them, and positive time-outs. These are the facts the retry loop, the target choice
  and the probes are proved from.
\<close>

theorem newBackend_accepts_checked:
  assumes "backend_ok cfg"
    and "case BRetry cfg of Some r \<Rightarrow> (case RetryBackoff r of Some bo \<Rightarrow> Cap bo \<le> maxInt64 | None \<Rightarrow> True) | None \<Rightarrow> True"
  shows "case newBackend env cfg of
      Inl e \<Rightarrow> (case parse_targets 0 [] (Targets cfg) of Inl e' \<Rightarrow> e = e' | Inr ts \<Rightarrow> loadUpstreamTLS env (BTLS cfg) = Inl e)
    | Inr b \<Rightarrow> running_ok b \<and> parse_targets 0 [] (Targets cfg) = Inr (targets (core b)) \<and> tries (core b) = nat (Tries cfg)"
proof -
  have n: "Tries cfg \<noteq> 0" "\<not> Tries cfg < 1" "\<not> int (length (Targets cfg)) < Tries cfg" "Targets cfg \<noteq> []"
    using assms(1) by (auto simp: backend_ok_def)
  have t: "0 \<le> TDial (BTimeout cfg)" "0 \<le> THeader (BTimeout cfg)" using assms(1) by (auto simp: backend_ok_def)
  obtain st ms mx bd where rs: "retry_settings (BRetry cfg) (Tries cfg) = Inr (st, ms, mx, bd)"
      "st = None \<longleftrightarrow> BRetry cfg = None" "0 \<le> mx"
    using retry_settings_ok [of "Tries cfg" "BRetry cfg"] assms(1) by (auto simp: backend_ok_def)
  show ?thesis
  proof (cases "parse_targets 0 [] (Targets cfg)")
    case (Inl e)
    then show ?thesis using n t by (simp add: newBackend_def require_def Let_def rs(1))
  next
    case (Inr ts)
    obtain sched where sched: "(case Weights cfg of None \<Rightarrow> Inr []
        | Some ws \<Rightarrow> rbind (wrap_err ''weights: %w'' [] (validateTargetWeights ws (length ts))) (\<lambda>_. Inr (buildTargetSchedule ws)))
        = Inr sched" "sched = [] \<or> set sched = {..<length ts}"
      using schedule_built [of "length ts" "Weights cfg" "''weights: %w''" "[]"] assms(1)
      by (auto simp: backend_ok_def parse_targets_length [OF Inr])
    show ?thesis
    proof (cases "loadUpstreamTLS env (BTLS cfg)")
      case Inl2: (Inl e)
      then show ?thesis using n t Inr by (simp add: newBackend_def require_def Let_def rs(1))
    next
      case Inr2: (Inr tls)
      have "newBackend env cfg = Inr (assemble_backend cfg (nat (Tries cfg)) (st, ms, mx, bd) ts sched tls)"
        using n t health_accepted [OF assms(1)] Inr Inr2 sched(1) by (simp add: newBackend_def require_def Let_def rs(1))
      then show ?thesis using assembled_ok [OF assms rs(2,3) Inr sched(2)] Inr by simp
    qed
  qed
qed

definition sample_backend_config :: "(string, string) backendConfig" where
  "sample_backend_config = \<lparr>Targets = [''http://a:1'', ''http://b:2''], Weights = Some [2, 1], Tries = 2,
     BTimeout = \<lparr>TDial = 0, THeader = 7\<rparr>, BTLS = None, BHealth = None,
     BRetry = Some \<lparr>RetryStatus = [503], RetryMethods = [], RetryBody = None,
       RetryBackoff = Some \<lparr>Base = 10, Cap = 40, Jitter = False\<rparr>, RetryDeadline = 0, RetryBudget = None\<rparr>\<rparr>"

lemma sample_hosts:
  "parse_host ''a:1'' = Some ''a:1''" "parse_host ''b:2'' = Some ''b:2''"
  by (simp_all add: parse_host_def has_prefix_def last_index_def valid_optional_port_def is_digit_def
      host_keeps_def is_letter_def is_lower_def less_eq_char_def)

lemma sample_ports:
  "url_split_host_port ''a:1'' = (''a'', ''1'')" "url_split_host_port ''b:2'' = (''b'', ''2'')"
  by (simp_all add: url_split_host_port_def has_prefix_def last_index_def valid_optional_port_def is_digit_def
      less_eq_char_def)

lemma sample_valid:
  "validatePort ''1'' = Inr ()" "validatePort ''2'' = Inr ()"
  by (simp_all add: validatePort_def is_digit_def digit_val_def less_eq_char_def)

lemma sample_ctl:
  "\<not> list_ex is_ctl ''a:1''" "\<not> list_ex is_ctl ''b:2''"
  by (simp_all add: is_ctl_def less_char_def)

lemma sample_target:
  assumes "(c, p) \<in> {(CHR ''a'', CHR ''1''), (CHR ''b'', CHR ''2'')}"
  shows "\<exists>u. parseTarget (''http://'' @ [c, CHR '':'', p]) = Inr u"
proof -
  have h: "parse_host [c, CHR '':'', p] = Some [c, CHR '':'', p]" "url_split_host_port [c, CHR '':'', p] = ([c], [p])"
      "validatePort [p] = Inr ()" "\<not> list_ex is_ctl [c, CHR '':'', p]"
    using assms sample_hosts sample_ports sample_valid sample_ctl by blast+
  define u where "u = \<lparr>Scheme = ''http'', UHost = [c, CHR '':'', p], Path = [], RawPath = [], RawQuery = [], ForceQuery = False\<rparr>"
  have "parseTarget (''http'' @ ''://'' @ [c, CHR '':'', p]) = Inr u"
  proof (rule parseTarget_plain [OF refl])
    show "set [c, CHR '':'', p] \<inter> set ''#?/@'' = {}" using assms by auto
    show "\<not> list_ex is_ctl [c, CHR '':'', p]" by (rule h(4))
    show "validateTargetPort u = Inr ()"
      using h(2,3) by (simp add: validateTargetPort_def url_port_def u_def)
  qed (simp_all add: u_def to_lower_def lower_char_def is_upper_def less_eq_char_def url_hostname_def h(1,2))
  then show ?thesis by auto
qed

theorem newBackend_accepts_checked_witness:
  "\<exists>b. newBackend demo_crypto sample_backend_config = Inr b \<and> running_ok b \<and> tries (core b) = 2"
proof -
  have checked: "backend_ok sample_backend_config"
    by (simp add: sample_backend_config_def backend_ok_def some_ok_def retry_ok_def statuses_ok_def backoff_ok_def
      validateTargetWeights_def maxTargetWeight_def maxTargetWeightTotal_def)
  have parsed: "is_ok (parse_targets 0 [] (Targets sample_backend_config))"
    using sample_target [of "CHR ''a''" "CHR ''1''"] sample_target [of "CHR ''b''" "CHR ''2''"]
    by (auto simp: sample_backend_config_def is_ok_def)
  have loaded: "loadUpstreamTLS demo_crypto (BTLS sample_backend_config) = Inr None"
    by (simp add: sample_backend_config_def loadUpstreamTLS_def)
  have limit: "case BRetry sample_backend_config of Some r \<Rightarrow>
      (case RetryBackoff r of Some bo \<Rightarrow> Cap bo \<le> maxInt64 | None \<Rightarrow> True) | None \<Rightarrow> True"
    by (simp add: sample_backend_config_def maxInt64_def)
  have "Tries sample_backend_config = 2" by (simp add: sample_backend_config_def)
  then show ?thesis
    using newBackend_accepts_checked [OF checked limit, of demo_crypto] parsed loaded
    by (cases "newBackend demo_crypto sample_backend_config") (auto simp: is_ok_iff)
qed

end
