(* ===== verification/TransportCache.thy ===== *)
theory TransportCache
  imports Upstream
begin

text \<open>
  What the cache of direct transports promises (\<open>src/proxy.go\<close>, \<open>directTransportCache.get\<close>): while a router is
  built its direct proxies share a transport exactly when they ask for the same settings.
\<close>

section \<open>Requests to one cache\<close>

text \<open>A request gives the timeout block and the address of a TLS block; \<open>blocks\<close> holds what was decoded there.\<close>

type_synonym 'a transport_request = "directTimeout option \<times> 'a option"

definition block_at :: "('a \<Rightarrow> ('x, 'k) upstreamTLSConfig) \<Rightarrow> 'a \<Rightarrow> ('a, 'x, 'k) tls_object" where
  "block_at blocks a = \<lparr>tls_at = Decoded a, tls_data = blocks a\<rparr>"

fun get_transports ::
  "('x, 'k) crypto \<Rightarrow> ('a \<Rightarrow> ('x, 'k) upstreamTLSConfig) \<Rightarrow> 'a transport_request list \<Rightarrow> ('a, 'x, 'k) directTransportCache \<Rightarrow>
   (nat list \<times> ('a, 'x, 'k) directTransportCache) res" where
  "get_transports env blocks [] c = Inr ([], c)"
| "get_transports env blocks (r # rs) c =
     rbind (get_transport env (fst r) (map_option (block_at blocks) (snd r)) c) (\<lambda>(i, c1).
     rbind (get_transports env blocks rs c1) (\<lambda>(is, c2). Inr (i # is, c2)))"

text \<open>What a request asks for: both time-outs and the identity of the loaded TLS block.\<close>

definition loaded_at :: "('x, 'k) crypto \<Rightarrow> ('a \<Rightarrow> ('x, 'k) upstreamTLSConfig) \<Rightarrow> 'a \<Rightarrow> ('a, 'x, 'k) tls_object option" where
  "loaded_at env blocks a = (case load_object env (block_at blocks a) of Inl e \<Rightarrow> None | Inr l \<Rightarrow> Some l)"

definition asked_for ::
  "('x, 'k) crypto \<Rightarrow> ('a \<Rightarrow> ('x, 'k) upstreamTLSConfig) \<Rightarrow> 'a transport_request \<Rightarrow>
   int \<times> int \<times> 'a upstreamTLSKey option option" where
  "asked_for env blocks r = (dial_of (fst r), header_of (fst r),
     map_option (\<lambda>a. map_option upstreamTLSIdentity (loaded_at env blocks a)) (snd r))"

section \<open>The invariant of the cache\<close>

text \<open>An address determines the object found there, so the cache never confuses two of them.\<close>

definition transports_ok ::
  "('x, 'k) crypto \<Rightarrow> ('a \<Rightarrow> ('x, 'k) upstreamTLSConfig) \<Rightarrow> ('a, 'x, 'k) directTransportCache \<Rightarrow> bool" where
  "transports_ok env blocks c \<longleftrightarrow>
     (\<forall>r l. loadedByConfig c r = Some l \<longrightarrow> (\<exists>a. r = Decoded a \<and> loaded_at env blocks a = Some l)) \<and>
     (\<forall>k l. loadedByMaterial c k = Some l \<longrightarrow> upstreamTLSIdentity l = k \<and> (\<exists>a. loaded_at env blocks a = Some l)) \<and>
     (\<forall>d h t i. byKey c (d, h, t) = Some i \<longrightarrow> i < length (all_transports c) \<and>
        (\<exists>m. t = map_option tls_at m \<and> (\<forall>l. m = Some l \<longrightarrow> loadedByMaterial c (upstreamTLSIdentity l) = Some l) \<and>
          all_transports c ! i = newProxyTransportWithTLS d h (map_option tls_data m))) \<and>
     (\<forall>k k' i. byKey c k = Some i \<longrightarrow> byKey c k' = Some i \<longrightarrow> k = k')"

lemma transports_ok_new: "transports_ok env blocks newDirectTransportCache"
  by (simp add: transports_ok_def newDirectTransportCache_def)

lemma transports_okD:
  assumes "transports_ok env blocks c"
  shows "loadedByConfig c r = Some l \<Longrightarrow> \<exists>a. r = Decoded a \<and> loaded_at env blocks a = Some l"
    and "loadedByMaterial c k = Some l \<Longrightarrow> upstreamTLSIdentity l = k \<and> (\<exists>a. loaded_at env blocks a = Some l)"
    and "byKey c (d, h, t) = Some i \<Longrightarrow> i < length (all_transports c) \<and>
        (\<exists>m. t = map_option tls_at m \<and> (\<forall>l. m = Some l \<longrightarrow> loadedByMaterial c (upstreamTLSIdentity l) = Some l) \<and>
          all_transports c ! i = newProxyTransportWithTLS d h (map_option tls_data m))"
    and "byKey c key = Some i \<Longrightarrow> byKey c key' = Some i \<Longrightarrow> key = key'"
  using assms unfolding transports_ok_def by blast+

lemma loaded_address:
  "loaded_at env blocks a = Some l \<Longrightarrow> tls_address (tls_at l) = a"
  by (auto simp: loaded_at_def load_object_def block_at_def rbind_Inr_iff split: sum.splits option.splits if_splits)

lemma same_address_same_object:
  "loaded_at env blocks a = Some l \<Longrightarrow> loaded_at env blocks b = Some m \<Longrightarrow> tls_at l = tls_at m \<Longrightarrow> l = m"
  by (metis loaded_address option.inject)

definition extends :: "('a, 'x, 'k) directTransportCache \<Rightarrow> ('a, 'x, 'k) directTransportCache \<Rightarrow> bool" where
  "extends c c' \<longleftrightarrow> byKey c \<subseteq>\<^sub>m byKey c' \<and> loadedByMaterial c \<subseteq>\<^sub>m loadedByMaterial c' \<and>
     (\<exists>ts. all_transports c' = all_transports c @ ts)"

lemma extends_refl [simp]: "extends c c" by (simp add: extends_def)

lemma extends_trans: "extends c c' \<Longrightarrow> extends c' c'' \<Longrightarrow> extends c c''"
  by (auto simp: extends_def intro: map_le_trans)

text \<open>The object a request ends up with.\<close>

definition material_of :: "('x, 'k) crypto \<Rightarrow> ('a \<Rightarrow> ('x, 'k) upstreamTLSConfig) \<Rightarrow> ('a, 'x, 'k) directTransportCache \<Rightarrow>
    'a option \<Rightarrow> ('a, 'x, 'k) tls_object option \<Rightarrow> bool" where
  "material_of env blocks c r m \<longleftrightarrow>
     (case r of None \<Rightarrow> m = None
      | Some a \<Rightarrow> \<exists>l n. loaded_at env blocks a = Some l \<and> m = Some n \<and> loadedByMaterial c (upstreamTLSIdentity l) = Some n)"

lemma material_of_mono: "extends c c' \<Longrightarrow> material_of env blocks c r m \<Longrightarrow> material_of env blocks c' r m"
  by (auto simp: material_of_def extends_def map_le_def dom_def split: option.splits)

lemma material_of_unique: "material_of env blocks c r m \<Longrightarrow> material_of env blocks c r n \<Longrightarrow> m = n"
  by (auto simp: material_of_def split: option.splits)

section \<open>One request\<close>

lemma loaded_block: "load_object env (block_at blocks a) = Inr l \<Longrightarrow> loaded_at env blocks a = Some l"
  by (simp add: loaded_at_def)

lemma cached_tls_ok:
  assumes "cached_tls env (map_option (block_at blocks) r) c = Inr (m, c1)" and "transports_ok env blocks c"
  shows "transports_ok env blocks c1 \<and> extends c c1 \<and> material_of env blocks c1 r m"
proof (cases r)
  case None
  then show ?thesis using assms by (simp add: cached_tls_def material_of_def)
next
  case (Some a)
  have at: "tls_at (block_at blocks a) = Decoded a" by (simp add: block_at_def)
  obtain l c0 where l: "loaded_at env blocks a = Some l" "transports_ok env blocks c0" "extends c c0"
      "(case loadedByMaterial c0 (upstreamTLSIdentity l) of
          None \<Rightarrow> Inr (Some l, c0\<lparr>loadedByMaterial := (loadedByMaterial c0)(upstreamTLSIdentity l \<mapsto> l)\<rparr>)
        | Some n \<Rightarrow> Inr (Some n, c0)) = (Inr (m, c1) :: _ res)"
  proof (cases "loadedByConfig c (Decoded a)")
    case None
    with assms(1) Some at obtain l where l: "load_object env (block_at blocks a) = Inr l"
        "(let c0 = c\<lparr>loadedByConfig := (loadedByConfig c)(Decoded a \<mapsto> l)\<rparr> in
          case loadedByMaterial c0 (upstreamTLSIdentity l) of
          None \<Rightarrow> Inr (Some l, c0\<lparr>loadedByMaterial := (loadedByMaterial c0)(upstreamTLSIdentity l \<mapsto> l)\<rparr>)
        | Some n \<Rightarrow> Inr (Some n, c0)) = (Inr (m, c1) :: _ res)"
      by (auto simp: cached_tls_def rbind_Inr_iff Let_def)
    have "transports_ok env blocks (c\<lparr>loadedByConfig := (loadedByConfig c)(Decoded a \<mapsto> l)\<rparr>)"
      using assms(2) loaded_block [OF l(1)] by (simp add: transports_ok_def)
    then show thesis using l by (intro that [OF loaded_block [OF l(1)]]) (auto simp: Let_def extends_def)
  next
    case (Some l)
    then have "loaded_at env blocks a = Some l" using transports_okD(1) [OF assms(2)] by blast
    then show thesis using that [of l c] assms Some \<open>r = Some a\<close> at by (auto simp: cached_tls_def)
  qed
  show ?thesis
  proof (cases "loadedByMaterial c0 (upstreamTLSIdentity l)")
    case None
    then have c1: "m = Some l" "c1 = c0\<lparr>loadedByMaterial := (loadedByMaterial c0)(upstreamTLSIdentity l \<mapsto> l)\<rparr>"
      using l(4) by auto
    have keeps: "loadedByMaterial c0 k = Some n \<Longrightarrow> loadedByMaterial c1 k = Some n" for k n
      using None by (auto simp: c1)
    have "transports_ok env blocks c1"
      unfolding transports_ok_def
    proof (intro conjI allI impI, goal_cases)
      case (4 d h t i)
      then show ?case using transports_okD(3) [OF l(2), of d h t i] by (simp add: c1)
    next
      case (5 d h t i)
      then have "byKey c0 (d, h, t) = Some i" by (simp add: c1)
      from transports_okD(3) [OF l(2) this] obtain n where "t = map_option tls_at n"
          "\<forall>l. n = Some l \<longrightarrow> loadedByMaterial c0 (upstreamTLSIdentity l) = Some l"
          "all_transports c0 ! i = newProxyTransportWithTLS d h (map_option tls_data n)" by blast
      then show ?case using keeps by (intro exI [of _ n]) (auto simp: c1)
    next
      case (2 k n)
      then show ?case using transports_okD(2) [OF l(2), of k n] by (auto simp: c1 split: if_splits)
    next
      case (3 k n)
      then show ?case using transports_okD(2) [OF l(2), of k n] l(1) by (auto simp: c1 split: if_splits)
    next
      case (6 k k' i)
      then show ?case using transports_okD(4) [OF l(2), of k i k'] by (simp add: c1)
    qed (use transports_okD(1) [OF l(2)] in \<open>simp add: c1\<close>)
    moreover have "extends c0 c1" using None by (auto simp: c1 extends_def map_le_def)
    ultimately show ?thesis using l(1,3) Some extends_trans [OF l(3)] by (simp add: material_of_def c1)
  qed (use l Some in \<open>auto simp: material_of_def dest: sym\<close>)
qed

text \<open>Objects the cache has for two identities are at different addresses.\<close>

lemma material_address_inj:
  assumes "transports_ok env blocks c" "loadedByMaterial c k = Some l" "loadedByMaterial c k' = Some m" "tls_at l = tls_at m"
  shows "k = k'"
  using transports_okD(2) [OF assms(1,2)] transports_okD(2) [OF assms(1,3)] assms(4) same_address_same_object by metis

lemma get_transport_ok:
  assumes "get_transport env t (map_option (block_at blocks) r) c = Inr (i, c')" and "transports_ok env blocks c"
  shows "transports_ok env blocks c' \<and> extends c c' \<and>
    (\<exists>m. material_of env blocks c' r m \<and> byKey c' (dial_of t, header_of t, map_option tls_at m) = Some i)"
proof -
  obtain m c1 where m: "cached_tls env (map_option (block_at blocks) r) c = Inr (m, c1)"
    using assms(1) by (auto simp: get_transport_def rbind_Inr_iff)
  define key where "key = (dial_of t, header_of t, map_option tls_at m)"
  note ok = cached_tls_ok [OF m assms(2)]
  show ?thesis
  proof (cases "byKey c1 key")
    case (Some j)
    then show ?thesis using assms(1) m ok by (auto simp: get_transport_def Let_def key_def [symmetric] intro!: exI [of _ m])
  next
    case None
    define n where "n = length (all_transports c1)"
    have c': "i = n" "c' = c1\<lparr>byKey := (byKey c1)(key \<mapsto> n),
        all_transports := all_transports c1 @ [newProxyTransportWithTLS (dial_of t) (header_of t) (map_option tls_data m)]\<rparr>"
      using assms(1) m None by (auto simp: get_transport_def Let_def key_def [symmetric] n_def)
    have small: "byKey c1 k = Some j \<Longrightarrow> j < n" for k j
      using transports_okD(3) [of env blocks c1 "fst k" "fst (snd k)" "snd (snd k)" j] ok by (simp add: n_def)
    have mat: "m = Some l \<Longrightarrow> loadedByMaterial c1 (upstreamTLSIdentity l) = Some l" for l
      using ok transports_okD(2) [of env blocks c1] by (fastforce simp: material_of_def split: option.splits)
    have "transports_ok env blocks c'"
      unfolding transports_ok_def
    proof (intro conjI allI impI, goal_cases)
      case (5 d h a j)
      then show ?case
      proof (cases "(d, h, a) = key")
        case True
        then show ?thesis using 5 mat by (intro exI [of _ m]) (auto simp: c' key_def nth_append n_def)
      next
        case False
        then have "byKey c1 (d, h, a) = Some j" using 5 by (simp add: c')
        from transports_okD(3) [of env blocks c1, OF _ this] small [OF this] ok show ?thesis
          by (auto simp: c' nth_append n_def)
      qed
    next
      case (4 d h a j)
      then show ?case using small [of "(d, h, a)" j] by (auto simp: c' n_def split: if_splits)
    next
      case (6 k k' j)
      then show ?case using small [of k j] small [of k' j] transports_okD(4) [of env blocks c1 k j k'] ok
        by (auto simp: c' split: if_splits)
    qed (use ok transports_okD(1,2) [of env blocks c1] in \<open>auto simp: c'\<close>)
    moreover have ext: "extends c1 c'" using None by (auto simp: c' extends_def map_le_def)
    moreover have "byKey c' key = Some i" by (simp add: c')
    ultimately show ?thesis using ok extends_trans material_of_mono [OF ext, of env blocks r m] by (auto simp: key_def)
  qed
qed

section \<open>Any sequence of requests\<close>

lemma get_transports_ok:
  assumes "get_transports env blocks rs c = Inr (is, c')" and "transports_ok env blocks c"
  shows "transports_ok env blocks c' \<and> extends c c' \<and> length is = length rs \<and>
    (\<forall>j < length rs. \<exists>m. material_of env blocks c' (snd (rs ! j)) m \<and>
       byKey c' (dial_of (fst (rs ! j)), header_of (fst (rs ! j)), map_option tls_at m) = Some (is ! j))"
  using assms
proof (induction rs arbitrary: c "is")
  case (Cons r rs)
  obtain i c1 js where get: "get_transport env (fst r) (map_option (block_at blocks) (snd r)) c = Inr (i, c1)"
      and rest: "get_transports env blocks rs c1 = Inr (js, c')" and js: "is = i # js"
    using Cons.prems(1) by (auto simp: rbind_Inr_iff)
  note first = get_transport_ok [OF get Cons.prems(2)]
  note IH = Cons.IH [OF rest conjunct1 [OF first]]
  obtain m where m: "material_of env blocks c1 (snd r) m" "byKey c1 (dial_of (fst r), header_of (fst r), map_option tls_at m) = Some i"
    using first by blast
  have "material_of env blocks c' (snd r) m" using IH m(1) by (blast intro: material_of_mono)
  moreover have "byKey c' (dial_of (fst r), header_of (fst r), map_option tls_at m) = Some i"
    using IH m(2) by (force simp: extends_def map_le_def)
  ultimately have "\<exists>m. material_of env blocks c' (snd ((r # rs) ! j)) m \<and>
      byKey c' (dial_of (fst ((r # rs) ! j)), header_of (fst ((r # rs) ! j)), map_option tls_at m) = Some (is ! j)"
    if "j < length (r # rs)" for j
    using IH that by (cases j) (auto simp: js)
  then show ?case using IH first js extends_trans by auto
qed simp

text \<open>The identity asked for decides the address of the material.\<close>

lemma material_of_identity:
  assumes "transports_ok env blocks c" "material_of env blocks c r m" "material_of env blocks c r' m'"
  shows "map_option tls_at m = map_option tls_at m' \<longleftrightarrow>
    map_option (\<lambda>a. map_option upstreamTLSIdentity (loaded_at env blocks a)) r =
    map_option (\<lambda>a. map_option upstreamTLSIdentity (loaded_at env blocks a)) r'"
  using assms material_address_inj [OF assms(1)] unfolding material_of_def
  by (cases r; cases r') auto

lemma material_of_settings:
  assumes "transports_ok env blocks c" "material_of env blocks c r m"
  shows "map_option (\<lambda>l. Some (upstreamTLSIdentity l)) m = map_option (\<lambda>a. map_option upstreamTLSIdentity (loaded_at env blocks a)) r"
  using assms(2) transports_okD(2) [OF assms(1)] by (fastforce simp: material_of_def split: option.splits)

lemma material_found:
  assumes "transports_ok env blocks c" "material_of env blocks c r (Some n)"
  shows "\<exists>a. loaded_at env blocks a = Some n"
proof -
  obtain k where "loadedByMaterial c k = Some n"
    using assms(2) by (auto simp: material_of_def split: option.splits)
  then show ?thesis using transports_okD(2) [OF assms(1)] by blast
qed

lemma transports_by_identity:
  assumes "get_transports env blocks rs newDirectTransportCache = Inr (is, c)" and "j < length rs" and "k < length rs"
  shows "(is ! j = is ! k \<longleftrightarrow> asked_for env blocks (rs ! j) = asked_for env blocks (rs ! k)) \<and>
    is ! j < length (all_transports c) \<and>
    (\<exists>m. all_transports c ! (is ! j) = newProxyTransportWithTLS (dial_of (fst (rs ! j))) (header_of (fst (rs ! j))) (map_option tls_data m) \<and>
      asked_for env blocks (rs ! j) =
        (dial_of (fst (rs ! j)), header_of (fst (rs ! j)), map_option (\<lambda>l. Some (upstreamTLSIdentity l)) m))"
proof -
  note ok = get_transports_ok [OF assms(1) transports_ok_new]
  have c: "transports_ok env blocks c" using ok by blast
  obtain m where m: "material_of env blocks c (snd (rs ! j)) m"
      "byKey c (dial_of (fst (rs ! j)), header_of (fst (rs ! j)), map_option tls_at m) = Some (is ! j)"
    using ok assms(2) by blast
  obtain n where n: "material_of env blocks c (snd (rs ! k)) n"
      "byKey c (dial_of (fst (rs ! k)), header_of (fst (rs ! k)), map_option tls_at n) = Some (is ! k)"
    using ok assms(3) by blast
  have "is ! j = is ! k \<longleftrightarrow> (dial_of (fst (rs ! j)), header_of (fst (rs ! j)), map_option tls_at m) =
      (dial_of (fst (rs ! k)), header_of (fst (rs ! k)), map_option tls_at n)"
    using transports_okD(4) [OF c m(2)] m(2) n(2) by (metis option.inject)
  then have same: "is ! j = is ! k \<longleftrightarrow> asked_for env blocks (rs ! j) = asked_for env blocks (rs ! k)"
    unfolding asked_for_def prod.inject material_of_identity [OF c m(1) n(1)] .
  from transports_okD(3) [OF c m(2)] obtain x where x: "is ! j < length (all_transports c)" "map_option tls_at m = map_option tls_at x"
      "\<forall>l. x = Some l \<longrightarrow> loadedByMaterial c (upstreamTLSIdentity l) = Some l"
      "all_transports c ! (is ! j) = newProxyTransportWithTLS (dial_of (fst (rs ! j))) (header_of (fst (rs ! j))) (map_option tls_data x)"
    by blast
  have "m = x"
  proof (cases x)
    case (Some l)
    then obtain n where n: "m = Some n" "tls_at n = tls_at l" using x(2) by auto
    obtain a where a: "loaded_at env blocks a = Some n" using material_found [OF c] m(1) n(1) by blast
    have "loadedByMaterial c (upstreamTLSIdentity l) = Some l" using x(3) Some by simp
    from transports_okD(2) [OF c this] obtain b where "loaded_at env blocks b = Some l" by blast
    from same_address_same_object [OF a this n(2)] show ?thesis using n(1) Some by simp
  qed (use x(2) in simp)
  then show ?thesis using same x material_of_settings [OF c m(1)] by (auto simp: asked_for_def)
qed

text \<open>
  What two TLS blocks must have in common to stand for the same settings: the trusted authorities (path and
  hash of the file), the server name, and the client certificate (paths and hashes of certificate and key).
  Authorities or a certificate that did not come with a hash are the same only if they are the same object.
\<close>

definition same_roots :: "('a, 'x, 'k) tls_object \<Rightarrow> ('a, 'x, 'k) tls_object \<Rightarrow> bool" where
  "same_roots l m \<longleftrightarrow> CAPath (tls_data l) = CAPath (tls_data m) \<and> CAHash (tls_data l) = CAHash (tls_data m) \<and>
     (CAHash (tls_data l) = zero_hash \<longrightarrow>
        (RootCAs (tls_data l) = None \<longleftrightarrow> RootCAs (tls_data m) = None) \<and>
        (RootCAs (tls_data l) \<noteq> None \<longrightarrow> tls_at l = tls_at m))"

definition same_client_cert :: "('a, 'x, 'k) tls_object \<Rightarrow> ('a, 'x, 'k) tls_object \<Rightarrow> bool" where
  "same_client_cert l m \<longleftrightarrow> CertPath (tls_data l) = CertPath (tls_data m) \<and> KeyPath (tls_data l) = KeyPath (tls_data m) \<and>
     CertHash (tls_data l) = CertHash (tls_data m) \<and> KeyHash (tls_data l) = KeyHash (tls_data m) \<and>
     (CertHash (tls_data l) = zero_hash \<or> KeyHash (tls_data l) = zero_hash \<longrightarrow>
        (ClientCert (tls_data l) = None \<longleftrightarrow> ClientCert (tls_data m) = None) \<and>
        (ClientCert (tls_data l) \<noteq> None \<longrightarrow> tls_at l = tls_at m))"

definition same_tls :: "('a, 'x, 'k) tls_object \<Rightarrow> ('a, 'x, 'k) tls_object \<Rightarrow> bool" where
  "same_tls l m \<longleftrightarrow> same_roots l m \<and> ServerName (tls_data l) = ServerName (tls_data m) \<and> same_client_cert l m"

lemma identity_same_tls: "upstreamTLSIdentity l = upstreamTLSIdentity m \<longleftrightarrow> same_tls l m"
  by (auto simp: upstreamTLSIdentity_def Let_def same_tls_def same_roots_def same_client_cert_def)

fun same_block ::
  "('x, 'k) crypto \<Rightarrow> ('a \<Rightarrow> ('x, 'k) upstreamTLSConfig) \<Rightarrow> 'a option \<Rightarrow> 'a option \<Rightarrow> bool" where
  "same_block env blocks None None = True"
| "same_block env blocks (Some a) (Some b) =
     (case (loaded_at env blocks a, loaded_at env blocks b) of (Some l, Some m) \<Rightarrow> same_tls l m | _ \<Rightarrow> False)"
| "same_block env blocks _ _ = False"

lemma asked_for_same:
  assumes "\<And>a. snd r = Some a \<Longrightarrow> loaded_at env blocks a \<noteq> None" "\<And>a. snd q = Some a \<Longrightarrow> loaded_at env blocks a \<noteq> None"
  shows "asked_for env blocks r = asked_for env blocks q \<longleftrightarrow>
    dial_of (fst r) = dial_of (fst q) \<and> header_of (fst r) = header_of (fst q) \<and> same_block env blocks (snd r) (snd q)"
  using assms
  by (cases "snd r"; cases "snd q") (auto simp: asked_for_def identity_same_tls)

lemma get_transports_loaded:
  assumes "get_transports env blocks rs newDirectTransportCache = Inr (is, c)" and "j < length rs"
    and "snd (rs ! j) = Some a"
  shows "loaded_at env blocks a \<noteq> None"
proof -
  obtain m where "material_of env blocks c (snd (rs ! j)) m"
    using get_transports_ok [OF assms(1) transports_ok_new] assms(2) by blast
  with assms(3) show ?thesis by (auto simp: material_of_def)
qed

text \<open>C16. While a router is built, two direct proxies share a transport exactly when they ask for the same dial
  time-out, the same header time-out and the same TLS settings: the same authorities, server name and client
  certificate, or no TLS block at all. The transport a proxy gets has its time-outs, and TLS settings
  that are the same as its own; without a TLS block it gets none. A proxy never gets the client
  certificate of another block.
\<close>

theorem transports_shared_exactly:
  assumes "get_transports env blocks rs newDirectTransportCache = Inr (is, c)" and "j < length rs" and "k < length rs"
  shows "(is ! j = is ! k \<longleftrightarrow> dial_of (fst (rs ! j)) = dial_of (fst (rs ! k)) \<and>
      header_of (fst (rs ! j)) = header_of (fst (rs ! k)) \<and> same_block env blocks (snd (rs ! j)) (snd (rs ! k))) \<and>
    is ! j < length (all_transports c) \<and>
    (\<exists>m. all_transports c ! (is ! j) = newProxyTransportWithTLS (dial_of (fst (rs ! j))) (header_of (fst (rs ! j))) (map_option tls_data m) \<and>
      (case snd (rs ! j) of None \<Rightarrow> m = None
       | Some a \<Rightarrow> \<exists>l n. loaded_at env blocks a = Some l \<and> m = Some n \<and> same_tls l n))"
proof -
  note loaded = get_transports_loaded [OF assms(1)]
  note id = transports_by_identity [OF assms]
  from id obtain m where m: "all_transports c ! (is ! j) =
        newProxyTransportWithTLS (dial_of (fst (rs ! j))) (header_of (fst (rs ! j))) (map_option tls_data m)"
      "asked_for env blocks (rs ! j) =
        (dial_of (fst (rs ! j)), header_of (fst (rs ! j)), map_option (\<lambda>l. Some (upstreamTLSIdentity l)) m)" by blast
  have "case snd (rs ! j) of None \<Rightarrow> m = None
      | Some a \<Rightarrow> \<exists>l n. loaded_at env blocks a = Some l \<and> m = Some n \<and> same_tls l n"
    using m(2) loaded [OF assms(2)] by (cases m) (auto simp: asked_for_def identity_same_tls split: option.splits)
  then show ?thesis
    using id m(1) asked_for_same [of "rs ! j" env blocks "rs ! k"] loaded [OF assms(2)] loaded [OF assms(3)] by blast
qed

definition named_block :: "nat \<Rightarrow> (string, string) upstreamTLSConfig" where
  "named_block a = \<lparr>CAPath = [], RootCAs = None, CAHash = zero_hash, ServerName = (if a < 2 then ''x'' else ''y''),
     CertPath = [], KeyPath = [], ClientCert = None, CertHash = zero_hash, KeyHash = zero_hash\<rparr>"

lemma transports_shared_exactly_witness:
  "\<exists>is c. get_transports demo_crypto named_block [(None, Some 0), (None, Some 1), (None, Some 2)]
      newDirectTransportCache = Inr (is, c) \<and> is ! 0 = is ! 1 \<and> is ! 0 \<noteq> is ! 2"
proof -
  define rs :: "nat transport_request list" where "rs = [(None, Some 0), (None, Some 1), (None, Some 2)]"
  have load: "load_object demo_crypto (block_at named_block a) = Inr (block_at named_block a)" for a
    by (simp add: load_object_def block_at_def named_block_def loadUpstreamTLS_def load_ca_def)
  have "is_ok (get_transports demo_crypto named_block rs newDirectTransportCache)"
    by (simp add: rs_def get_transport_def cached_tls_def newDirectTransportCache_def load)
  then obtain "is" c where g: "get_transports demo_crypto named_block rs newDirectTransportCache = Inr (is, c)"
    by (auto simp: is_ok_iff)
  have "loaded_at demo_crypto named_block a = Some (block_at named_block a)" for a
    by (simp add: loaded_at_def load)
  then have "same_block demo_crypto named_block (Some 0) (Some 1)" "\<not> same_block demo_crypto named_block (Some 0) (Some 2)"
    by (simp_all add: same_tls_def same_roots_def same_client_cert_def block_at_def named_block_def)
  then show ?thesis
    using transports_shared_exactly [OF g, of 0 1] transports_shared_exactly [OF g, of 0 2] g by (auto simp: rs_def)
qed

end
