(* ===== verification/Proxying.thy ===== *)
theory Proxying
  imports TransportCache RequestID
begin

text \<open>
  The reverse proxies of \<open>src/proxy.go\<close> and how \<open>src/router.go\<close> chooses one: \<open>rewriteProxyRequest\<close>,
  \<open>newReverseProxy\<close>, \<open>modifyProxyResponse\<close>, \<open>newProxy\<close>, \<open>newBackendProxy\<close> and \<open>newProxyForSelection\<close>. A proxy is
  the record of its \<open>Rewrite\<close>, its \<open>ModifyResponse\<close> and its transport; forwarding the rewritten request
  and copying the answer is \<open>net/http/httputil\<close>.
\<close>

section \<open>The outgoing request\<close>

text \<open>What \<open>withBackendState\<close> puts into the context of the outgoing request is a field of it.\<close>

record out_request = retry_request +
  retry_mark :: "backendRetryState option"

fun set_request_headers :: "(string, string) gomap \<Rightarrow> 'm request_scheme \<Rightarrow> 'm request_scheme" where
  "set_request_headers [] out = out"
| "set_request_headers ((name, v) # hs) out =
     set_request_headers hs
       (if name = ''Host'' then out\<lparr>Host := v\<rparr> else out\<lparr>Header := header_set name v (Header out)\<rparr>)"

definition rewriteProxyRequest ::
  "request \<Rightarrow> 'm request_scheme \<Rightarrow> url \<Rightarrow> (string, string) gomap \<Rightarrow> ip_prefix list \<Rightarrow> 'm request_scheme" where
  "rewriteProxyRequest rin out target headers trust =
     set_request_headers headers
       (out\<lparr>URL := (rewrite_request_url target (URL out))\<lparr>RawQuery := RawQuery (URL rin), ForceQuery := ForceQuery (URL rin)\<rparr>,
            Host := Host rin, Header := setForwardedHeaders rin (Header out) trust\<rparr>)"

definition withBackendState :: "out_request \<Rightarrow> nat \<Rightarrow> bool \<Rightarrow> out_request" where
  "withBackendState out start retry = out\<lparr>retry_mark := Some \<lparr>start_target = start, may_retry = retry\<rparr>\<rparr>"

definition withBackendRetry :: "out_request \<Rightarrow> nat \<Rightarrow> out_request" where
  "withBackendRetry out start = withBackendState out start True"

section \<open>The response on its way back\<close>

text \<open>
  What the contexts say while \<open>modifyProxyResponse\<close> runs: the deadline's context before and after the
  headers are changed, and the cause or the context of the new \<open>directBody\<close> at the same two moments.
\<close>

record modify_reads =
  deadline_read :: "bool \<Rightarrow> ctx_error option"
  direct_read :: "bool \<Rightarrow> ctx_error option"

definition ctx_failure :: "ctx_error \<Rightarrow> gerr" where
  "ctx_failure e = Err (case e of Canceled \<Rightarrow> ''context canceled'' | DeadlineExceeded \<Rightarrow> ''context deadline exceeded'') []"

definition statusOK :: int where "statusOK = 200"

definition wraps_direct :: "int \<Rightarrow> proxied \<Rightarrow> bool" where
  "wraps_direct bodyTimeout r \<longleftrightarrow>
     bodyTimeout > 0 \<and> PStatus r \<ge> statusOK \<and> PStatus r \<noteq> statusSwitchingProtocols \<and> PBody r \<noteq> None"

definition watches_deadline :: "int \<Rightarrow> proxied \<Rightarrow> bool" where
  "watches_deadline deadline r \<longleftrightarrow> deadline > 0 \<and> (case PBody r of Some b \<Rightarrow> deadlineBodyState b | None \<Rightarrow> False)"

definition modifyProxyResponse ::
  "responseHeaderPolicy \<Rightarrow> responseHeaderPolicy \<Rightarrow> int \<Rightarrow> int \<Rightarrow> modify_reads modify_response" where
  "modifyProxyResponse site rt deadline bodyTimeout obs r =
     (let watched = watches_deadline deadline r; direct = wraps_direct bodyTimeout r in
      case (if watched then deadline_read obs False else None) of
        Some e \<Rightarrow> (Some (ctx_failure e), r)
      | None \<Rightarrow>
          (let r1 = (if direct then r\<lparr>PBody := map_option directBody (PBody r)\<rparr> else r) in
           case (if direct then direct_read obs False else None) of
             Some e \<Rightarrow> (Some (ctx_failure e), r1\<lparr>PCloses := PCloses r1 + 1\<rparr>)
           | None \<Rightarrow>
               (let r2 = r1\<lparr>PHeader := applyResponseHeaderPolicies (PTrailer r1) (PHeader r1) site rt\<rparr> in
                case (if watched then deadline_read obs True else None) of
                  Some e \<Rightarrow> (Some (ctx_failure e), r2)
                | None \<Rightarrow>
                    (case (if direct then direct_read obs True else None) of
                       Some e \<Rightarrow> (Some (ctx_failure e), r2\<lparr>PCloses := PCloses r2 + 1\<rparr>)
                     | None \<Rightarrow> (None, r2)))))"

section \<open>Proxies\<close>

text \<open>A direct proxy has the transport at a place of the cache; a backend's proxy either its plain
  transport or the backend itself, which retries.\<close>

datatype proxy_transport = DirectTransport nat | BackendTransport string | BackendRoundTrip string

text \<open>What the proxies of a backend share: the round-robin counter and the health of its targets.\<close>

record backend_world =
  nextIndex :: "64 word"
  wpool :: "clocked option"

type_synonym out_mark = "unit out_request_ext retry_request_ext"
type_synonym proxy = "(out_mark, string \<Rightarrow> backend_world, modify_reads, proxy_transport) reverse_proxy"
type_synonym proxy_rewrite = "request \<Rightarrow> out_request \<Rightarrow> (string \<Rightarrow> backend_world) \<Rightarrow> out_request \<times> (string \<Rightarrow> backend_world)"

definition newReverseProxy ::
  "proxy_rewrite \<Rightarrow> proxy_transport \<Rightarrow> responseHeaderPolicy \<Rightarrow> responseHeaderPolicy \<Rightarrow> int \<Rightarrow> int \<Rightarrow> proxy" where
  "newReverseProxy rewrite tr site rt deadline bodyTimeout =
     \<lparr>Rewrite = rewrite,
      ModifyResponse =
        (if deadline > 0 \<or> bodyTimeout > 0 \<or> \<not> emptyResponseHeaderPolicy site \<or> \<not> emptyResponseHeaderPolicy rt
         then Some (modifyProxyResponse site rt deadline bodyTimeout) else None),
      Transport = tr\<rparr>"

definition newProxy ::
  "('x, 'k) crypto \<Rightarrow> string \<Rightarrow> directTimeout option \<Rightarrow> ('a, 'x, 'k) tls_object option \<Rightarrow> (string, string) gomap \<Rightarrow>
   responseHeaderPolicy \<Rightarrow> responseHeaderPolicy \<Rightarrow> ip_prefix list \<Rightarrow> ('a, 'x, 'k) directTransportCache \<Rightarrow>
   (proxy \<times> ('a, 'x, 'k) directTransportCache) res" where
  "newProxy env raw timeout tls headers site rt trust cache =
     rbind (parseTarget raw) (\<lambda>target.
     require (tls \<noteq> None \<and> Scheme target \<noteq> ''https'') ''tls is only allowed with HTTPS target'' []
     (rbind (get_transport env timeout tls cache) (\<lambda>(i, cache').
        Inr (newReverseProxy (\<lambda>rin out s. (rewriteProxyRequest rin out target headers trust, s))
               (DirectTransport i) site rt 0 (directBodyTimeout timeout), cache'))))"

text \<open>The first target of a request, and the two ways a backend's proxy rewrites.\<close>

definition first_target :: "backend \<Rightarrow> backend_world \<Rightarrow> nat \<times> backend_world" where
  "first_target b w =
     (let (start, c) = nextScheduledTargetIndex (length (targets b)) (schedule b) (nextIndex w) in
      case (if health b = None then None else wpool w) of
        None \<Rightarrow> (start, w\<lparr>nextIndex := c\<rparr>)
      | Some p \<Rightarrow>
          (let (i, c', p') = nextHealthyTargetIndex (length (targets b)) (schedule b) start c p
           in (i, w\<lparr>nextIndex := c', wpool := Some p'\<rparr>)))"

definition backend_rewrite :: "string \<Rightarrow> backend \<Rightarrow> (string, string) gomap \<Rightarrow> ip_prefix list \<Rightarrow> proxy_rewrite" where
  "backend_rewrite name b headers trust rin out s =
     (let (start, w) = first_target b (s name);
          out1 = rewriteProxyRequest rin out (targets b ! start) headers trust;
          retry = retryableBackendRequest rin (retryMethods b) (retryBodyMax b);
          out2 = (if retry \<and> retryBodyMax b > 0 \<and> has_body (Body rin) then out1\<lparr>Body := Body rin\<rparr> else out1)
      in (if retry \<or> health b \<noteq> None then withBackendState out2 start retry else out1, s(name := w)))"

definition scheduled_rewrite :: "string \<Rightarrow> backend \<Rightarrow> (string, string) gomap \<Rightarrow> ip_prefix list \<Rightarrow> proxy_rewrite" where
  "scheduled_rewrite name b headers trust rin out s =
     (let (start, c) = nextScheduledTargetIndex (length (targets b)) (schedule b) (nextIndex (s name))
      in (rewriteProxyRequest rin out (targets b ! start) headers trust, s(name := (s name)\<lparr>nextIndex := c\<rparr>)))"

definition newBackendProxy ::
  "string \<Rightarrow> backend \<Rightarrow> (string, string) gomap \<Rightarrow> responseHeaderPolicy \<Rightarrow> responseHeaderPolicy \<Rightarrow> ip_prefix list \<Rightarrow> proxy" where
  "newBackendProxy name b headers site rt trust =
     (let plain = (tries b = 1 \<and> health b = None) in
      newReverseProxy ((if plain then scheduled_rewrite else backend_rewrite) name b headers trust)
        (if plain then BackendTransport name else BackendRoundTrip name) site rt (retryDeadline b) 0)"

section \<open>Choosing a proxy\<close>

definition validateDirectTimeoutValue :: "string \<Rightarrow> int \<Rightarrow> unit res" where
  "validateDirectTimeoutValue name duration =
     (if duration < 0 \<or> duration > maxDirectTimeout
      then Inl (Err ''timeout.%s must not be negative and no greater than %s'' [S name, N maxDirectTimeout]) else Inr ())"

definition validateDirectTimeout :: "directTimeout option \<Rightarrow> unit res" where
  "validateDirectTimeout timeout =
     (case timeout of
        None \<Rightarrow> Inr ()
      | Some t \<Rightarrow>
          rbind (validateDirectTimeoutValue ''dial'' (DDial t)) (\<lambda>_.
          rbind (validateDirectTimeoutValue ''header'' (DHeader t)) (\<lambda>_.
          validateDirectTimeoutValue ''body'' (DBody t))))"

definition newProxyForSelection ::
  "('x, 'k) crypto \<Rightarrow> string \<Rightarrow> string \<Rightarrow> directTimeout option \<Rightarrow> ('a, 'x, 'k) tls_object option \<Rightarrow>
   (string, string) gomap \<Rightarrow> responseHeaderPolicy \<Rightarrow> responseHeaderPolicy \<Rightarrow> ip_prefix list \<Rightarrow>
   (string, ('x, 'k) built_backend) gomap \<Rightarrow> ('a, 'x, 'k) directTransportCache \<Rightarrow>
   (proxy \<times> ('a, 'x, 'k) directTransportCache) res" where
  "newProxyForSelection env target backendName timeout tls headers site rt trust backends cache =
     rbind (validateDirectTimeout timeout) (\<lambda>_.
     require ((target \<noteq> []) = (backendName \<noteq> [])) ''must set exactly one of target or backend'' []
     (if target \<noteq> []
      then wrap_err ''target: %w'' [] (newProxy env target timeout tls headers site rt trust cache)
      else
        require (timeout \<noteq> None) ''timeout is not allowed with backend'' []
        (require (tls \<noteq> None) ''tls is not allowed with backend'' []
         (case map_of backends backendName of
            None \<Rightarrow> Inl (Err ''backend %q is not defined'' [S backendName])
          | Some b \<Rightarrow> Inr (newBackendProxy backendName (core b) headers site rt trust, cache)))))"

section \<open>Lemmas\<close>

lemma set_request_headers_fields [simp]:
  "URL (set_request_headers hs out) = URL out" "Body (set_request_headers hs out) = Body out"
  "Method (set_request_headers hs out) = Method out" "ContentLength (set_request_headers hs out) = ContentLength out"
  "request.more (set_request_headers hs out) = request.more out"
  by (induction hs arbitrary: out) auto

lemma set_request_headers_mark [simp]:
  "retry_mark (set_request_headers hs out) = retry_mark out"
  by (induction hs arbitrary: out) auto

lemma rewriteProxyRequest_mark [simp]:
  "retry_mark (rewriteProxyRequest rin out t headers trust) = retry_mark out"
  by (simp add: rewriteProxyRequest_def)

lemma set_request_headers_host:
  "wf_gomap hs \<Longrightarrow> Host (set_request_headers hs out) = (case map_of hs ''Host'' of Some v \<Rightarrow> v | None \<Rightarrow> Host out)"
proof (induction hs arbitrary: out)
  case (Cons nv hs)
  obtain name v where nv: "nv = (name, v)" by fastforce
  have "name \<notin> fst ` set hs" "wf_gomap hs" using Cons.prems by (auto simp: nv wf_gomap_def)
  moreover from this(1) have "map_of hs name = None" by (simp add: map_of_eq_None_iff)
  ultimately show ?case using Cons.IH by (auto simp: nv split: option.splits)
qed simp

lemma set_request_headers_lookup:
  assumes "wf_gomap hs" and "\<forall>(n, v) \<in> set hs. canonical_key n = n"
  shows "map_of (Header (set_request_headers hs out)) k =
    (if k = ''Host'' \<or> map_of hs k = None then map_of (Header out) k else map_option (\<lambda>v. [v]) (map_of hs k))"
  using assms
proof (induction hs arbitrary: out)
  case (Cons nv hs)
  obtain name v where nv: "nv = (name, v)" by fastforce
  have "map_of hs name = None" "wf_gomap hs" "canonical_key name = name"
    using Cons.prems by (auto simp: nv wf_gomap_def map_of_eq_None_iff)
  then show ?case using Cons.IH Cons.prems(2) by (auto simp: nv header_set_def)
qed simp

text \<open>Targets have no path of their own, so the client's path arrives as it was encoded.\<close>

lemma escaped_path_again: "escaped_path p (escaped_path p r) = escaped_path p r"
proof (cases "r \<noteq> [] \<and> valid_encoded r \<and> path_unescape r = Some p")
  case True
  then have "escaped_path p r = r" by (simp only: escaped_path_def simp_thms if_True not_False_eq_True)
  then show ?thesis by simp
next
  case False
  then have e: "escaped_path p r = (if p = ''*'' then ''*'' else path_escape p)"
    unfolding escaped_path_def by (simp only: if_False)
  show ?thesis
  proof (cases "p = ''*''")
    case True
    have "escaped_path ''*'' ''*'' = ''*''" by (simp add: escaped_path_def)
    then show ?thesis unfolding e using True by simp
  next
    case False
    then show ?thesis unfolding e unfolding escaped_path_def by (simp only: if_False if_cancel)
  qed
qed

lemma path_escape_slash: "has_prefix (path_escape p) ''/'' \<Longrightarrow> has_prefix p ''/''"
  by (cases p) (auto simp: has_prefix_def split: if_splits)

lemma escaped_slash: "has_prefix (escaped_path p []) ''/'' \<Longrightarrow> has_prefix p ''/''"
proof (cases "p = ''*''")
  case False
  then have "escaped_path p [] = path_escape p" by (simp add: escaped_path_def)
  then show "has_prefix (escaped_path p []) ''/'' \<Longrightarrow> has_prefix p ''/''" using path_escape_slash by simp
qed (simp add: escaped_path_def has_prefix_def)

lemma rewrite_request_url_target:
  assumes "target_ok t"
  shows "Scheme (rewrite_request_url t u) = Scheme t" "UHost (rewrite_request_url t u) = UHost t"
    and "has_prefix (url_escaped_path u) ''/'' \<Longrightarrow> Path (rewrite_request_url t u) = Path u \<and>
      url_escaped_path (rewrite_request_url t u) = url_escaped_path u"
proof -
  show "has_prefix (url_escaped_path u) ''/'' \<Longrightarrow> Path (rewrite_request_url t u) = Path u \<and>
      url_escaped_path (rewrite_request_url t u) = url_escaped_path u"
  proof -
    assume slash: "has_prefix (url_escaped_path u) ''/''"
    show ?thesis
    proof (cases "RawPath u = []")
      case True
      then have "has_prefix (Path u) ''/''" using slash escaped_slash by (simp add: url_escaped_path_def)
      then show ?thesis using assms True
        by (simp add: rewrite_request_url_def join_url_path_def single_joining_slash_def target_ok_def Let_def
            url_escaped_path_def has_suffix_def)
    next
      case False
      have "escaped_path [] [] = []" by (simp add: escaped_path_def)
      then have "join_url_path t u = (Path u, url_escaped_path u)"
        using assms False slash by (simp add: join_url_path_def target_ok_def Let_def url_escaped_path_def has_suffix_def)
      then show ?thesis by (simp add: rewrite_request_url_def url_escaped_path_def escaped_path_again)
    qed
  qed
qed (simp_all add: rewrite_request_url_def split: prod.splits)

section \<open>The target of a request\<close>

lemma scan_healthy_in:
  assumes "\<And>c. P (fst (gen c))" and "scan_healthy ask gen k c s = (Some i, c', s')"
  shows "P i"
  using assms(2)
proof (induction k arbitrary: c s)
  case (Suc k)
  obtain j d where g: "gen c = (j, d)" by fastforce
  obtain ok s1 where "ask j s = (ok, s1)" by fastforce
  then show ?case using Suc g assms(1) [of c] by (auto split: if_splits)
qed simp

lemma nextScheduledTargetIndex_in:
  assumes "0 < n" and "n < 2 ^ 64" and "length sched < 2 ^ 64" and "sched = [] \<or> set sched = {..<n}"
  shows "fst (nextScheduledTargetIndex n sched w) < n"
proof -
  have slots: "0 < schedule_slots n sched" "schedule_slots n sched < 2 ^ 64"
    using assms by (auto simp: schedule_slots_def)
  define j where "j = unat w mod schedule_slots n sched"
  have j: "j < schedule_slots n sched" using slots(1) by (simp add: j_def)
  have "slot_target sched j < n"
  proof (cases "sched = []")
    case False
    then have "sched ! j \<in> set sched" using j by (simp add: schedule_slots_def)
    then show ?thesis using False assms(4) by (auto simp: slot_target_def)
  qed (use j in \<open>simp add: slot_target_def schedule_slots_def\<close>)
  then show ?thesis unfolding next_scheduled [OF slots] j_def .
qed

definition proxied_backend_ok :: "backend \<Rightarrow> bool" where
  "proxied_backend_ok b \<longleftrightarrow> list_all target_ok (targets b) \<and> targets b \<noteq> [] \<and> length (targets b) < 2 ^ 64 \<and>
     length (schedule b) < 2 ^ 64 \<and> (schedule b = [] \<or> set (schedule b) = {..<length (targets b)})"

lemma first_target_in:
  assumes "proxied_backend_ok b"
  shows "fst (first_target b w) < length (targets b)"
proof -
  let ?next = "nextScheduledTargetIndex (length (targets b)) (schedule b)"
  have step: "fst (?next c) < length (targets b)" for c
    using assms by (intro nextScheduledTargetIndex_in) (auto simp: proxied_backend_ok_def)
  obtain i c where i: "?next (nextIndex w) = (i, c)" by fastforce
  have scan: "scan_healthy available ?next k c' s = (Some j, d, s') \<Longrightarrow> j < length (targets b)" for k c' s j d s'
    by (rule scan_healthy_in [where P = "\<lambda>j. j < length (targets b)", OF step])
  show ?thesis
    using i step [of "nextIndex w"] scan
    by (auto simp: first_target_def nextHealthyTargetIndex_def Let_def split: option.splits prod.splits)
qed

section \<open>What a proxy sends\<close>

text \<open>An outgoing request made from the client's for a target.\<close>

definition sent_to ::
  "url \<Rightarrow> (string, string) gomap \<Rightarrow> ip_prefix list \<Rightarrow> request \<Rightarrow> 'm request_scheme \<Rightarrow> 'n request_scheme \<Rightarrow> bool" where
  "sent_to t headers trust rin out0 out \<longleftrightarrow>
     Scheme (URL out) = Scheme t \<and> UHost (URL out) = UHost t \<and>
     (has_prefix (url_escaped_path (URL out0)) ''/'' \<longrightarrow>
        Path (URL out) = Path (URL out0) \<and> url_escaped_path (URL out) = url_escaped_path (URL out0)) \<and>
     RawQuery (URL out) = RawQuery (URL rin) \<and> ForceQuery (URL out) = ForceQuery (URL rin) \<and>
     Host out = (case map_of headers ''Host'' of Some h \<Rightarrow> h | None \<Rightarrow> Host rin) \<and>
     (\<forall>k. map_of (Header out) k =
        (if k = ''Host'' \<or> map_of headers k = None then map_of (setForwardedHeaders rin (Header out0) trust) k
         else map_option (\<lambda>v. [v]) (map_of headers k)))"

lemma rewriteProxyRequest_sent:
  assumes "target_ok t" and "resolved_ok headers"
  shows "sent_to t headers trust rin out (rewriteProxyRequest rin out t headers trust)"
proof -
  have h: "wf_gomap headers" "\<forall>(n, v) \<in> set headers. canonical_key n = n"
    using assms(2) by (auto simp: resolved_ok_def)
  note url = rewrite_request_url_target [OF assms(1), of "URL out"]
  show ?thesis
    unfolding sent_to_def rewriteProxyRequest_def set_request_headers_lookup [OF h] set_request_headers_host [OF h(1)]
    using url by (auto simp: url_escaped_path_def split: option.splits)
qed

lemma sent_to_fields [simp]:
  "sent_to t headers trust rin out0 (withBackendState out i retry) = sent_to t headers trust rin out0 out"
  "sent_to t headers trust rin out0 (out\<lparr>Body := b\<rparr>) = sent_to t headers trust rin out0 out"
  "retry_mark (withBackendState out i retry) = Some \<lparr>start_target = i, may_retry = retry\<rparr>"
  by (simp_all add: sent_to_def withBackendState_def)

lemma backend_rewrite_sent:
  assumes "proxied_backend_ok b" and "resolved_ok headers" and "backend_rewrite name b headers trust rin out s = (out', s')"
  shows "\<exists>i < length (targets b). sent_to (targets b ! i) headers trust rin out out' \<and>
    (\<forall>m. retry_mark out = None \<longrightarrow> retry_mark out' = Some m \<longrightarrow> start_target m = i) \<and> (\<forall>n. n \<noteq> name \<longrightarrow> s' n = s n)"
proof -
  obtain i w where f: "first_target b (s name) = (i, w)" by fastforce
  have i: "i < length (targets b)" using first_target_in [OF assms(1), of "s name"] f by simp
  then have "target_ok (targets b ! i)" using assms(1) by (simp add: proxied_backend_ok_def list_all_length)
  note sent = rewriteProxyRequest_sent [OF this assms(2), of trust rin out]
  define out1 where "out1 = rewriteProxyRequest rin out (targets b ! i) headers trust"
  have mark: "retry_mark out1 = retry_mark out" by (simp add: out1_def)
  define retry where "retry = retryableBackendRequest rin (retryMethods b) (retryBodyMax b)"
  define out2 where "out2 = (if retry \<and> retryBodyMax b > 0 \<and> has_body (Body rin) then out1\<lparr>Body := Body rin\<rparr> else out1)"
  have "(out', s') = (if retry \<or> health b \<noteq> None then withBackendState out2 i retry else out1, s(name := w))"
    using assms(3) unfolding backend_rewrite_def f Let_def prod.case out1_def [symmetric] retry_def [symmetric]
      out2_def [symmetric] by (rule sym)
  then have out: "s' = s(name := w)" "out' = (if retry \<or> health b \<noteq> None then withBackendState out2 i retry else out1)"
    by simp_all
  have "sent_to (targets b ! i) headers trust rin out out1" using sent by (simp only: out1_def)
  then have "sent_to (targets b ! i) headers trust rin out out'"
    by (simp add: out(2) out2_def)
  moreover have "retry_mark out = None \<Longrightarrow> retry_mark out' = Some m \<Longrightarrow> start_target m = i" for m
    using mark by (auto simp: out(2) split: if_splits)
  ultimately show ?thesis using i out(1) by (intro exI [of _ i]) simp
qed

lemma scheduled_rewrite_sent:
  assumes "proxied_backend_ok b" and "resolved_ok headers" and "scheduled_rewrite name b headers trust rin out s = (out', s')"
  shows "\<exists>i < length (targets b). sent_to (targets b ! i) headers trust rin out out' \<and>
    retry_mark out' = retry_mark out \<and> (\<forall>n. n \<noteq> name \<longrightarrow> s' n = s n)"
proof -
  obtain i c where f: "nextScheduledTargetIndex (length (targets b)) (schedule b) (nextIndex (s name)) = (i, c)" by fastforce
  have i: "i < length (targets b)"
    using nextScheduledTargetIndex_in [of "length (targets b)" "schedule b" "nextIndex (s name)"] assms(1) f
    by (auto simp: proxied_backend_ok_def)
  then have "target_ok (targets b ! i)" using assms(1) by (simp add: proxied_backend_ok_def list_all_length)
  from rewriteProxyRequest_sent [OF this assms(2), of trust rin out]
  show ?thesis using assms(3) f i by (intro exI [of _ i]) (auto simp: scheduled_rewrite_def)
qed

text \<open>The targets a selection stands for.\<close>

definition selection_targets :: "string \<Rightarrow> string \<Rightarrow> (string, ('x, 'k) built_backend) gomap \<Rightarrow> url set" where
  "selection_targets target name backends =
     (if target \<noteq> [] then {t. parseTarget target = Inr t}
      else case map_of backends name of Some b \<Rightarrow> set (targets (core b)) | None \<Rightarrow> {})"

lemma newProxyForSelection_rewrite:
  assumes "newProxyForSelection env target name timeout tls headers site rt trust backends cache = Inr (p, cache')"
    and "resolved_ok headers" and "\<And>b. map_of backends name = Some b \<Longrightarrow> proxied_backend_ok (core b)"
    and "Rewrite p rin out s = (out', s')"
  shows "\<exists>t \<in> selection_targets target name backends. sent_to t headers trust rin out out' \<and>
    (\<forall>n. n \<noteq> name \<longrightarrow> s' n = s n)"
proof (cases "target = []")
  case False
  then obtain t i where t: "parseTarget target = Inr t"
      "p = newReverseProxy (\<lambda>rin out s. (rewriteProxyRequest rin out t headers trust, s)) (DirectTransport i) site rt 0
         (directBodyTimeout timeout)"
    using assms(1) by (auto simp: newProxyForSelection_def newProxy_def rbind_Inr_iff require_def split: if_splits)
  have "sent_to t headers trust rin out (rewriteProxyRequest rin out t headers trust)"
    by (rule rewriteProxyRequest_sent [OF parseTarget_target_ok [OF t(1)] assms(2)])
  then show ?thesis using assms(4) t False by (auto simp: selection_targets_def newReverseProxy_def)
next
  case True
  then obtain b where b: "map_of backends name = Some b" "p = newBackendProxy name (core b) headers site rt trust"
    using assms(1) by (auto simp: newProxyForSelection_def rbind_Inr_iff require_def split: if_splits option.splits)
  note ok = assms(3) [OF b(1)]
  have "\<exists>i < length (targets (core b)). sent_to (targets (core b) ! i) headers trust rin out out' \<and> (\<forall>n. n \<noteq> name \<longrightarrow> s' n = s n)"
  proof (cases "tries (core b) = 1 \<and> health (core b) = None")
    case True
    then have "scheduled_rewrite name (core b) headers trust rin out s = (out', s')"
      using assms(4) by (simp add: b(2) newBackendProxy_def newReverseProxy_def)
    from scheduled_rewrite_sent [OF ok assms(2) this] show ?thesis by blast
  next
    case False
    then have "backend_rewrite name (core b) headers trust rin out s = (out', s')"
      using assms(4) by (simp only: b(2) newBackendProxy_def newReverseProxy_def Let_def if_False reverse_proxy.simps)
    from backend_rewrite_sent [OF ok assms(2) this] show ?thesis by blast
  qed
  then show ?thesis using True b(1) by (auto simp: selection_targets_def)
qed

section \<open>What becomes of a response\<close>

text \<open>What the guards of a response are read as, in the order of the code; a guard that is not set up
  reads as \<open>None\<close>. The readings 0 and 2 are the deadline's, 1 and 3 the new \<open>directBody\<close>'s.\<close>

definition guard_readings :: "int \<Rightarrow> int \<Rightarrow> modify_reads \<Rightarrow> proxied \<Rightarrow> ctx_error option list" where
  "guard_readings deadline bodyTimeout obs r =
     (let d = (\<lambda>late. if watches_deadline deadline r then deadline_read obs late else None);
          b = (\<lambda>late. if wraps_direct bodyTimeout r then direct_read obs late else None)
      in [d False, b False, d True, b True])"

text \<open>A proxy without a \<open>ModifyResponse\<close> passes every response as it is.\<close>

definition modified :: "('m, 's, 'o, 't) reverse_proxy \<Rightarrow> 'o \<Rightarrow> proxied \<Rightarrow> gerr option \<times> proxied" where
  "modified p obs r = (case ModifyResponse p of None \<Rightarrow> (None, r) | Some f \<Rightarrow> f obs r)"

lemma empty_policies:
  "emptyResponseHeaderPolicy site \<Longrightarrow> emptyResponseHeaderPolicy rt \<Longrightarrow>
     applyResponseHeaderPolicies trailer h site rt = h"
  by (simp add: emptyResponseHeaderPolicy_def applyResponseHeaderPolicies_def applyResponseHeaders_def)

lemma modified_newReverseProxy:
  "modified (newReverseProxy rewrite tr site rt deadline bodyTimeout) obs r =
     modifyProxyResponse site rt deadline bodyTimeout obs r"
proof (cases "deadline > 0 \<or> bodyTimeout > 0 \<or> \<not> emptyResponseHeaderPolicy site \<or> \<not> emptyResponseHeaderPolicy rt")
  case True
  then show ?thesis by (simp add: modified_def newReverseProxy_def)
next
  case False
  then have "\<not> watches_deadline deadline r" "\<not> wraps_direct bodyTimeout r"
    "applyResponseHeaderPolicies (PTrailer r) (PHeader r) site rt = PHeader r"
    by (auto simp: watches_deadline_def wraps_direct_def empty_policies)
  with False show ?thesis by (simp add: modified_def newReverseProxy_def modifyProxyResponse_def)
qed

text \<open>C39. What every proxy does to a response, also one that is built without a \<open>ModifyResponse\<close>: the
  response passes exactly when no guard is found ended, before or after the headers are changed; the
  retry deadline guards it when the body carries it, the body time-out only a final response with a body
  that is not an upgrade. A passed response has both header policies applied, the site's first, and its
  body wrapped once if the time-out guards it. Otherwise the first guard found ended decides: the error
  is the error of that context (so a deadline that expired is not reported as a cancellation, nor
  the other way round), the headers are changed if it was found ended only afterwards, and the
  body is closed, once, exactly when it is the new body that ended.
\<close>

theorem modifyProxyResponse_passes_iff:
  "let rs = guard_readings deadline bodyTimeout obs r;
       wrapped = (if wraps_direct bodyTimeout r then map_option directBody (PBody r) else PBody r);
       headers = applyResponseHeaderPolicies (PTrailer r) (PHeader r) site rt
   in case modified (newReverseProxy rewrite tr site rt deadline bodyTimeout) obs r of
        (None, r') \<Rightarrow> rs = [None, None, None, None] \<and> r' = r\<lparr>PBody := wrapped, PHeader := headers\<rparr>
      | (Some err, r') \<Rightarrow> (\<exists>k e. k < 4 \<and> rs ! k = Some e \<and> list_all (\<lambda>x. x = None) (take k rs) \<and>
          err = ctx_failure e \<and>
          r' = r\<lparr>PBody := (if k = 0 then PBody r else wrapped), PHeader := (if k < 2 then PHeader r else headers),
                 PCloses := PCloses r + k mod 2\<rparr>)"
proof -
  define d where "d = (\<lambda>late. if watches_deadline deadline r then deadline_read obs late else None)"
  define b where "b = (\<lambda>late. if wraps_direct bodyTimeout r then direct_read obs late else None)"
  define wrapped where "wrapped = (if wraps_direct bodyTimeout r then map_option directBody (PBody r) else PBody r)"
  define headers where "headers = applyResponseHeaderPolicies (PTrailer r) (PHeader r) site rt"
  have rs: "guard_readings deadline bodyTimeout obs r = [d False, b False, d True, b True]"
    by (simp add: guard_readings_def d_def b_def)
  have m: "modifyProxyResponse site rt deadline bodyTimeout obs r =
    (case d False of Some e \<Rightarrow> (Some (ctx_failure e), r) | None \<Rightarrow>
     case b False of Some e \<Rightarrow> (Some (ctx_failure e), r\<lparr>PBody := wrapped, PCloses := PCloses r + 1\<rparr>) | None \<Rightarrow>
     case d True of Some e \<Rightarrow> (Some (ctx_failure e), r\<lparr>PBody := wrapped, PHeader := headers\<rparr>) | None \<Rightarrow>
     case b True of Some e \<Rightarrow>
       (Some (ctx_failure e), r\<lparr>PBody := wrapped, PHeader := headers, PCloses := PCloses r + 1\<rparr>) | None \<Rightarrow>
     (None, r\<lparr>PBody := wrapped, PHeader := headers\<rparr>))"
    by (auto simp: modifyProxyResponse_def Let_def d_def b_def wrapped_def headers_def split: option.splits)
  have at: "[d False, b False, d True, b True] ! 0 = d False" "[d False, b False, d True, b True] ! 1 = b False"
    "[d False, b False, d True, b True] ! 2 = d True" "[d False, b False, d True, b True] ! 3 = b True"
    by (simp_all add: numeral_2_eq_2 numeral_3_eq_3)
  consider e where "d False = Some e" | e where "d False = None" "b False = Some e"
    | e where "d False = None" "b False = None" "d True = Some e"
    | e where "d False = None" "b False = None" "d True = None" "b True = Some e"
    | "d False = None" "b False = None" "d True = None" "b True = None"
    by (cases "d False"; cases "b False"; cases "d True"; cases "b True"; simp)
  note guard = this
  note eqs = Let_def modified_newReverseProxy m rs wrapped_def [symmetric] headers_def [symmetric]
  from guard show ?thesis
  proof cases
    case (1 e)
    then show ?thesis unfolding eqs using at
      by (simp only: option.case prod.case, intro exI [of _ "0"] exI [of _ e]) simp
  next
    case (2 e)
    then show ?thesis unfolding eqs using at
      by (simp only: option.case prod.case, intro exI [of _ "1"] exI [of _ e]) simp
  next
    case (3 e)
    then show ?thesis unfolding eqs using at
      by (simp only: option.case prod.case, intro exI [of _ "2"] exI [of _ e]) simp
  next
    case (4 e)
    then show ?thesis unfolding eqs using at
      by (simp only: option.case prod.case, intro exI [of _ "3"] exI [of _ e]) simp
  next
    case 5
    then show ?thesis unfolding eqs by simp
  qed
qed

end
