(* ===== verification/NewRouter.thy ===== *)
theory NewRouter
  imports Proxying Accepted Serve Runtime
begin

text \<open>
  The construction of a router from a checked configuration (\<open>src/router.go\<close>): \<open>newBackends\<close>, \<open>newSite\<close> and
  \<open>newRouter\<close>, with the proxies, the route indexes and the host index they leave behind.
\<close>

section \<open>Backends\<close>

text \<open>A failed construction also says what it closed. \<open>cfgs\<close> is the map in the order of its iteration.\<close>

type_synonym 'a built = "gerr \<times> close_event list + 'a"

definition on_failure :: "close_event list \<Rightarrow> 'a res \<Rightarrow> 'a built" where
  "on_failure closing r = (case r of Inl e \<Rightarrow> Inl (e, closing) | Inr a \<Rightarrow> Inr a)"

fun new_backends_from ::
  "('x, 'k) crypto \<Rightarrow> (string, ('x, 'k) backendConfig) gomap \<Rightarrow> (string, ('x, 'k) built_backend) gomap \<Rightarrow>
   (string, ('x, 'k) built_backend) gomap built" where
  "new_backends_from env [] bs = Inr bs"
| "new_backends_from env ((name, cfg) # cfgs) bs =
     (if name = [] then Inl (Err ''backend name must not be empty'' [], [])
      else rbind (on_failure [CloseBackends] (wrap_err ''backends[%q]: %w'' [S name] (newBackend env cfg))) (\<lambda>b.
        new_backends_from env cfgs (go_put name b bs)))"

definition newBackends ::
  "('x, 'k) crypto \<Rightarrow> (string, ('x, 'k) backendConfig) gomap \<Rightarrow> (string, ('x, 'k) built_backend) gomap built" where
  "newBackends env configs = (if length configs = 0 then Inr [] else new_backends_from env configs [])"

section \<open>Sites\<close>

text \<open>Where a TLS block was decoded: in a site or in a route of a site.\<close>

datatype tls_place = SiteTLS nat | RouteTLS nat nat

definition tls_block :: "tls_place \<Rightarrow> ('x, 'k) upstreamTLSConfig option \<Rightarrow> (tls_place, 'x, 'k) tls_object option" where
  "tls_block place t = map_option (\<lambda>d. \<lparr>tls_at = Decoded place, tls_data = d\<rparr>) t"

text \<open>What every proxy of a router is made with, and what a site adds.\<close>

record ('x, 'k) build_env =
  crypto_env :: "('x, 'k) crypto"
  lookup_env :: "string \<Rightarrow> string option"
  built_backends :: "(string, ('x, 'k) built_backend) gomap"
  trusted :: "ip_prefix list"

type_synonym built_route = "(proxy, generatedResponse) route"
type_synonym built_site = "(proxy, generatedResponse) site"
type_synonym ('x, 'k) transport_cache = "(tls_place, 'x, 'k) directTransportCache"

definition rewriting_paths :: "pathPattern \<Rightarrow> pathPattern \<Rightarrow> proxy \<Rightarrow> proxy" where
  "rewriting_paths source destination p =
     p\<lparr>Rewrite := \<lambda>rin out s. (case Rewrite p rin out s of
        (out', s') \<Rightarrow> (out'\<lparr>URL := rewriteProxyPath (URL out') (URL rin) source destination\<rparr>, s'))\<rparr>"

text \<open>The upstream of a route: its own, or that of the site with the site's time-out and TLS block.\<close>

definition route_upstream ::
  "nat \<Rightarrow> nat \<Rightarrow> ('x, 'k) siteConfig \<Rightarrow> ('x, 'k) routeConfig \<Rightarrow>
   string \<times> string \<times> directTimeout option \<times> (tls_place, 'x, 'k) tls_object option" where
  "route_upstream i j cfg rc =
     (let own = (RTarget rc \<noteq> [] \<or> RBackend rc \<noteq> []);
          (target, backendName) = (if own then (RTarget rc, RBackend rc) else (Target cfg, SBackend cfg));
          inherits = (RTarget rc = [] \<and> RBackend rc = [] \<and> target \<noteq> [])
      in (target, backendName,
          if RTimeout rc = None \<and> inherits then STimeout cfg else RTimeout rc,
          if RTLS rc = None \<and> inherits then tls_block (SiteTLS i) (STLS cfg) else tls_block (RouteTLS i j) (RTLS rc)))"

definition respond_route ::
  "nat \<Rightarrow> pathPattern \<Rightarrow> routeMatchConfig \<Rightarrow> responseHeaderPolicy \<Rightarrow> ('x, 'k) routeConfig \<Rightarrow> generatedResponse \<Rightarrow> built_route res" where
  "respond_route j pattern match siteResponse rc g =
     rbind (wrap_err ''routes[%d].respond: %w'' [N (int j)] (validateGeneratedResponse g)) (\<lambda>_.
     require (RTarget rc \<noteq> [] \<or> RBackend rc \<noteq> [] \<or> RTimeout rc \<noteq> None \<or> RTLS rc \<noteq> None \<or> length (RHeaders rc) > 0 \<or>
         \<not> emptyResponseHeaderPolicy (RResponse rc) \<or> Rewrite_to rc \<noteq> [] \<or> Strip rc)
       ''routes[%d].respond cannot be combined with upstream, headers, response, or rewrite fields'' [N (int j)]
     (Inr \<lparr>rpattern = pattern, methods = RMethods rc, rmatch = compileRouteMatch match, proxy = None,
           respond = Some (g\<lparr>Prepared := prepareGeneratedResponseHeaders siteResponse (GHeaders g)\<rparr>), strip = False\<rparr>))"

definition build_route ::
  "('x, 'k) build_env \<Rightarrow> nat \<Rightarrow> nat \<Rightarrow> ('x, 'k) siteConfig \<Rightarrow> (string, string) gomap \<Rightarrow> responseHeaderPolicy \<Rightarrow>
   ('x, 'k) routeConfig \<Rightarrow> ('x, 'k) transport_cache \<Rightarrow> (built_route \<times> ('x, 'k) transport_cache) res" where
  "build_route env i j cfg siteHeaders siteResponse rc cache =
     rbind (wrap_err ''routes[%d].path: %w'' [N (int j)] (newPathPattern (RPathText rc))) (\<lambda>pattern.
     rbind (if Rewrite_to rc \<noteq> []
            then rbind (wrap_err ''routes[%d].rewrite: %w'' [N (int j)] (newPathPattern (Rewrite_to rc))) (\<lambda>c. Inr (Some c))
            else Inr None) (\<lambda>rewrite.
     rbind (if RMethods rc \<noteq> [] then wrap_err ''routes[%d].methods: %w'' [N (int j)] (validateMethods (RMethods rc))
            else Inr ()) (\<lambda>_.
     rbind (wrap_err ''routes[%d].match: %w'' [N (int j)] (resolveRouteMatch (RMatch rc))) (\<lambda>match.
     rbind (wrap_err ''routes[%d].headers: %w'' [N (int j)] (resolveHeaders (lookup_env env) (RHeaders rc))) (\<lambda>routeHeaders.
     rbind (wrap_err ''routes[%d].response: %w'' [N (int j)] (resolveResponseHeaders (lookup_env env) (RResponse rc)))
       (\<lambda>routeResponse.
     case RRespond rc of
       Some g \<Rightarrow> rbind (respond_route j pattern match siteResponse rc g) (\<lambda>r. Inr (r, cache))
     | None \<Rightarrow>
         (case route_upstream i j cfg rc of (target, backendName, timeout, tls) \<Rightarrow>
          rbind (wrap_err ''routes[%d]: %w'' [N (int j)]
                   (newProxyForSelection (crypto_env env) target backendName timeout tls (mergeHeaders siteHeaders routeHeaders)
                      siteResponse routeResponse (trusted env) (built_backends env) cache)) (\<lambda>(p, cache').
            Inr (\<lparr>rpattern = pattern, methods = RMethods rc, rmatch = compileRouteMatch match,
                  proxy = Some (case rewrite of None \<Rightarrow> p | Some d \<Rightarrow> rewriting_paths pattern d p),
                  respond = None, strip = Strip rc\<rparr>, cache')))))))))"

fun build_routes ::
  "('x, 'k) build_env \<Rightarrow> nat \<Rightarrow> nat \<Rightarrow> ('x, 'k) siteConfig \<Rightarrow> (string, string) gomap \<Rightarrow> responseHeaderPolicy \<Rightarrow>
   ('x, 'k) routeConfig list \<Rightarrow> ('x, 'k) transport_cache \<Rightarrow> (built_route list \<times> ('x, 'k) transport_cache) res" where
  "build_routes env i j cfg siteHeaders siteResponse [] cache = Inr ([], cache)"
| "build_routes env i j cfg siteHeaders siteResponse (rc # rcs) cache =
     rbind (build_route env i j cfg siteHeaders siteResponse rc cache) (\<lambda>(r, c1).
     rbind (build_routes env i (Suc j) cfg siteHeaders siteResponse rcs c1) (\<lambda>(rs, c2). Inr (r # rs, c2)))"

definition empty_policy :: responseHeaderPolicy where
  "empty_policy = \<lparr>Set = [], Add = [], Remove = []\<rparr>"

definition newSite ::
  "('x, 'k) build_env \<Rightarrow> nat \<Rightarrow> ('x, 'k) siteConfig \<Rightarrow> ('x, 'k) transport_cache \<Rightarrow> (built_site \<times> ('x, 'k) transport_cache) res" where
  "newSite env i cfg cache =
     require (length (Hosts cfg) = 0) ''hosts must not be empty'' []
     (rbind (wrap_err ''hosts: %w'' [] (newHostPatterns 0 (Hosts cfg))) (\<lambda>hs.
      rbind (wrap_err ''headers: %w'' [] (resolveHeaders (lookup_env env) (SHeaders cfg))) (\<lambda>siteHeaders.
      rbind (wrap_err ''response: %w'' [] (resolveResponseHeaders (lookup_env env) (SResponse cfg))) (\<lambda>siteResponse.
      rbind (newProxyForSelection (crypto_env env) (Target cfg) (SBackend cfg) (STimeout cfg) (tls_block (SiteTLS i) (STLS cfg))
               siteHeaders siteResponse empty_policy (trusted env) (built_backends env) cache) (\<lambda>(p, c1).
      rbind (build_routes env i 0 cfg siteHeaders siteResponse (Routes cfg) c1) (\<lambda>(rs, c2).
        let s = \<lparr>hosts = hs, siteProxy = Some p, routes = rs, siteTrust = trusted env, exactRoutes = None,
                 wildcardRoutes = Map.empty\<rparr>
        in Inr (if length rs > routeIndexThreshold then buildRouteIndex s else s, c2)))))))"

section \<open>The router\<close>

definition with_request_ids :: "bool \<Rightarrow> built_site \<Rightarrow> built_site" where
  "with_request_ids on s =
     (if on then s\<lparr>siteProxy := map_option enableRequestIDProxy (siteProxy s),
                   routes := map (\<lambda>r. r\<lparr>proxy := map_option enableRequestIDProxy (proxy r)\<rparr>) (routes s)\<rparr>
      else s)"

fun build_sites ::
  "('x, 'k) build_env \<Rightarrow> bool \<Rightarrow> nat \<Rightarrow> ('x, 'k) siteConfig list \<Rightarrow> ('x, 'k) transport_cache \<Rightarrow>
   (built_site list \<times> ('x, 'k) transport_cache) built" where
  "build_sites env ids i [] cache = Inr ([], cache)"
| "build_sites env ids i (cfg # cfgs) cache =
     rbind (on_failure [CloseDirect, CloseBackends] (wrap_err ''sites[%d]: %w'' [N (int i)] (newSite env i cfg cache)))
       (\<lambda>(s, c1). rbind (build_sites env ids (Suc i) cfgs c1) (\<lambda>(ss, c2). Inr (with_request_ids ids s # ss, c2)))"

record ('x, 'k) built_router =
  serving :: "proxy router"
  limit_of :: "limit_config option"
  router_backends :: "(string, ('x, 'k) built_backend) gomap"
  directTransports :: "('x, 'k) transport list"
  probing :: "string list"

text \<open>\<open>probing\<close> are the backends whose \<open>startProbe\<close> starts a loop.\<close>

definition newRouter ::
  "('x, 'k) crypto \<Rightarrow> (string \<Rightarrow> string option) \<Rightarrow> ('x, 'k) config \<Rightarrow> ('x, 'k) built_router built" where
  "newRouter env lookup cfg =
     (if length (Sites cfg) = 0 then Inl (Err ''sites must define at least one site'' [], [])
      else
        rbind (on_failure [] (wrap_err ''trustProxies: %w'' [] (parseTrustedProxies (TrustProxies cfg)))) (\<lambda>trust.
        rbind (newBackends env (Backends cfg)) (\<lambda>backends.
        rbind (build_sites \<lparr>crypto_env = env, lookup_env = lookup, built_backends = backends, trusted = trust\<rparr>
                 (IDs cfg) 0 (Sites cfg) newDirectTransportCache) (\<lambda>(ss, cache).
          Inr \<lparr>serving = \<lparr>access_log = Log cfg, requestID = IDs cfg, limited = (Limit cfg \<noteq> None), sites = ss,
                          host_index = buildHostIndex (map hosts ss)\<rparr>,
               limit_of = Limit cfg, router_backends = backends, directTransports = all_transports cache,
               probing = map fst (filter (\<lambda>(_, b). probe b \<noteq> None) backends)\<rparr>))))"

section \<open>What a built backend consists of\<close>

lemma on_failure_Inr [simp]: "on_failure closing r = Inr a \<longleftrightarrow> r = Inr a"
  by (cases r) (auto simp: on_failure_def)

lemma weights_schedule_short: "validateTargetWeights ws n = Inr () \<Longrightarrow> length (buildTargetSchedule ws) < 2 ^ 64"
  using schedule_spec(1) [of ws n] validateTargetWeights_iff [of ws n] by (auto simp: maxTargetWeightTotal_def)

lemma newBackend_parts:
  assumes "newBackend env cfg = Inr b"
  shows "parse_targets 0 [] (Targets cfg) = Inr (targets (core b)) \<and> Targets cfg \<noteq> [] \<and>
    length (schedule (core b)) < 2 ^ 64 \<and> (schedule (core b) = [] \<or> set (schedule (core b)) = {..<length (targets (core b))})"
proof -
  obtain n st ms mx bd ts sched tls where b: "b = assemble_backend cfg n (st, ms, mx, bd) ts sched tls"
      and ts: "parse_targets 0 [] (Targets cfg) = Inr ts" "Targets cfg \<noteq> []"
      and sched: "(case Weights cfg of None \<Rightarrow> Inr []
        | Some ws \<Rightarrow> rbind (wrap_err ''weights: %w'' [] (validateTargetWeights ws (length ts))) (\<lambda>_. Inr (buildTargetSchedule ws)))
        = Inr sched"
    using assms unfolding newBackend_def Let_def by (auto simp: require_def rbind_Inr_iff split: if_splits)
  have "length sched < 2 ^ 64 \<and> (sched = [] \<or> set sched = {..<length ts})"
  proof (cases "Weights cfg")
    case (Some ws)
    then have "validateTargetWeights ws (length ts) = Inr ()" "sched = buildTargetSchedule ws"
      using sched by (auto simp: rbind_Inr_iff)
    then show ?thesis using weights_schedule_short schedule_set by blast
  qed (use sched in simp)
  then show ?thesis using b ts by simp
qed

text \<open>The targets a configuration names.\<close>

definition configured_targets :: "('x, 'k) config \<Rightarrow> string set" where
  "configured_targets cfg =
     (\<Union>s \<in> set (Sites cfg). insert (Target s) (RTarget ` set (Routes s))) \<union> (\<Union>b \<in> snd ` set (Backends cfg). set (Targets b))"

definition target_urls :: "string set \<Rightarrow> url set" where
  "target_urls raws = {t. \<exists>raw \<in> raws. parseTarget raw = Inr t}"

lemma parse_targets_urls: "parse_targets i seen rs = Inr ts \<Longrightarrow> set ts \<subseteq> target_urls (set rs)"
  by (induction i seen rs arbitrary: ts rule: parse_targets.induct)
     (fastforce simp: rbind_Inr_iff target_urls_def split: if_splits)+

definition backends_ok :: "string set \<Rightarrow> (string, ('x, 'k) built_backend) gomap \<Rightarrow> bool" where
  "backends_ok raws bs \<longleftrightarrow> (\<forall>(n, b) \<in> set bs. set (targets (core b)) \<subseteq> target_urls raws \<and> proxied_backend_ok (core b))"

lemma newBackend_ok:
  assumes "newBackend env cfg = Inr b" and "set (Targets cfg) \<subseteq> raws" and "length (Targets cfg) < 2 ^ 64"
  shows "set (targets (core b)) \<subseteq> target_urls raws \<and> proxied_backend_ok (core b)"
proof -
  note p = newBackend_parts [OF assms(1)]
  then have ts: "parse_targets 0 [] (Targets cfg) = Inr (targets (core b))" by blast
  have "set (targets (core b)) \<subseteq> target_urls (set (Targets cfg))" by (rule parse_targets_urls [OF ts])
  also have "\<dots> \<subseteq> target_urls raws" using assms(2) by (auto simp: target_urls_def)
  finally show ?thesis
    using p parse_targets_ok [OF ts] parse_targets_length [OF ts] assms(3)
    by (auto simp: proxied_backend_ok_def)
qed

lemma new_backends_from_ok:
  assumes "new_backends_from env cfgs bs = Inr bs'" and "backends_ok raws bs"
    and "\<forall>c \<in> snd ` set cfgs. set (Targets c) \<subseteq> raws \<and> length (Targets c) < 2 ^ 64"
  shows "backends_ok raws bs'"
  using assms
proof (induction env cfgs bs rule: new_backends_from.induct)
  case (2 env name cfg cfgs bs)
  obtain b where b: "newBackend env cfg = Inr b" "new_backends_from env cfgs (go_put name b bs) = Inr bs'"
    using "2.prems"(1) by (auto simp: rbind_Inr_iff split: if_splits)
  have "set (targets (core b)) \<subseteq> target_urls raws \<and> proxied_backend_ok (core b)"
    using newBackend_ok [OF b(1)] "2.prems"(3) by auto
  then have "backends_ok raws (go_put name b bs)"
    using "2.prems"(2) go_put_set [of name b bs] by (fastforce simp: backends_ok_def)
  moreover have "name \<noteq> []" using "2.prems"(1) by auto
  ultimately show ?case using "2.IH" b "2.prems"(3) by auto
qed simp

section \<open>What a built proxy does\<close>

text \<open>A proxy sends every request to one of the URLs \<open>ts\<close>, with the client's query.\<close>

definition proxy_ok :: "url set \<Rightarrow> proxy \<Rightarrow> bool" where
  "proxy_ok ts p \<longleftrightarrow> (\<forall>rin out s out' s'. Rewrite p rin out s = (out', s') \<longrightarrow>
     (\<exists>t \<in> ts. Scheme (URL out') = Scheme t \<and> UHost (URL out') = UHost t \<and> RawQuery (URL out') = RawQuery (URL rin)))"

lemma proxy_ok_paths: "proxy_ok ts p \<Longrightarrow> proxy_ok ts (rewriting_paths source destination p)"
  by (fastforce simp: proxy_ok_def rewriting_paths_def rewriteProxyPath_def Let_def split: prod.splits)

lemma proxy_ok_id: "proxy_ok ts p \<Longrightarrow> proxy_ok ts (enableRequestIDProxy p)"
  by (fastforce simp: proxy_ok_def enableRequestIDProxy_def id_rewrite_def Let_def split: prod.splits if_splits)

lemma resolveHeaders_ok: "resolveHeaders env raw = Inr h \<Longrightarrow> resolved_ok h"
  using resolve_headers_from_ok [of env "[]" raw h] by (auto simp: resolveHeaders_def resolved_ok_def split: if_splits)

lemma put_all_ok: "resolved_ok h \<Longrightarrow> resolved_ok m \<Longrightarrow> resolved_ok (put_all h m)"
proof (induction h m rule: put_all.induct)
  case (2 h name v m)
  have "validHeaderName name \<and> canonical_key name = name \<and> \<not> restrictedHeader name \<and> validHeaderValue v" "resolved_ok m"
    using "2.prems"(2) by (auto simp: resolved_ok_def wf_gomap_def)
  then show ?case using "2.IH" resolved_ok_put [OF "2.prems"(1)] by simp
qed simp

lemma mergeHeaders_ok: "resolved_ok a \<Longrightarrow> resolved_ok b \<Longrightarrow> resolved_ok (mergeHeaders a b)"
  using put_all_ok [of "[]" a] put_all_ok [of "put_all [] a" b] by (auto simp: mergeHeaders_def resolved_ok_def)

lemma selection_ok:
  assumes "newProxyForSelection env target name timeout tls headers site rt trust backends cache = Inr (p, cache')"
    and "resolved_ok headers" and "backends_ok raws backends" and "target = [] \<or> target \<in> raws"
  shows "proxy_ok (target_urls raws) p"
  unfolding proxy_ok_def
proof (intro allI impI)
  fix rin out s out' s'
  assume r: "Rewrite p rin out s = (out', s')"
  have b: "(name, b) \<in> set backends" if "map_of backends name = Some b" for b using that by (rule map_of_SomeD)
  have ok: "proxied_backend_ok (core b)" if "map_of backends name = Some b" for b
    using assms(3) b [OF that] by (auto simp: backends_ok_def)
  obtain t where t: "t \<in> selection_targets target name backends" "sent_to t headers trust rin out out'"
    using newProxyForSelection_rewrite [OF assms(1,2) ok r] by blast
  have "t \<in> target_urls raws"
    using t(1) assms(3,4) b
    by (auto simp: selection_targets_def backends_ok_def target_urls_def split: if_splits option.splits)
  then show "\<exists>t \<in> target_urls raws. Scheme (URL out') = Scheme t \<and> UHost (URL out') = UHost t \<and>
      RawQuery (URL out') = RawQuery (URL rin)"
    using t(2) by (auto simp: sent_to_def)
qed

text \<open>A route of a built site has a proxy of that kind or answers by itself.\<close>

definition route_built :: "url set \<Rightarrow> built_route \<Rightarrow> bool" where
  "route_built ts r \<longleftrightarrow> (case proxy r of Some p \<Rightarrow> proxy_ok ts p | None \<Rightarrow> respond r \<noteq> None)"

definition site_built :: "url set \<Rightarrow> built_site \<Rightarrow> bool" where
  "site_built ts s \<longleftrightarrow> (\<forall>h \<in> set (hosts s). wf_host h) \<and> site_ok s \<and> list_all (route_built ts) (routes s) \<and>
     (\<exists>p. siteProxy s = Some p \<and> proxy_ok ts p)"

lemma build_route_ok:
  assumes "build_route env i j cfg sh sr rc cache = Inr (r, cache')" and "resolved_ok sh"
    and "backends_ok raws (built_backends env)" and "Target cfg = [] \<or> Target cfg \<in> raws" and "RTarget rc = [] \<or> RTarget rc \<in> raws"
  shows "route_built (target_urls raws) r"
proof (cases "RRespond rc")
  case None
  obtain target name timeout tls where up: "route_upstream i j cfg rc = (target, name, timeout, tls)"
    by (metis prod_cases4)
  obtain rh rr p c' d pattern where parts: "resolveHeaders (lookup_env env) (RHeaders rc) = Inr rh"
      "newProxyForSelection (crypto_env env) target name timeout tls (mergeHeaders sh rh) sr rr (trusted env)
         (built_backends env) cache = Inr (p, c')"
      "proxy r = Some (case d of None \<Rightarrow> p | Some x \<Rightarrow> rewriting_paths pattern x p)"
    using assms(1) None up unfolding build_route_def by (auto simp: rbind_Inr_iff)
  have "target = [] \<or> target \<in> raws" using assms(4,5) up by (auto simp: route_upstream_def Let_def split: if_splits)
  then have "proxy_ok (target_urls raws) p"
    by (rule selection_ok [OF parts(2) mergeHeaders_ok [OF assms(2) resolveHeaders_ok [OF parts(1)]] assms(3)])
  then show ?thesis using proxy_ok_paths parts(3) by (auto simp: route_built_def split: option.splits)
next
  case (Some g)
  then have "proxy r = None \<and> respond r \<noteq> None"
    using assms(1) unfolding build_route_def by (auto simp: rbind_Inr_iff respond_route_def require_def split: if_splits)
  then show ?thesis by (simp add: route_built_def)
qed

lemma build_routes_ok:
  assumes "build_routes env i j cfg sh sr rcs cache = Inr (rs, cache')" and "resolved_ok sh"
    and "backends_ok raws (built_backends env)" and "Target cfg = [] \<or> Target cfg \<in> raws"
    and "\<forall>rc \<in> set rcs. RTarget rc = [] \<or> RTarget rc \<in> raws"
  shows "list_all (route_built (target_urls raws)) rs"
  using assms(1,5)
proof (induction rcs arbitrary: j cache rs)
  case (Cons rc rcs)
  obtain r c1 rs' where "build_route env i j cfg sh sr rc cache = Inr (r, c1)"
      "build_routes env i (Suc j) cfg sh sr rcs c1 = Inr (rs', cache')" "rs = r # rs'"
    using Cons.prems(1) by (auto simp: rbind_Inr_iff)
  then show ?case using Cons.IH Cons.prems(2) build_route_ok [OF _ assms(2,3,4)] by auto
qed simp

lemma index_route_site [simp]: "hosts (index_route s i) = hosts s" "siteProxy (index_route s i) = siteProxy s"
  by (simp_all add: index_route_def Let_def)

lemma index_routes_site:
  "hosts (foldl index_route s is) = hosts s" "siteProxy (foldl index_route s is) = siteProxy s"
  by (induction "is" arbitrary: s) auto

lemma buildRouteIndex_site [simp]: "hosts (buildRouteIndex s) = hosts s" "siteProxy (buildRouteIndex s) = siteProxy s"
  by (simp_all add: buildRouteIndex_def index_routes_site)

lemma newSite_ok:
  assumes "newSite env i cfg cache = Inr (s, cache')" and "backends_ok raws (built_backends env)"
    and "Target cfg = [] \<or> Target cfg \<in> raws" and "\<forall>rc \<in> set (Routes cfg). RTarget rc = [] \<or> RTarget rc \<in> raws"
  shows "site_built (target_urls raws) s"
proof -
  obtain hs sh sr p c1 rs where parts: "newHostPatterns 0 (Hosts cfg) = Inr hs" "resolveHeaders (lookup_env env) (SHeaders cfg) = Inr sh"
      "newProxyForSelection (crypto_env env) (Target cfg) (SBackend cfg) (STimeout cfg) (tls_block (SiteTLS i) (STLS cfg))
               sh sr empty_policy (trusted env) (built_backends env) cache = Inr (p, c1)"
      "build_routes env i 0 cfg sh sr (Routes cfg) c1 = Inr (rs, cache')"
      "s = (let s = \<lparr>hosts = hs, siteProxy = Some p, routes = rs, siteTrust = trusted env, exactRoutes = None,
                 wildcardRoutes = Map.empty\<rparr>
        in if length rs > routeIndexThreshold then buildRouteIndex s else s)"
    using assms(1) unfolding newSite_def by (auto simp: rbind_Inr_iff require_def Let_def split: if_splits)
  note headers = resolveHeaders_ok [OF parts(2)]
  have "proxy_ok (target_urls raws) p" by (rule selection_ok [OF parts(3) headers assms(2,3)])
  moreover have "list_all (route_built (target_urls raws)) rs"
    by (rule build_routes_ok [OF parts(4) headers assms(2,3,4)])
  moreover have "\<forall>h \<in> set hs. wf_host h" by (rule newHostPatterns_wf [OF parts(1)])
  moreover define s0 where "s0 = \<lparr>hosts = hs, siteProxy = Some p, routes = rs, siteTrust = trusted env, exactRoutes = None,
      wildcardRoutes = Map.empty\<rparr>"
  have "s = (if length rs > routeIndexThreshold then buildRouteIndex s0 else s0)" using parts(5) by (simp add: s0_def Let_def)
  moreover have "site_ok s0" "site_ok (buildRouteIndex s0)"
    using buildRouteIndex_ok [of s0] by (simp_all add: site_ok_def s0_def)
  ultimately show ?thesis by (auto simp: site_built_def s0_def)
qed

lemma with_request_ids_ok:
  assumes "site_built ts s"
  shows "site_built ts (with_request_ids ids s)"
proof (cases ids)
  case True
  let ?s = "with_request_ids True s"
  have "filed ?s w k = filed s w k" for w k
    by (auto simp: filed_def with_request_ids_def)
  then have "site_ok ?s" using assms by (auto simp: site_built_def site_ok_def index_ok_def with_request_ids_def)
  moreover have "list_all (route_built ts) (routes ?s)"
    using assms proxy_ok_id
    by (auto simp: site_built_def list_all_iff route_built_def with_request_ids_def split: option.splits)
  ultimately show ?thesis
    using assms proxy_ok_id True by (auto simp: site_built_def with_request_ids_def)
qed (use assms in \<open>simp add: with_request_ids_def\<close>)

lemma build_sites_ok:
  assumes "build_sites env ids i cfgs cache = Inr (ss, cache')" and "backends_ok raws (built_backends env)"
    and "\<forall>cfg \<in> set cfgs. (Target cfg = [] \<or> Target cfg \<in> raws) \<and> (\<forall>rc \<in> set (Routes cfg). RTarget rc = [] \<or> RTarget rc \<in> raws)"
  shows "list_all (site_built (target_urls raws)) ss"
  using assms(1,3)
proof (induction cfgs arbitrary: i cache ss)
  case (Cons cfg cfgs)
  obtain s c1 ss' where "newSite env i cfg cache = Inr (s, c1)"
      "build_sites env ids (Suc i) cfgs c1 = Inr (ss', cache')" "ss = with_request_ids ids s # ss'"
    using Cons.prems(1) by (auto simp: rbind_Inr_iff)
  then show ?case using Cons.IH Cons.prems(2) newSite_ok [OF _ assms(2)] with_request_ids_ok by auto
qed simp

text \<open>Configurations have fewer targets per backend than a 64-bit counter counts.\<close>

definition countable_targets :: "('x, 'k) config \<Rightarrow> bool" where
  "countable_targets cfg \<longleftrightarrow> (\<forall>b \<in> snd ` set (Backends cfg). length (Targets b) < 2 ^ 64)"

lemma newRouter_built:
  assumes "newRouter env lookup cfg = Inr r" and "countable_targets cfg"
  shows "list_all (site_built (target_urls (configured_targets cfg))) (sites (serving r)) \<and>
    host_index (serving r) = buildHostIndex (map hosts (sites (serving r))) \<and>
    backends_ok (configured_targets cfg) (router_backends r)"
proof -
  obtain trust bs ss cache where parts: "newBackends env (Backends cfg) = Inr bs"
      "build_sites \<lparr>crypto_env = env, lookup_env = lookup, built_backends = bs, trusted = trust\<rparr> (IDs cfg) 0 (Sites cfg)
         newDirectTransportCache = Inr (ss, cache)"
      "sites (serving r) = ss" "host_index (serving r) = buildHostIndex (map hosts ss)" "router_backends r = bs"
    using assms(1) unfolding newRouter_def by (auto simp: rbind_Inr_iff split: if_splits)
  have "backends_ok (configured_targets cfg) []" by (simp add: backends_ok_def)
  moreover have "\<forall>c \<in> snd ` set (Backends cfg). set (Targets c) \<subseteq> configured_targets cfg \<and> length (Targets c) < 2 ^ 64"
    using assms(2) by (auto simp: configured_targets_def countable_targets_def)
  ultimately have "backends_ok (configured_targets cfg) bs"
    using new_backends_from_ok [of env "Backends cfg" "[]" bs] parts(1) by (auto simp: newBackends_def split: if_splits)
  moreover from this have "list_all (site_built (target_urls (configured_targets cfg))) ss"
    by (intro build_sites_ok [OF parts(2)]) (auto simp: configured_targets_def)
  ultimately show ?thesis using parts(3-5) by simp
qed

section \<open>Routing in a built router\<close>

lemma selected_route:
  assumes "site_built ts s" and "selectRoute s req = Some c"
  shows "is_best s (eligible s req) (Some c)" and "route_built ts (candRoute c)"
proof -
  have "site_ok s" using assms(1) by (simp add: site_built_def)
  from selectRoute_best [OF this, of req] show best: "is_best s (eligible s req) (Some c)" by (simp add: assms(2))
  then obtain j where "j < length (routes s)" "candRoute c = routes s ! j"
    by (auto simp: is_best_def eligible_def matching_def routeCandidate_def Let_def)
  then show "route_built ts (candRoute c)" using assms(1) by (simp add: site_built_def list_all_length)
qed

lemma no_selected_route:
  assumes "site_built ts s" and "selectRoute s req = None"
  shows "eligible s req = {}"
  using assms selectRoute_best [of s req] by (simp add: site_built_def is_best_def)

text \<open>The site selected for a request, with what is known of it.\<close>

lemma selected_site:
  assumes "newRouter env lookup cfg = Inr r" and "countable_targets cfg"
    and "selectSite (map hosts (sites (serving r))) (buildHostIndex (map hosts (sites (serving r)))) host = Some i"
  shows "best_site host (map hosts (sites (serving r))) i" and "site_built (target_urls (configured_targets cfg)) (sites (serving r) ! i)"
proof -
  note built = newRouter_built [OF assms(1,2)]
  then have "\<forall>hs \<in> set (map hosts (sites (serving r))). \<forall>h \<in> set hs. wf_host h" by (auto simp: list_all_iff site_built_def)
  from selectSite_best [OF this assms(3)] show b: "best_site host (map hosts (sites (serving r))) i" .
  then show "site_built (target_urls (configured_targets cfg)) (sites (serving r) ! i)"
    using built by (simp add: list_all_length best_site_def)
qed

lemma no_selected_site:
  assumes "newRouter env lookup cfg = Inr r" and "countable_targets cfg"
    and "selectSite (map hosts (sites (serving r))) (buildHostIndex (map hosts (sites (serving r)))) host = None"
  shows "list_all (\<lambda>s. bestHostMatch host (hosts s) = None) (sites (serving r))"
proof -
  have "\<forall>hs \<in> set (map hosts (sites (serving r))). \<forall>h \<in> set hs. wf_host h"
    using newRouter_built [OF assms(1,2)] by (auto simp: list_all_iff site_built_def)
  from selectSite_none [OF this, of host] show ?thesis using assms(3) by (simp add: list_all_iff)
qed

section \<open>Properties\<close>

text \<open>C3. A router built from a configuration routes every request to the best match: to the site whose host
  patterns match best and, within it, to the eligible route that beats all others, or to the site's own
  proxy when no route is eligible. It answers 404 only if no site matches, and it never meets a site or a
  route without a proxy or a generated answer, whatever the order and the number of sites and routes and
  whether or not they are indexed.
\<close>

theorem built_router_routes_best:
  assumes "newRouter env lookup cfg = Inr r" and "countable_targets cfg"
  shows "let ss = sites (serving r); host = normalizeHost (Host req) in
    case route_request (serving r) req of
      OptionsStar \<Rightarrow> Method req = ''OPTIONS'' \<and> RequestURI req = ''*''
    | NoSite \<Rightarrow> list_all (\<lambda>s. bestHostMatch host (hosts s) = None) ss
    | ProxyTo p req' \<Rightarrow> \<exists>i. best_site host (map hosts ss) i \<and>
        (eligible (ss ! i) req = {} \<and> siteProxy (ss ! i) = Some p \<and> req' = req \<or>
         (\<exists>c. is_best (ss ! i) (eligible (ss ! i) req) (Some c) \<and> proxy (candRoute c) = Some p \<and>
            req' = (if strip (candRoute c) then req\<lparr>URL := stripRequestPath (URL req) (candPrefix c)\<rparr> else req)))
    | Respond g \<Rightarrow> \<exists>i c. best_site host (map hosts ss) i \<and> is_best (ss ! i) (eligible (ss ! i) req) (Some c) \<and>
        respond (candRoute c) = Some g
    | NilProxy \<Rightarrow> False
    | Rejected \<Rightarrow> False"
proof -
  let ?ss = "sites (serving r)" and ?host = "normalizeHost (Host req)"
  have ix: "host_index (serving r) = buildHostIndex (map hosts ?ss)" using newRouter_built [OF assms] by simp
  show ?thesis
  proof (cases "selectSite (map hosts ?ss) (buildHostIndex (map hosts ?ss)) ?host")
    case None
    then show ?thesis using no_selected_site [OF assms None] by (simp add: route_request_def ix Let_def)
  next
    case (Some i)
    note site = selected_site [OF assms Some]
    then obtain p where p: "siteProxy (?ss ! i) = Some p" by (auto simp: site_built_def)
    show ?thesis
    proof (cases "selectRoute (?ss ! i) req")
      case None
      then show ?thesis using Some site(1) p no_selected_route [OF site(2) None]
        by (simp add: route_request_def ix Let_def) blast
    next
      case chosen: (Some c)
      note c = selected_route [OF site(2) chosen]
      show ?thesis
      proof (cases "respond (candRoute c)")
        case None
        then obtain q where "proxy (candRoute c) = Some q" using c(2) by (auto simp: route_built_def split: option.splits)
        then show ?thesis using Some site(1) chosen c(1) None by (simp add: route_request_def ix Let_def) blast
      next
        case (Some g)
        then show ?thesis using \<open>selectSite _ _ _ = Some i\<close> site(1) chosen c(1) by (simp add: route_request_def ix Let_def) blast
      qed
    qed
  qed
qed

text \<open>The proxy a request is routed to is one that was built.\<close>

lemma routed_proxy:
  assumes "newRouter env lookup cfg = Inr r" and "countable_targets cfg" and "route_request (serving r) req = ProxyTo p req'"
  shows "proxy_ok (target_urls (configured_targets cfg)) p"
proof -
  obtain i where i: "selectSite (map hosts (sites (serving r))) (buildHostIndex (map hosts (sites (serving r)))) (normalizeHost (Host req)) = Some i"
      "siteProxy (sites (serving r) ! i) = Some p \<or>
        (\<exists>c. selectRoute (sites (serving r) ! i) req = Some c \<and> proxy (candRoute c) = Some p)"
    using assms(3) newRouter_built [OF assms(1,2)] by (auto simp: route_request_def Let_def split: if_splits option.splits)
  note site = selected_site(2) [OF assms(1,2) i(1)]
  show ?thesis
    using i(2)
  proof (elim disjE exE conjE)
    fix c
    assume "selectRoute (sites (serving r) ! i) req = Some c" "proxy (candRoute c) = Some p"
    then show ?thesis using selected_route(2) [OF site] by (force simp: route_built_def)
  qed (use site in \<open>auto simp: site_built_def\<close>)
qed

text \<open>A URL addressed to a configured target, with the query of the client's request.\<close>

definition addressed :: "('x, 'k) config \<Rightarrow> request \<Rightarrow> url \<Rightarrow> bool" where
  "addressed cfg rin u \<longleftrightarrow> (\<exists>raw \<in> configured_targets cfg. \<exists>t. parseTarget raw = Inr t \<and> Scheme u = Scheme t \<and>
     UHost u = UHost t \<and> RawQuery u = RawQuery (URL rin))"

lemma addressed_retry:
  assumes "addressed cfg rin (URL out)" and "set (targets b) \<subseteq> target_urls (configured_targets cfg)"
    and "u \<in> insert (URL out) (retry_urls b out)"
  shows "addressed cfg rin u"
  using assms by (fastforce simp: addressed_def retry_urls_def target_urls_def)

text \<open>C1. The proxy only ever talks to upstreams its configuration names. Whatever a client sends, the rewriting of
  the proxy its request is routed to addresses the outgoing request to the scheme and authority of a
  configured target, with the client's own query; path rewriting, request ids and the choice among the
  targets of a backend do not change that. And whatever happens to the attempts, every request that a backend
  of the router hands to its transport for it, the first and the retried ones, is addressed to a configured
  target with that query, too.
\<close>

theorem upstreams_only_configured:
  fixes renv :: "'e env"
  assumes "newRouter env lookup cfg = Inr r" and "countable_targets cfg"
    and "route_request (serving r) req = ProxyTo p req'" and "Rewrite p rin out s = (out', s')"
  shows "addressed cfg rin (URL out') \<and>
    (\<forall>(name, b) \<in> set (router_backends r). \<forall>mark rs res rs'. trace rs = [] \<longrightarrow>
       RoundTrip (core b) renv mark (retry_request.truncate out') rs = (res, rs') \<longrightarrow>
       (\<forall>u \<in> sent_urls (trace rs'). addressed cfg rin u))"
proof -
  have first: "addressed cfg rin (URL out')"
    using routed_proxy [OF assms(1-3)] assms(4) unfolding proxy_ok_def target_urls_def addressed_def by blast
  let ?out = "retry_request.truncate out'"
  have "addressed cfg rin u"
    if b: "(name, b) \<in> set (router_backends r)" and run: "RoundTrip (core b) renv mark ?out rs = (res, rs')"
      and start: "trace rs = []" and u: "u \<in> sent_urls (trace rs')"
    for name b mark rs res rs' u
  proof -
    have ok: "set (targets (core b)) \<subseteq> target_urls (configured_targets cfg)" "targets (core b) \<noteq> []"
      using newRouter_built [OF assms(1,2)] b by (auto simp: backends_ok_def proxied_backend_ok_def)
    have "URL ?out = URL out'" by (simp add: retry_request.truncate_def)
    with first have "addressed cfg rin (URL ?out)" by simp
    from addressed_retry [OF this ok(1)] show ?thesis
      using RoundTrip_urls [OF ok(2) run] u start by auto
  qed
  with first show ?thesis by blast
qed

section \<open>Witnesses\<close>

definition sample_config :: "(string, string) config" where
  "sample_config = \<lparr>Listen = '':80'', Log = False, IDs = True, Limit = None, ServerTLS = None, TrustProxies = [], Backends = [],
     Sites = [\<lparr>Hosts = [''*''], Target = ''http://a:1'', SBackend = [], STimeout = None, STLS = None, SHeaders = [],
       SResponse = empty_policy, Routes = []\<rparr>]\<rparr>"

lemma sample_site:
  "newHostPattern ''*'' = Inr (hd demo_star)" "[hd demo_star] = demo_star"
  "resolveResponseHeaders (\<lambda>_. None) empty_policy = Inr empty_policy"
  "selectSite [demo_star] (buildHostIndex [demo_star]) (normalizeHost (Host blank_request)) = Some 0"
  "Method blank_request \<noteq> ''OPTIONS''"
  by code_simp+

lemma sample_builds:
  "\<exists>r p. newRouter demo_crypto (\<lambda>_. None) sample_config = Inr r \<and> route_request (serving r) blank_request = ProxyTo p blank_request"
proof -
  obtain u where u: "parseTarget ''http://a:1'' = Inr u" using sample_target [of "CHR ''a''" "CHR ''1''"] by auto
  define p where "p = newReverseProxy (\<lambda>rin out s. (rewriteProxyRequest rin out u [] [], s)) (DirectTransport 0) empty_policy
      empty_policy 0 (directBodyTimeout None)"
  define s :: built_site where "s = \<lparr>hosts = demo_star, siteProxy = Some (enableRequestIDProxy p), routes = [], siteTrust = [],
      exactRoutes = None, wildcardRoutes = Map.empty\<rparr>"
  have "\<exists>r. newRouter demo_crypto (\<lambda>_. None) sample_config = Inr r \<and> serving r = \<lparr>access_log = False, requestID = True,
      limited = False, sites = [s], host_index = buildHostIndex [demo_star]\<rparr>"
    by (simp add: newRouter_def sample_config_def parseTrustedProxies_def newBackends_def newSite_def require_def sample_site(1-3)
        resolveHeaders_def tls_block_def newProxyForSelection_def validateDirectTimeout_def newProxy_def u
        get_transport_def cached_tls_def newDirectTransportCache_def on_failure_def Let_def routeIndexThreshold_def
        with_request_ids_def s_def p_def)
  moreover have "selectRoute s blank_request = None"
    by (simp add: selectRoute_def s_def new_match_state_def)
  ultimately show ?thesis
    using sample_site(4,5) by (force simp: route_request_def s_def)
qed

lemma sample_countable: "countable_targets sample_config"
  by (simp add: countable_targets_def sample_config_def)

theorem built_router_routes_best_witness:
  "\<exists>r. newRouter demo_crypto (\<lambda>_. None) sample_config = Inr r \<and> route_request (serving r) blank_request \<noteq> NilProxy"
proof -
  obtain r where r: "newRouter demo_crypto (\<lambda>_. None) sample_config = Inr r" using sample_builds by blast
  show ?thesis using built_router_routes_best [OF r sample_countable, of blank_request] r by (auto simp: Let_def)
qed

definition sample_out :: out_request where
  "sample_out = \<lparr>Method = ''GET'', URL = URL blank_request, Host = ''h'', Header = [], RemoteAddr = [], RequestURI = [],
     is_tls = False, ContentLength = 0, TransferEncoding = [], Trailer = [], Body = NoBody, request_id = None,
     GetBody = None, retry_mark = None\<rparr>"

theorem upstreams_only_configured_witness:
  "\<exists>r p t. newRouter demo_crypto (\<lambda>_. None) sample_config = Inr r \<and> parseTarget ''http://a:1'' = Inr t \<and>
     route_request (serving r) blank_request = ProxyTo p blank_request \<and>
     UHost (URL (fst (Rewrite p blank_request sample_out (\<lambda>_. \<lparr>nextIndex = 0, wpool = None\<rparr>)))) = UHost t"
proof -
  obtain r p where r: "newRouter demo_crypto (\<lambda>_. None) sample_config = Inr r"
      "route_request (serving r) blank_request = ProxyTo p blank_request"
    using sample_builds by blast
  have "configured_targets sample_config = {''http://a:1''}" by (simp add: configured_targets_def sample_config_def)
  then obtain t where "parseTarget ''http://a:1'' = Inr t"
      "UHost (URL (fst (Rewrite p blank_request sample_out (\<lambda>_. \<lparr>nextIndex = 0, wpool = None\<rparr>)))) = UHost t"
    using conjunct1 [OF upstreams_only_configured [OF r(1) sample_countable r(2), of blank_request sample_out
        "\<lambda>_. \<lparr>nextIndex = 0, wpool = None\<rparr>", OF prod.collapse [symmetric]]]
    by (auto simp: addressed_def)
  then show ?thesis using r by blast
qed

end
