(* ===== verification/Probe.thy ===== *)
theory Probe
  imports Upstream
begin

text \<open>
  The active health checks of a backend (\<open>src/proxy.go\<close>): \<open>startProbe\<close>, \<open>cancelProbe\<close>, \<open>joinProbe\<close>, \<open>runProbeLoop\<close>,
  \<open>waitProbeTimer\<close> and \<open>probeTarget\<close>. The loop is a goroutine of its own: a step of it is what it does between
  two reads of the clock or of a context, and the clock, the shutdown and the retirement of the router run
  between any two of its steps.
\<close>

section \<open>The state\<close>

text \<open>
  Where the loop stands: about to reset its timer, in the \<open>select\<close> with a timer that fires at a time,
  before a target of a round, past the check of the context, in a request whose context ends at a time,
  with \<open>next\<close> computed, and at its end. A round carries its \<open>started\<close>.
\<close>

datatype probe_phase =
    Resetting int
  | Waiting int
  | Before nat int
  | Checked nat int
  | InFlight nat int int
  | Planned int
  | Stopped

record probe_settings =
  ptargets :: nat
  pevery :: int
  ptimeout :: int
  phealth :: backendHealth
  valid_request :: "nat \<Rightarrow> bool"

text \<open>\<open>cancelOnce\<close> and the context it cancels; the generation's \<open>retired\<close>; the health of the targets. The last
  three fields record what happened: starts of rounds, requests sent with their target, bodies closed.\<close>

record probe_world =
  wnow :: int
  phase :: probe_phase
  cancel_once_done :: bool
  ended :: bool
  retired :: bool
  health_of :: "targetHealth list"
  round_starts :: "int list"
  sent_probes :: "(nat \<times> int) list"
  bodies_closed :: nat

text \<open>An answer of the transport: an error, or a status and whether there is a body.\<close>

datatype probe_answer = ProbeError | ProbeResponse int bool

fun response_healthy :: "probe_answer \<Rightarrow> bool" where
  "response_healthy ProbeError = False"
| "response_healthy (ProbeResponse code has) \<longleftrightarrow> has \<and> 200 \<le> code \<and> code \<le> 399"

section \<open>Operations\<close>

definition startProbe :: "('x, 'k) built_backend \<Rightarrow> (nat \<Rightarrow> bool) \<Rightarrow> int \<Rightarrow> (probe_settings \<times> probe_world) option" where
  "startProbe b valid t0 =
     (case (health (core b), probe b) of
        (Some h, Some p) \<Rightarrow> Some
          (\<lparr>ptargets = length (targets (core b)), pevery = ProbeEvery p, ptimeout = ProbeTimeout p, phealth = h, valid_request = valid\<rparr>,
           \<lparr>wnow = t0, phase = Resetting (ProbeEvery p), cancel_once_done = False, ended = False, retired = False,
            health_of = targets_health b, round_starts = [], sent_probes = [], bodies_closed = 0\<rparr>)
      | _ \<Rightarrow> None)"

text \<open>\<open>probeCancel\<close> is set exactly when a loop was begun.\<close>

definition cancelProbe :: "probe_world \<Rightarrow> probe_world" where
  "cancelProbe w = (if cancel_once_done w then w else w\<lparr>cancel_once_done := True, ended := True\<rparr>)"

definition joinProbe :: "probe_world \<Rightarrow> bool" where
  "joinProbe w \<longleftrightarrow> phase w = Stopped"

text \<open>The observation at the end of \<open>probeTarget\<close>: \<open>expires\<close> is the end of the probe's context.\<close>

definition observe_probe :: "probe_settings \<Rightarrow> nat \<Rightarrow> int \<Rightarrow> bool \<Rightarrow> probe_world \<Rightarrow> targetHealth list" where
  "observe_probe cfg i expires healthy w =
     (health_of w)[i := observeProbe (phealth cfg) (wnow w) (ended w) (retired w) (ended w \<or> expires \<le> wnow w) healthy (health_of w ! i)]"

definition next_round :: "int \<Rightarrow> int \<Rightarrow> int \<Rightarrow> int" where
  "next_round begun every finished = (if begun + every < finished then finished else begun + every)"

inductive loop_step :: "probe_settings \<Rightarrow> probe_world \<Rightarrow> probe_world \<Rightarrow> bool" for cfg where
  reset_timer: "phase w = Resetting delay \<Longrightarrow> loop_step cfg w (w\<lparr>phase := Waiting (wnow w + max delay 0)\<rparr>)"
| timer_fires: "phase w = Waiting at \<Longrightarrow> at \<le> wnow w \<Longrightarrow>
    loop_step cfg w (w\<lparr>phase := Before 0 (wnow w), round_starts := round_starts w @ [wnow w]\<rparr>)"
| wait_ends: "phase w = Waiting at \<Longrightarrow> ended w \<Longrightarrow> loop_step cfg w (w\<lparr>phase := Stopped\<rparr>)"
| check_passes: "phase w = Before i begun \<Longrightarrow> i < ptargets cfg \<Longrightarrow> \<not> ended w \<Longrightarrow> loop_step cfg w (w\<lparr>phase := Checked i begun\<rparr>)"
| check_ends: "phase w = Before i begun \<Longrightarrow> i < ptargets cfg \<Longrightarrow> ended w \<Longrightarrow> loop_step cfg w (w\<lparr>phase := Stopped\<rparr>)"
| probe_sent: "phase w = Checked i begun \<Longrightarrow> valid_request cfg i \<Longrightarrow>
    loop_step cfg w (w\<lparr>phase := InFlight i begun (wnow w + ptimeout cfg), sent_probes := sent_probes w @ [(i, wnow w)]\<rparr>)"
| no_request: "phase w = Checked i begun \<Longrightarrow> \<not> valid_request cfg i \<Longrightarrow>
    loop_step cfg w (w\<lparr>phase := Before (Suc i) begun, health_of := observe_probe cfg i (wnow w + ptimeout cfg) False w\<rparr>)"
| probe_answered: "phase w = InFlight i begun expires \<Longrightarrow>
    loop_step cfg w (w\<lparr>phase := Before (Suc i) begun,
      bodies_closed := (case answer of ProbeResponse s True \<Rightarrow> bodies_closed w + 1 | _ \<Rightarrow> bodies_closed w),
      health_of := observe_probe cfg i expires (response_healthy answer) w\<rparr>)"
| round_done: "phase w = Before (ptargets cfg) begun \<Longrightarrow>
    loop_step cfg w (w\<lparr>phase := Planned (next_round begun (pevery cfg) (wnow w))\<rparr>)"
| delay_read: "phase w = Planned at \<Longrightarrow> loop_step cfg w (w\<lparr>phase := Resetting (at - wnow w)\<rparr>)"

inductive probe_step :: "probe_settings \<Rightarrow> probe_world \<Rightarrow> probe_world \<Rightarrow> bool" for cfg where
  loop_runs: "loop_step cfg w w' \<Longrightarrow> probe_step cfg w w'"
| clock_advances: "0 \<le> d \<Longrightarrow> probe_step cfg w (w\<lparr>wnow := wnow w + d\<rparr>)"
| cancelled: "probe_step cfg w (cancelProbe w)"
| router_retired: "probe_step cfg w (w\<lparr>retired := True\<rparr>)"
| request_observed: "length hs = length (health_of w) \<Longrightarrow> probe_step cfg w (w\<lparr>health_of := hs\<rparr>)"

inductive probe_steps :: "probe_settings \<Rightarrow> probe_world \<Rightarrow> probe_world \<Rightarrow> bool" for cfg where
  start: "probe_steps cfg w w"
| further: "probe_steps cfg w w' \<Longrightarrow> probe_step cfg w' w'' \<Longrightarrow> probe_steps cfg w w''"

section \<open>The invariant\<close>

definition spaced :: "int \<Rightarrow> int list \<Rightarrow> bool" where
  "spaced e xs \<longleftrightarrow> (\<forall>i. Suc i < length xs \<longrightarrow> xs ! i + e \<le> xs ! Suc i)"

lemma spaced_snoc:
  assumes "xs \<noteq> []"
  shows "spaced e (xs @ [y]) \<longleftrightarrow> spaced e xs \<and> last xs + e \<le> y"
proof -
  obtain n where n: "length xs = Suc n" using assms by (cases xs) auto
  then have "(\<forall>i. Suc i < length (xs @ [y]) \<longrightarrow> P i) \<longleftrightarrow> (\<forall>i. Suc i < length xs \<longrightarrow> P i) \<and> P n" for P
    by (auto simp: less_Suc_eq)
  then show ?thesis using n assms by (simp add: spaced_def nth_append last_conv_nth)
qed

text \<open>The start of the latest round, or of the loop.\<close>

definition latest :: "int \<Rightarrow> probe_world \<Rightarrow> int" where
  "latest t0 w = last (t0 # round_starts w)"

fun phase_ok :: "probe_settings \<Rightarrow> int \<Rightarrow> int \<Rightarrow> probe_phase \<Rightarrow> bool" where
  "phase_ok cfg now l (Resetting d) \<longleftrightarrow> l + pevery cfg \<le> now + max d 0"
| "phase_ok cfg now l (Waiting at) \<longleftrightarrow> l + pevery cfg \<le> at"
| "phase_ok cfg now l (Planned at) \<longleftrightarrow> l + pevery cfg \<le> at"
| "phase_ok cfg now l (Before i st) \<longleftrightarrow> st = l \<and> i \<le> ptargets cfg"
| "phase_ok cfg now l (Checked i st) \<longleftrightarrow> st = l \<and> i < ptargets cfg"
| "phase_ok cfg now l (InFlight i st x) \<longleftrightarrow> st = l \<and> i < ptargets cfg"
| "phase_ok cfg now l Stopped \<longleftrightarrow> True"

definition probe_inv :: "probe_settings \<Rightarrow> int \<Rightarrow> probe_world \<Rightarrow> bool" where
  "probe_inv cfg t0 w \<longleftrightarrow> spaced (pevery cfg) (t0 # round_starts w) \<and> phase_ok cfg (wnow w) (latest t0 w) (phase w)"

lemma phase_ok_later: "phase_ok cfg now l p \<Longrightarrow> now \<le> now' \<Longrightarrow> phase_ok cfg now' l p"
  by (cases p) auto

lemma loop_step_inv: "loop_step cfg w w' \<Longrightarrow> probe_inv cfg t0 w \<Longrightarrow> probe_inv cfg t0 w'"
proof (induction rule: loop_step.induct)
  case (timer_fires w at)
  then show ?case
    using spaced_snoc [of "t0 # round_starts w" "pevery cfg" "wnow w"] by (auto simp: probe_inv_def latest_def)
qed (auto simp: probe_inv_def latest_def next_round_def)

lemma probe_step_inv: "probe_step cfg w w' \<Longrightarrow> probe_inv cfg t0 w \<Longrightarrow> probe_inv cfg t0 w'"
proof (induction rule: probe_step.induct)
  case (clock_advances d w)
  then show ?case using phase_ok_later by (auto simp: probe_inv_def latest_def)
next
  case (loop_runs w w')
  then show ?case by (rule loop_step_inv)
qed (auto simp: probe_inv_def latest_def cancelProbe_def)

lemma probe_steps_inv: "probe_steps cfg w w' \<Longrightarrow> probe_inv cfg t0 w \<Longrightarrow> probe_inv cfg t0 w'"
  by (induction rule: probe_steps.induct) (auto intro: probe_step_inv)

lemma startProbe_inv: "startProbe b valid t0 = Some (cfg, w) \<Longrightarrow> probe_inv cfg t0 w"
  by (auto simp: startProbe_def probe_inv_def latest_def spaced_def split: option.splits)

section \<open>After the shutdown\<close>

text \<open>The loop's own steps left once its context has ended.\<close>

fun steps_left :: "nat \<Rightarrow> probe_phase \<Rightarrow> nat" where
  "steps_left n (Checked i st) = 7"
| "steps_left n (InFlight i st x) = 6"
| "steps_left n (Before i st) = (if i < n then 1 else 5)"
| "steps_left n (Planned at) = 4"
| "steps_left n (Resetting d) = 3"
| "steps_left n (Waiting at) = 2"
| "steps_left n Stopped = 0"

lemma steps_left_bound: "steps_left n p \<le> 7"
  by (cases p) auto

lemma ended_loop_step:
  "loop_step cfg w w' \<Longrightarrow> ended w \<Longrightarrow> 0 < ptargets cfg \<Longrightarrow> phase_ok cfg (wnow w) l (phase w) \<Longrightarrow>
     ended w' \<and> health_of w' = health_of w \<and> steps_left (ptargets cfg) (phase w') < steps_left (ptargets cfg) (phase w)"
  by (induction rule: loop_step.induct) (auto simp: observe_probe_def observeProbe_def)

lemma ended_progress:
  assumes "ended w" and "phase w \<noteq> Stopped" and "phase_ok cfg now l (phase w)"
  shows "\<exists>w'. loop_step cfg w w'"
proof (cases "phase w")
  case (Before i st)
  then show ?thesis using assms check_ends [of w i st cfg] round_done [of w cfg st] by (cases "i < ptargets cfg") auto
next
  case (Checked i st)
  then show ?thesis using probe_sent [of w i st cfg] no_request [of w i st cfg] by blast
qed (use assms in \<open>blast intro: loop_step.intros\<close>)+

definition may_send :: "probe_world \<Rightarrow> nat" where
  "may_send w = (case phase w of Checked i st \<Rightarrow> 1 | _ \<Rightarrow> 0)"

lemma ended_sends:
  "probe_step cfg w w' \<Longrightarrow> ended w \<Longrightarrow>
     ended w' \<and> length (sent_probes w') + may_send w' \<le> length (sent_probes w) + may_send w"
proof (induction rule: probe_step.induct)
  case (loop_runs w w')
  then show ?case by (induction rule: loop_step.induct) (auto simp: may_send_def)
qed (auto simp: may_send_def cancelProbe_def)

lemma ended_sends_steps:
  "probe_steps cfg w w' \<Longrightarrow> ended w \<Longrightarrow>
     ended w' \<and> length (sent_probes w') + may_send w' \<le> length (sent_probes w) + may_send w"
  by (induction rule: probe_steps.induct) (use ended_sends le_trans in \<open>blast+\<close>)

section \<open>Properties\<close>

text \<open>C18. Rounds of probes do not bunch up: however long the targets take to answer, and whatever the scheduler
  does, the first round starts no earlier than one interval after the loop, and each further round no
  earlier than one interval after the start of the one before.
\<close>

theorem probe_rounds_spaced:
  assumes "startProbe b valid t0 = Some (cfg, w0)" and "probe_steps cfg w0 w" and "i < length (round_starts w)"
  shows "(t0 # round_starts w) ! i + pevery cfg \<le> round_starts w ! i"
  using probe_steps_inv [OF assms(2) startProbe_inv [OF assms(1)]] assms(3)
  by (auto simp: probe_inv_def spaced_def)

text \<open>C17. Shutting a router down ends its probes: once \<open>cancelProbe\<close> has run, the loop is at most seven of its own
  steps from its end and never stuck, so \<open>joinProbe\<close> returns; at most the one request already decided on is
  still sent, and no step of the loop changes the health of a target any more.
\<close>

theorem cancelled_probe_stops:
  assumes "startProbe b valid t0 = Some (cfg, w0)" and "0 < ptargets cfg" and "probe_steps cfg w0 w" and "ended w"
  shows "(joinProbe w \<or> (\<exists>w'. loop_step cfg w w')) \<and>
    (\<forall>w'. loop_step cfg w w' \<longrightarrow> ended w' \<and> health_of w' = health_of w \<and>
       steps_left (ptargets cfg) (phase w') < steps_left (ptargets cfg) (phase w)) \<and>
    steps_left (ptargets cfg) (phase w) \<le> 7 \<and>
    (\<forall>w'. probe_steps cfg w w' \<longrightarrow> length (sent_probes w') \<le> length (sent_probes w) + 1)"
proof -
  have inv: "phase_ok cfg (wnow w) (latest t0 w) (phase w)"
    using probe_steps_inv [OF assms(3) startProbe_inv [OF assms(1)]] by (simp add: probe_inv_def)
  have "may_send w \<le> 1" by (simp add: may_send_def split: probe_phase.split)
  then have "length (sent_probes w') \<le> length (sent_probes w) + 1" if "probe_steps cfg w w'" for w'
    using ended_sends_steps [OF that assms(4)] by simp
  then show ?thesis
    using ended_loop_step [OF _ assms(4,2) inv] ended_progress [OF assms(4) _ inv] steps_left_bound
    by (auto simp: joinProbe_def)
qed

section \<open>Witnesses\<close>

definition probed_backend :: "(string, string) built_backend" where
  "probed_backend = \<lparr>core = demo_backend\<lparr>health := Some \<lparr>fail_limit = 1, cool = 5\<rparr>\<rparr>, budget = None,
     targets_health = [fresh_target, fresh_target],
     probe = Some \<lparr>ProbePath = demo_url ''a'', ProbeEvery = 10, ProbeTimeout = 3\<rparr>, probeTargets = [''http://a'', ''http://b''],
     own_transport = newProxyTransportWithTLS 1 1 None\<rparr>"

definition probed_settings :: probe_settings where
  "probed_settings = \<lparr>ptargets = 2, pevery = 10, ptimeout = 3, phealth = \<lparr>fail_limit = 1, cool = 5\<rparr>, valid_request = (\<lambda>_. True)\<rparr>"

definition probed_start :: probe_world where
  "probed_start = \<lparr>wnow = 0, phase = Resetting 10, cancel_once_done = False, ended = False, retired = False,
     health_of = [fresh_target, fresh_target], round_starts = [], sent_probes = [], bodies_closed = 0\<rparr>"

lemma probed_started: "startProbe probed_backend (\<lambda>_. True) 0 = Some (probed_settings, probed_start)"
  by (simp add: startProbe_def probed_backend_def probed_settings_def probed_start_def demo_backend_def)

text \<open>The timer is reset at 0, fires at 12, and the first round begins.\<close>

definition probed_waiting :: probe_world where
  "probed_waiting = probed_start\<lparr>phase := Waiting 10, wnow := 12\<rparr>"

lemma probed_waits: "probe_steps probed_settings probed_start probed_waiting"
proof -
  have "probe_step probed_settings probed_start (probed_start\<lparr>phase := Waiting (wnow probed_start + max 10 0)\<rparr>)"
    by (rule loop_runs, rule reset_timer) (simp add: probed_start_def)
  then have "probe_steps probed_settings probed_start (probed_start\<lparr>phase := Waiting 10\<rparr>)"
    using further [OF probe_steps.start] by (simp add: probed_start_def)
  from further [OF this clock_advances [of 12]] show ?thesis by (simp add: probed_waiting_def probed_start_def)
qed

definition probed_round :: probe_world where
  "probed_round = probed_waiting\<lparr>phase := Before 0 12, round_starts := [12]\<rparr>"

theorem probe_rounds_spaced_witness: "0 + pevery probed_settings \<le> round_starts probed_round ! 0"
proof -
  have "loop_step probed_settings probed_waiting
      (probed_waiting\<lparr>phase := Before 0 (wnow probed_waiting), round_starts := round_starts probed_waiting @ [wnow probed_waiting]\<rparr>)"
    by (rule timer_fires [where at = 10]) (simp_all add: probed_waiting_def)
  then have "probe_steps probed_settings probed_start probed_round"
    using further [OF probed_waits loop_runs] by (simp add: probed_round_def probed_waiting_def probed_start_def)
  moreover have "0 < length (round_starts probed_round)" by (simp add: probed_round_def)
  ultimately show ?thesis using probe_rounds_spaced [OF probed_started, of probed_round 0] by (simp only: nth_Cons_0)
qed

theorem cancelled_probe_stops_witness:
  "\<exists>w'. loop_step probed_settings (cancelProbe probed_waiting) w' \<and> phase (cancelProbe probed_waiting) = Waiting 10"
proof -
  have "probe_steps probed_settings probed_start (cancelProbe probed_waiting)"
    by (rule further [OF probed_waits cancelled])
  from cancelled_probe_stops [OF probed_started _ this] show ?thesis
    by (auto simp: cancelProbe_def probed_waiting_def probed_start_def probed_settings_def joinProbe_def)
qed

end
