(* ===== verification/Spec2Isabelle.thy ===== *)
theory Spec2Isabelle
  imports RateLimit Admission Limiter PathMatch HostMatch ClientIP RouteMatch Schedule Health TargetChoice Retry Headers AccessLog Bodies RequestID Serve Runtime Json TLS Decode Config Accepted UrlParse Upstream TransportCache Proxying NewRouter Probe
begin

text \<open>
  A verification library of kubio, a reverse proxy written in Go. It models the whole request path and
  the whole life of a configuration, from the bytes of the file to the requests that go to an upstream.
  Function and field names are those of the Go code; a name that would clash with one of HOL or of
  another record has a short prefix.

  \<^bold>\<open>The program.\<close> \<open>main\<close> loads a configuration, builds a \<open>runtimeGeneration\<close> (a router, a certificate, a
  bucket) and publishes it in a \<open>reloadableRouter\<close>; \<open>watchConfig\<close> polls the file and publishes further
  generations. A request loads the generation, takes a token of its bucket, gets an id, is logged, and
  is routed: by its host to a site, by path, method and conditions to a route, which answers itself or
  hands the request to a reverse proxy. A proxy rewrites the request and sends it to a direct target or
  to a backend, which chooses targets by weight and health, retries within a budget, and probes.

  \<^bold>\<open>Foundations.\<close>
  \<^item> \<open>Prelude\<close>: errors (\<open>gerr\<close>, \<open>res\<close>), Go strings as byte lists, 64-bit integers as wrapped \<open>int\<close>, maps with
    an iteration order (\<open>gomap\<close>), and three contracts: \<open>preference\<close> (loops that keep the better
    candidate), \<open>stateful_test\<close> and \<open>pure_test\<close> (tests that change the state they ask).
  \<^item> \<open>Http\<close>, \<open>GoNet\<close>, \<open>UrlParse\<close>: what the program uses of Go's standard library (headers, requests, queries,
    URLs, addresses, prefixes, ports).

  \<^bold>\<open>Configuration\<close> (\<open>src/config.go\<close>, \<open>src/tls.go\<close>).
  \<^item> \<open>Json\<close>: \<open>validateJSON\<close> on the token stream of \<open>json.Decoder\<close>. \<open>conforms\<close> is the schema as a relation, and the
    loop accepts exactly the conforming documents.
  \<^item> \<open>Decode\<close>: every \<open>UnmarshalJSON\<close>, on the document tree. \<open>Headers\<close>: names, values, methods, environment
    expansion and the header maps. \<open>Config\<close>: the raw structs and \<open>decodeConfig\<close> with every check.
  \<^item> \<open>Accepted\<close>: \<open>config_ok\<close>, the guarantees of an accepted configuration, proved with a small calculus of
    postconditions (\<open>yields\<close>).
  \<^item> \<open>TLS\<close>: PEM files, key pairs, CA pools, server names and identities.

  \<^bold>\<open>Construction\<close> (\<open>src/proxy.go\<close>, \<open>src/router.go\<close>).
  \<^item> \<open>Upstream\<close>: \<open>parseTarget\<close>, transports and their cache, \<open>newBackend\<close>. \<open>TransportCache\<close>: which proxies share a
    transport; sharing is stated over the settings themselves (\<open>same_block\<close>), not over the key the code
    compares. \<open>Proxying\<close>: the rewriting and the response side of a reverse proxy, and its choice.
  \<^item> \<open>NewRouter\<close>: \<open>newBackends\<close>, \<open>newSite\<close>, \<open>newRouter\<close>. Its theorems compose the others: a router built from a
    configuration routes to the best match, and every request it sends, first or retried, goes to a
    configured target.

  \<^bold>\<open>Routing\<close> (\<open>src/router.go\<close>).
  \<^item> \<open>PathMatch\<close>: path patterns, strip and rewrite on the decoded and the percent-encoded path.
  \<^item> \<open>HostMatch\<close>: host patterns, scores, the three host indexes. \<open>RouteMatch\<close>: conditions with their caches, the
    order of routes, the two route indexes. Both indexes are proved to choose what a scan chooses;
    \<open>host_order\<close> and \<open>route_order\<close> interpret \<open>preference\<close>, \<open>cached\<close> interprets \<open>pure_test\<close>.
  \<^item> \<open>ClientIP\<close>: peers, forwarded chains, trusted proxies, forwarding headers.

  \<^bold>\<open>Backends\<close> (\<open>src/proxy.go\<close>).
  \<^item> \<open>Schedule\<close>: smooth weighted round robin and its 64-bit counter.
  \<^item> \<open>Health\<close>: ejection and return of targets, choice of a target, the retry budget. \<open>availability\<close> extends
    \<open>stateful_test\<close> and is interpreted by the pool; the budget interprets \<open>admission_control\<close>.
  \<^item> \<open>TargetChoice\<close>: the choice of a target as the step relation \<open>choice_step\<close>, with any number of requests on the
    shared cursor and with attempts and probes that change the health in between. \<open>undisturbed_choice\<close>
    ties it to \<open>Health.nextTargetIndex\<close>, which \<open>Proxying\<close> builds on: a call whose steps follow each other.
  \<^item> \<open>Retry\<close>: \<open>RoundTrip\<close> and its loops, as functions of an environment that answers each send and each reading
    of clock, context and random source in any way, and that leaves any bytes in a body that was sent.
    The trace has the URL and the body of each request handed to the transport. \<open>attempts_spec\<close> is the
    abstract specification.
  \<^item> \<open>Probe\<close>: the probe goroutine as the step relation \<open>loop_step\<close>; clock and shutdown run between its steps.
  \<^item> \<open>Bodies\<close>: response bodies that a timer, a context, a reader and a closer may end at the same time.

  \<^bold>\<open>Serving\<close> (\<open>src/rate_limit.go\<close>, \<open>src/request_id.go\<close>, \<open>src/access_log.go\<close>, \<open>src/main.go\<close>).
  \<^item> \<open>RateLimit\<close>: the token bucket at 64 bits and the contract \<open>admission_control\<close>, with the bounds every
    implementation of it obeys. \<open>Admission\<close>: the compare-and-swap loop on the published generation, with
    reloads. \<open>Limiter\<close>: the loop of a limiter of its own state, which is linearizable.
  \<^item> \<open>RequestID\<close>, \<open>AccessLog\<close>, \<open>Serve\<close>: the response writers and the handlers between connection and route, and
    their composition. \<open>forwarding_writer\<close> is the contract of a writer with the handlers above it.
  \<^item> \<open>Runtime\<close>: the poll loop of \<open>watchConfig\<close>, publication and shutdown of generations.

  \<^bold>\<open>How state and concurrency are modelled.\<close> Sequential code is a function from state to state. Code that
  runs concurrently is a step relation; a step is an atomic operation or a critical section, and the
  theorems range over every reachable state or every sequence of steps. A pointer that is compared is a
  number, and its object never changes once it is stored. What is a function although it shares state
  (the first target of a proxied request, the attempts of one \<open>RoundTrip\<close>) is one call on its own; the
  theorems about such calls hold from every state they may start in. Errors are values: every early return and
  every \<open>fmt.Errorf\<close> is a branch.

  \<^bold>\<open>Bounds and fuel.\<close> \<open>json_fuel\<close> is twice the number of tokens plus two: two calls consume a token. The PEM
  loops have one turn more than the length of their input, as each turn consumes a block. Other loops
  terminate by a measure (\<open>read_body_loop\<close>, \<open>try_parents\<close>, \<open>expandEnv\<close>, \<open>strip_escaped_loop\<close>) or structurally, and the
  acceptance theorems show that running out of fuel does not happen. A cancelled probe loop has at most
  seven steps left. Machine integers wrap (\<open>i64\<close>, \<open>64 word\<close>) wherever the code can reach the wrap.

  \<^bold>\<open>Parameters.\<close> \<open>time.ParseDuration\<close> (\<open>dur\<close>), the environment variables, the token stream and the document tree
  of \<open>encoding/json\<close>, PEM, X.509 and hashing (\<open>crypto\<close>, of which only \<open>pem_consumes\<close> is assumed), the random
  sources, clocks, contexts, transports, and what a reverse proxy does with the connection.

  \<^bold>\<open>What modelling showed.\<close>
  \<^item> \<open>RoundTrip\<close> cancels its derived context before it asks that context for its error. With
    \<open>retry.deadline\<close> configured every upstream error becomes \<open>context.Canceled\<close>:
    \<open>Retry.deadline_masks_upstream_errors\<close>.
  \<^item> \<open>setRequestID\<close> stores the id under a name that is not canonical, and the upstream request gets two id
    fields: \<open>RequestID.upstream_request_carries_id_twice\<close>.
  \<^item> \<open>parseUpstreamCAPool\<close> accepts a file that starts with a malformed block, as \<open>pem.Decode\<close> skips it:
    \<open>TLS.parseUpstreamCAPool_accepts_iff\<close>.
  \<^item> Two requests on one schedule cursor can make a request miss the only available target in its
    cycle: \<open>TargetChoice.interference_misses_available\<close>. The specification allows it.

  \<^bold>\<open>Not modelled.\<close>
  \<^item> \<open>main()\<close> itself, signals and the listener: they start what is modelled and end the process on an error.
  \<^item> Dialing, TLS handshakes, connection pools, \<open>CloseIdleConnections\<close> and the copying of bodies: they belong to
    \<open>net/http\<close> and \<open>net/http/httputil\<close>. The model keeps the settings the program chooses.
  \<^item> The lock and the JSON encoding of the access log's output, and the \<open>sync.Pool\<close> behind the copy buffers:
    output and memory reuse without a decision.
  \<^item> Letters outside ASCII in case folding, and the text of errors of the standard library.
\<close>

end
